(* ===== verification/Prelude.thy ===== *)
theory Prelude
  imports Main "HOL-Library.Word"
begin

unbundle bit_operations_syntax

text \<open>
  Shared vocabulary of the development: the machine types of the node
  (bytes, \<open>u32\<close>, \<open>u64\<close>), Rust's \<open>Result\<close> as a sum type with the sequencing
  that the \<open>?\<close> operator performs, saturating and checked arithmetic,
  slices, and the little-endian byte encodings that every wire format of the
  repository uses.  Lengths and indices (\<open>usize\<close>) are natural numbers.
\<close>

section \<open>Types\<close>

type_synonym byte = "8 word"
type_synonym bytes = "byte list"
type_synonym u32 = "32 word"
type_synonym u64 = "64 word"

text \<open>A \<open>Hash256\<close> is its 32 bytes in consensus (little-endian) order.\<close>

type_synonym hash256 = bytes

named_theorems res_simps \<open>sequencing of fallible code\<close>
named_theorems len_simps \<open>lengths of encodings\<close>
named_theorems le_simps \<open>little-endian encodings\<close>

section \<open>Results\<close>

text \<open>\<open>Result<A, E>\<close> is \<open>'e + 'a\<close> with \<open>Inl\<close> the error; \<open>bindE\<close> is the \<open>?\<close> operator.\<close>

definition bindE :: "'e + 'a \<Rightarrow> ('a \<Rightarrow> 'e + 'b) \<Rightarrow> 'e + 'b" where
  "bindE m f = (case m of Inl e \<Rightarrow> Inl e | Inr x \<Rightarrow> f x)"

definition map_err :: "('e \<Rightarrow> 'f) \<Rightarrow> 'e + 'a \<Rightarrow> 'f + 'a" where
  "map_err g m = (case m of Inl e \<Rightarrow> Inl (g e) | Inr x \<Rightarrow> Inr x)"

definition ok_or :: "'e \<Rightarrow> 'a option \<Rightarrow> 'e + 'a" where
  "ok_or e m = (case m of None \<Rightarrow> Inl e | Some x \<Rightarrow> Inr x)"

definition guardE :: "bool \<Rightarrow> 'e \<Rightarrow> 'e + unit" where
  "guardE bad e = (if bad then Inl e else Inr ())"

definition is_ok :: "'e + 'a \<Rightarrow> bool" where
  "is_ok m = (case m of Inl _ \<Rightarrow> False | Inr _ \<Rightarrow> True)"

lemma bindE_simps [simp, res_simps]:
  "bindE (Inl e) f = Inl e"
  "bindE (Inr x) f = f x"
  by (simp_all add: bindE_def)

lemma map_err_simps [simp, res_simps]:
  "map_err g (Inl e) = Inl (g e)"
  "map_err g (Inr x) = Inr x"
  by (simp_all add: map_err_def)

lemma ok_or_simps [simp, res_simps]:
  "ok_or e None = Inl e"
  "ok_or e (Some x) = Inr x"
  by (simp_all add: ok_or_def)

lemma guardE_simps [simp, res_simps]:
  "guardE True e = Inl e"
  "guardE False e = Inr ()"
  by (simp_all add: guardE_def)

lemma is_ok_simps [simp, res_simps]:
  "is_ok (Inl e) = False"
  "is_ok (Inr x) = True"
  by (simp_all add: is_ok_def)

lemma bindE_eq_Inr_iff [simp]:
  "bindE m f = Inr y \<longleftrightarrow> (\<exists>x. m = Inr x \<and> f x = Inr y)"
  by (cases m) auto

lemma bindE_eq_Inl_iff:
  "bindE m f = Inl e \<longleftrightarrow> m = Inl e \<or> (\<exists>x. m = Inr x \<and> f x = Inl e)"
  by (cases m) auto

lemma map_err_eq_Inr_iff [simp]: "map_err g m = Inr x \<longleftrightarrow> m = Inr x"
  by (cases m) auto

lemma map_err_eq_Inl_iff [simp]: "map_err g m = Inl f \<longleftrightarrow> (\<exists>e. m = Inl e \<and> f = g e)"
  by (cases m) auto

lemma ok_or_eq_Inr_iff [simp]: "ok_or e m = Inr x \<longleftrightarrow> m = Some x"
  by (cases m) auto

lemma ok_or_eq_Inl_iff [simp]: "ok_or e m = Inl f \<longleftrightarrow> m = None \<and> f = e"
  by (cases m) auto

lemma guardE_eq_Inr_iff [simp]: "guardE bad e = Inr u \<longleftrightarrow> \<not> bad"
  by (simp add: guardE_def)

lemma guardE_eq_Inl_iff [simp]: "guardE bad e = Inl f \<longleftrightarrow> bad \<and> f = e"
  by (auto simp: guardE_def)

lemma is_ok_iff: "is_ok m \<longleftrightarrow> (\<exists>x. m = Inr x)"
  by (cases m) auto

lemma is_ok_bindE [simp]: "is_ok (bindE m f) \<longleftrightarrow> (\<exists>x. m = Inr x \<and> is_ok (f x))"
  by (cases m) auto

lemma bindE_cong [fundef_cong]:
  "m = m' \<Longrightarrow> (\<And>x. m' = Inr x \<Longrightarrow> f x = f' x) \<Longrightarrow> bindE m f = bindE m' f'"
  by (cases m') auto

section \<open>Results with a shared state\<close>

text \<open>
  Code that returns a \<open>Result\<close> and also writes through a shared reference
  keeps the writes it made before an error.  Such a computation maps the state
  to the result and the state after it.
\<close>

type_synonym ('c, 'e, 'a) sresult = "'c \<Rightarrow> ('e + 'a) \<times> 'c"

definition bindS :: "('c, 'e, 'a) sresult \<Rightarrow> ('a \<Rightarrow> ('c, 'e, 'b) sresult) \<Rightarrow> ('c, 'e, 'b) sresult" where
  "bindS m f c = (case m c of (Inl e, c') \<Rightarrow> (Inl e, c') | (Inr x, c') \<Rightarrow> f x c')"

definition liftS :: "'e + 'a \<Rightarrow> ('c, 'e, 'a) sresult" where
  "liftS r c = (r, c)"

lemma bindS_eq_Inr_iff [simp]:
  "bindS m f c = (Inr y, c'') \<longleftrightarrow> (\<exists>x c'. m c = (Inr x, c') \<and> f x c' = (Inr y, c''))"
  by (auto simp: bindS_def split: prod.splits sum.splits)

lemma liftS_eq_iff [simp]: "liftS r c = (r', c') \<longleftrightarrow> r = r' \<and> c = c'"
  by (auto simp: liftS_def)

lemma bindS_liftS_Inr [simp, res_simps]: "bindS (liftS (Inr x)) f = f x"
  by (rule ext) (simp add: bindS_def liftS_def)

lemma bindS_liftS_Inl [simp, res_simps]: "bindS (liftS (Inl e)) f = liftS (Inl e)"
  by (rule ext) (simp add: bindS_def liftS_def)

lemma fst_bindS:
  "fst (bindS m f c) = bindE (fst (m c)) (\<lambda>x. fst (f x (snd (m c))))"
  by (auto simp: bindS_def split: prod.splits sum.splits)

lemma fst_liftS [simp]: "fst (liftS r c) = r"
  by (simp add: liftS_def)

lemma snd_liftS [simp]: "snd (liftS r c) = c"
  by (simp add: liftS_def)

subsection \<open>Postconditions\<close>

text \<open>\<open>Q\<close> holds of the value and the state on success, \<open>E\<close> of the state on an error.\<close>

definition wpS :: "('c, 'e, 'a) sresult \<Rightarrow> ('a \<Rightarrow> 'c \<Rightarrow> bool) \<Rightarrow> ('c \<Rightarrow> bool) \<Rightarrow> 'c \<Rightarrow> bool" where
  "wpS m Q E c = (case m c of (Inl _, c') \<Rightarrow> E c' | (Inr x, c') \<Rightarrow> Q x c')"

lemma wpS_bindS [simp]: "wpS (bindS m f) Q E c \<longleftrightarrow> wpS m (\<lambda>x. wpS (f x) Q E) E c"
  by (auto simp: wpS_def bindS_def split: prod.splits sum.splits)

lemma wpS_liftS [simp]: "wpS (liftS r) Q E c \<longleftrightarrow> (case r of Inl _ \<Rightarrow> E c | Inr x \<Rightarrow> Q x c)"
  by (simp add: wpS_def liftS_def split: sum.splits)

lemma wpS_mono:
  "wpS m Q E c \<Longrightarrow> (\<And>x c'. m c = (Inr x, c') \<Longrightarrow> Q x c' \<Longrightarrow> Q' x c') \<Longrightarrow> (\<And>c'. E c' \<Longrightarrow> E' c') \<Longrightarrow> wpS m Q' E' c"
  by (auto simp: wpS_def split: prod.splits sum.splits)

lemma wpS_D: "wpS m Q E c \<Longrightarrow> m c = (Inr x, c') \<Longrightarrow> Q x c'"
  by (simp add: wpS_def)

lemma wpS_D_err: "wpS m Q E c \<Longrightarrow> m c = (Inl e, c') \<Longrightarrow> E c'"
  by (simp add: wpS_def)

subsection \<open>Simulation of successful runs\<close>

text \<open>
  \<open>okle r1 r2\<close>: where the first result is a value the second is the same value.
  \<open>simS R m1 m2\<close>: the same for computations on states related by \<open>R\<close>.
\<close>

definition okle :: "'e + 'a \<Rightarrow> 'e + 'a \<Rightarrow> bool" where
  "okle r1 r2 \<longleftrightarrow> (\<forall>x. r1 = Inr x \<longrightarrow> r2 = Inr x)"

definition simS :: "('c \<Rightarrow> 'd \<Rightarrow> bool) \<Rightarrow> ('c, 'e, 'a) sresult \<Rightarrow> ('d, 'e, 'a) sresult \<Rightarrow> bool" where
  "simS R m1 m2 \<longleftrightarrow>
     (\<forall>c d x c'. R c d \<longrightarrow> m1 c = (Inr x, c') \<longrightarrow> (\<exists>d'. m2 d = (Inr x, d') \<and> R c' d'))"

named_theorems sim_intros \<open>simulation rules\<close>

lemma okle_refl [simp, sim_intros]: "okle r r"
  by (simp add: okle_def)

lemma okle_Inl [simp, sim_intros]: "okle (Inl e) r"
  by (simp add: okle_def)

lemma okle_bindE [sim_intros]: "okle m m' \<Longrightarrow> (\<And>x. okle (f x) (f' x)) \<Longrightarrow> okle (bindE m f) (bindE m' f')"
  by (auto simp: okle_def)

lemma okle_guard [sim_intros]:
  "(b' \<Longrightarrow> b) \<Longrightarrow> (\<not> b \<Longrightarrow> okle y y') \<Longrightarrow> okle (if b then Inl e else y) (if b' then Inl e' else y')"
  by auto

lemma okle_if [sim_intros]:
  "(b \<Longrightarrow> okle x x') \<Longrightarrow> (\<not> b \<Longrightarrow> okle y y') \<Longrightarrow> okle (if b then x else y) (if b then x' else y')"
  by simp

lemma okle_let [sim_intros]: "(\<And>x. okle (f x) (g x)) \<Longrightarrow> okle (let x = v in f x) (let x = v in g x)"
  by (simp add: Let_def)

lemma okle_prod [sim_intros]: "(\<And>a b. okle (f a b) (g a b)) \<Longrightarrow> okle (case p of (a, b) \<Rightarrow> f a b) (case p of (a, b) \<Rightarrow> g a b)"
  by (cases p) simp

lemma okle_option [sim_intros]:
  "okle x x' \<Longrightarrow> (\<And>a. okle (f a) (f' a)) \<Longrightarrow>
   okle (case p of None \<Rightarrow> x | Some a \<Rightarrow> f a) (case p of None \<Rightarrow> x' | Some a \<Rightarrow> f' a)"
  by (cases p) simp_all

lemma simS_bindS [sim_intros]:
  "simS R m m' \<Longrightarrow> (\<And>x. simS R (f x) (f' x)) \<Longrightarrow> simS R (bindS m f) (bindS m' f')"
  unfolding simS_def bindS_eq_Inr_iff by blast

lemma simS_liftS [sim_intros]: "okle r r' \<Longrightarrow> simS R (liftS r) (liftS r')"
  by (auto simp: simS_def okle_def liftS_def)

lemma simS_guard [sim_intros]:
  "(b' \<Longrightarrow> b) \<Longrightarrow> (\<not> b \<Longrightarrow> simS R y y') \<Longrightarrow>
   simS R (if b then liftS (Inl e) else y) (if b' then liftS (Inl e') else y')"
  by (auto simp: simS_def liftS_def)

lemma simS_if [sim_intros]:
  "(b \<Longrightarrow> simS R x x') \<Longrightarrow> (\<not> b \<Longrightarrow> simS R y y') \<Longrightarrow> simS R (if b then x else y) (if b then x' else y')"
  by simp

lemma simS_let [sim_intros]: "(\<And>x. simS R (f x) (g x)) \<Longrightarrow> simS R (let x = v in f x) (let x = v in g x)"
  by (simp add: Let_def)

lemma simS_prod [sim_intros]:
  "(\<And>a b. simS R (f a b) (g a b)) \<Longrightarrow> simS R (case p of (a, b) \<Rightarrow> f a b) (case p of (a, b) \<Rightarrow> g a b)"
  by (cases p) simp

lemma simS_fail [sim_intros]: "simS R (liftS (Inl e)) m"
  by (simp add: simS_def liftS_def)

lemma simS_D: "simS R m1 m2 \<Longrightarrow> R c d \<Longrightarrow> m1 c = (Inr x, c') \<Longrightarrow> \<exists>d'. m2 d = (Inr x, d') \<and> R c' d'"
  by (simp add: simS_def)

section \<open>Integer arithmetic\<close>

definition u32_max :: nat where "u32_max = 2 ^ 32 - 1"
definition u64_max :: nat where "u64_max = 2 ^ 64 - 1"
definition i64_max :: int where "i64_max = 2 ^ 63 - 1"
definition i64_min :: int where "i64_min = - (2 ^ 63)"

text \<open>Saturating operations on unsigned machine integers read as naturals.\<close>

definition sat_add :: "nat \<Rightarrow> nat \<Rightarrow> nat \<Rightarrow> nat" where
  "sat_add m a b = min m (a + b)"

definition sat_mul :: "nat \<Rightarrow> nat \<Rightarrow> nat \<Rightarrow> nat" where
  "sat_mul m a b = min m (a * b)"

abbreviation sat_add32 :: "nat \<Rightarrow> nat \<Rightarrow> nat" where "sat_add32 \<equiv> sat_add u32_max"
abbreviation sat_mul32 :: "nat \<Rightarrow> nat \<Rightarrow> nat" where "sat_mul32 \<equiv> sat_mul u32_max"
abbreviation sat_add64 :: "nat \<Rightarrow> nat \<Rightarrow> nat" where "sat_add64 \<equiv> sat_add u64_max"
abbreviation sat_mul64 :: "nat \<Rightarrow> nat \<Rightarrow> nat" where "sat_mul64 \<equiv> sat_mul u64_max"

lemma sat_add_le: "sat_add m a b \<le> m"
  by (simp add: sat_add_def)

lemma sat_mul_le: "sat_mul m a b \<le> m"
  by (simp add: sat_mul_def)

lemma sat_add_exact: "a + b \<le> m \<Longrightarrow> sat_add m a b = a + b"
  by (simp add: sat_add_def)

lemma sat_mul_exact: "a * b \<le> m \<Longrightarrow> sat_mul m a b = a * b"
  by (simp add: sat_mul_def)

lemma sat_add_assoc: "sat_add m (sat_add m a b) c = sat_add m a (sat_add m b c)"
  by (simp add: sat_add_def)

lemma sat_add_mono: "a \<le> a' \<Longrightarrow> b \<le> b' \<Longrightarrow> sat_add m a b \<le> sat_add m a' b'"
  by (auto simp: sat_add_def)

text \<open>Checked operations: \<open>None\<close> where the machine operation would overflow.\<close>

definition checked_i64 :: "int \<Rightarrow> int option" where
  "checked_i64 v = (if i64_min \<le> v \<and> v \<le> i64_max then Some v else None)"

definition checked_add64 :: "u64 \<Rightarrow> u64 \<Rightarrow> u64 option" where
  "checked_add64 a b = (if unat a + unat b \<le> u64_max then Some (a + b) else None)"

lemma checked_add64_Some:
  "checked_add64 a b = Some c \<longleftrightarrow> unat a + unat b \<le> u64_max \<and> unat c = unat a + unat b"
proof -
  have "unat (a + b) = unat a + unat b" if "unat a + unat b \<le> u64_max"
    using that by (simp add: unat_word_ariths u64_max_def)
  then show ?thesis
    by (auto simp: checked_add64_def intro: word_unat_eq_iff [THEN iffD2])
qed

section \<open>Slices\<close>

text \<open>\<open>slice.get(i..j)\<close>: \<open>None\<close> when the range is not inside the slice.\<close>

definition get_range :: "'a list \<Rightarrow> nat \<Rightarrow> nat \<Rightarrow> 'a list option" where
  "get_range xs i j = (if i \<le> j \<and> j \<le> length xs then Some (take (j - i) (drop i xs)) else None)"

definition get_from :: "'a list \<Rightarrow> nat \<Rightarrow> 'a list option" where
  "get_from xs i = (if i \<le> length xs then Some (drop i xs) else None)"

definition get_at :: "'a list \<Rightarrow> nat \<Rightarrow> 'a option" where
  "get_at xs i = (if i < length xs then Some (xs ! i) else None)"

text \<open>The bytes \<open>xs[i..j]\<close> of a slice known to be long enough.\<close>

definition slice :: "'a list \<Rightarrow> nat \<Rightarrow> nat \<Rightarrow> 'a list" where
  "slice xs i j = take (j - i) (drop i xs)"

lemma length_slice [simp]: "length (slice xs i j) = min (j - i) (length xs - i)"
  by (simp add: slice_def)

lemma last_opt_iff: "(if xs = [] then None else Some (last xs)) = Some x \<longleftrightarrow> xs \<noteq> [] \<and> last xs = x"
  by simp

definition last_opt :: "'a list \<Rightarrow> 'a option" where
  "last_opt xs = (if xs = [] then None else Some (last xs))"

definition first_opt :: "'a list \<Rightarrow> 'a option" where
  "first_opt xs = (case xs of [] \<Rightarrow> None | x # _ \<Rightarrow> Some x)"

lemma last_opt_simps [simp]:
  "last_opt [] = None"
  "last_opt (xs @ [x]) = Some x"
  by (simp_all add: last_opt_def)

lemma first_opt_simps [simp]:
  "first_opt [] = None"
  "first_opt (x # xs) = Some x"
  by (simp_all add: first_opt_def)

section \<open>Little-endian encodings\<close>

text \<open>\<open>le_bytes n v\<close> are the \<open>n\<close> low bytes of \<open>v\<close>, least significant first.\<close>

fun le_bytes :: "nat \<Rightarrow> nat \<Rightarrow> bytes" where
  "le_bytes 0 v = []"
| "le_bytes (Suc n) v = word_of_nat v # le_bytes n (v div 256)"

fun le_nat :: "bytes \<Rightarrow> nat" where
  "le_nat [] = 0"
| "le_nat (b # bs) = unat b + 256 * le_nat bs"

lemma length_le_bytes [simp, len_simps]: "length (le_bytes n v) = n"
  by (induction n arbitrary: v) simp_all

lemma unat_byte_of_nat: "unat (word_of_nat v :: byte) = v mod 256"
  by (simp add: unat_of_nat)

lemma unat_byte_less: "unat (b :: byte) < 256"
  using unsigned_less [of b] by simp

lemma le_nat_le_bytes [le_simps]: "le_nat (le_bytes n v) = v mod 256 ^ n"
proof (induction n arbitrary: v)
  case (Suc n)
  have "v mod 256 ^ Suc n = v mod 256 + 256 * (v div 256 mod 256 ^ n)"
    by (simp add: mod_mult2_eq)
  with Suc show ?case by (simp add: unat_byte_of_nat)
qed simp

lemma le_nat_le_bytes_id [simp, le_simps]: "v < 256 ^ n \<Longrightarrow> le_nat (le_bytes n v) = v"
  by (simp add: le_nat_le_bytes)

lemma le_nat_less: "le_nat bs < 256 ^ length bs"
proof (induction bs)
  case (Cons b bs)
  have "unat b < 256" by (rule unat_byte_less)
  with Cons show ?case by simp
qed simp

lemma le_bytes_le_nat [simp, le_simps]: "le_bytes (length bs) (le_nat bs) = bs"
proof (induction bs)
  case (Cons b bs)
  have b: "unat b < 256" by (rule unat_byte_less)
  have "word_of_nat (unat b + 256 * le_nat bs) = b"
  proof (rule word_unat_eq_iff [THEN iffD2])
    show "unat (word_of_nat (unat b + 256 * le_nat bs) :: byte) = unat b"
      using b by (simp only: unat_byte_of_nat mod_mult_self2) simp
  qed
  moreover have "(unat b + 256 * le_nat bs) div 256 = le_nat bs"
    using b by simp
  ultimately show ?case
    using Cons by simp
qed simp

lemma le_nat_inj: "length bs = length cs \<Longrightarrow> le_nat bs = le_nat cs \<longleftrightarrow> bs = cs"
  by (metis le_bytes_le_nat)

lemma le_nat_append: "le_nat (bs @ cs) = le_nat bs + 256 ^ length bs * le_nat cs"
  by (induction bs) (simp_all add: algebra_simps)

lemma le_bytes_inj: "a < 256 ^ n \<Longrightarrow> b < 256 ^ n \<Longrightarrow> le_bytes n a = le_bytes n b \<longleftrightarrow> a = b"
  by (metis le_nat_le_bytes_id)

definition u32_le :: "u32 \<Rightarrow> bytes" where "u32_le w = le_bytes 4 (unat w)"
definition u64_le :: "u64 \<Rightarrow> bytes" where "u64_le w = le_bytes 8 (unat w)"
definition u32_of_le :: "bytes \<Rightarrow> u32" where "u32_of_le bs = word_of_nat (le_nat bs)"
definition u64_of_le :: "bytes \<Rightarrow> u64" where "u64_of_le bs = word_of_nat (le_nat bs)"

lemma length_u32_le [simp, len_simps]: "length (u32_le w) = 4"
  by (simp add: u32_le_def)

lemma length_u64_le [simp, len_simps]: "length (u64_le w) = 8"
  by (simp add: u64_le_def)

lemma u32_of_le_u32_le [simp, le_simps]: "u32_of_le (u32_le w) = w"
proof -
  have "unat w < 256 ^ 4" using unsigned_less [of w] by simp
  then show ?thesis by (simp add: u32_of_le_def u32_le_def)
qed

lemma u64_of_le_u64_le [simp, le_simps]: "u64_of_le (u64_le w) = w"
proof -
  have "unat w < 256 ^ 8" using unsigned_less [of w] by simp
  then show ?thesis by (simp add: u64_of_le_def u64_le_def)
qed

lemma u32_le_of_le [simp, le_simps]: "length bs = 4 \<Longrightarrow> u32_le (u32_of_le bs) = bs"
  using le_nat_less [of bs] le_bytes_le_nat [of bs] by (simp add: u32_of_le_def u32_le_def unat_of_nat)

lemma u64_le_of_le [simp, le_simps]: "length bs = 8 \<Longrightarrow> u64_le (u64_of_le bs) = bs"
  using le_nat_less [of bs] le_bytes_le_nat [of bs] by (simp add: u64_of_le_def u64_le_def unat_of_nat)

lemma u64_le_inj [simp]: "u64_le a = u64_le b \<longleftrightarrow> a = b"
  by (metis u64_of_le_u64_le)

lemma u32_le_inj [simp]: "u32_le a = u32_le b \<longleftrightarrow> a = b"
  by (metis u32_of_le_u32_le)

text \<open>
  The loops that read a little-endian number or it in byte by byte:
  \<open>value |= u64::from(byte) << (8 * index)\<close>.
\<close>

fun or_le64_from :: "nat \<Rightarrow> u64 \<Rightarrow> bytes \<Rightarrow> u64" where
  "or_le64_from i v [] = v"
| "or_le64_from i v (b # bs) = or_le64_from (Suc i) (v OR push_bit (8 * i) (ucast b)) bs"

definition or_le64 :: "bytes \<Rightarrow> u64" where
  "or_le64 bs = or_le64_from 0 0 bs"

lemma nat_or_push_bit:
  fixes a b :: nat
  assumes "a < 2 ^ k"
  shows "a OR push_bit k b = a + 2 ^ k * b"
proof -
  have "take_bit k a = a" using assms by (simp add: take_bit_nat_eq_self)
  then have "a AND push_bit k b = 0"
    by (metis (no_types) bit_eq_iff bit_and_iff bit_take_bit_iff bit_push_bit_iff bit_0_eq bot_apply linorder_not_less bot_bool_def)
  then have "a + push_bit k b = a OR push_bit k b" by (rule disjunctive_add_eq_or)
  then show ?thesis by (simp add: push_bit_eq_mult mult.commute)
qed

lemma unat_or_push:
  fixes v :: u64 and b :: byte
  assumes "unat v < 256 ^ i" "i < 8"
  shows "unat (v OR push_bit (8 * i) (ucast b)) = unat v + 256 ^ i * unat b"
proof -
  have pow: "(256 :: nat) ^ i = 2 ^ (8 * i)" by (simp add: power_mult)
  have "256 ^ i * unat b < 256 ^ Suc i"
    using unat_byte_less [of b] by simp
  also have "\<dots> \<le> (256 :: nat) ^ 8"
    using assms(2) by (intro power_increasing) auto
  finally have small: "256 ^ i * unat b < 2 ^ 64" by simp
  have "unat (ucast b :: u64) = unat b"
    using unat_byte_less [of b] by (simp add: unsigned_ucast_eq take_bit_nat_eq_self)
  then have "unat (push_bit (8 * i) (ucast b :: u64)) = take_bit 64 (push_bit (8 * i) (unat b))"
    by (simp only: unsigned_push_bit_eq) simp
  also have "\<dots> = push_bit (8 * i) (unat b)"
    using small by (intro take_bit_nat_eq_self) (simp add: push_bit_eq_mult pow mult.commute)
  finally have "unat (push_bit (8 * i) (ucast b :: u64)) = push_bit (8 * i) (unat b)" .
  then show ?thesis
    using assms(1) by (simp add: unsigned_or_eq nat_or_push_bit pow)
qed

lemma unat_or_le64_from:
  "unat v < 256 ^ i \<Longrightarrow> i + length bs \<le> 8 \<Longrightarrow> unat (or_le64_from i v bs) = unat v + 256 ^ i * le_nat bs"
proof (induction bs arbitrary: i v)
  case (Cons b bs)
  let ?w = "v OR push_bit (8 * i) (ucast b) :: u64"
  have w: "unat ?w = unat v + 256 ^ i * unat b"
    using Cons.prems by (intro unat_or_push) auto
  have "unat v + 256 ^ i * unat b < 256 ^ i + 256 ^ i * 255"
    using Cons.prems(1) unat_byte_less [of b] by (intro add_less_le_mono) auto
  then have "unat ?w < 256 ^ Suc i" using w by simp
  then have "unat (or_le64_from (Suc i) ?w bs) = unat ?w + 256 ^ Suc i * le_nat bs"
    using Cons.prems by (intro Cons.IH) auto
  then show ?case using w by (simp add: algebra_simps)
qed simp

lemma unat_or_le64 [le_simps]: "length bs \<le> 8 \<Longrightarrow> unat (or_le64 bs) = le_nat bs"
  using unat_or_le64_from [of 0 0 bs] by (simp add: or_le64_def)

end
