(* ===== verification/Varint.thy ===== *)
theory Varint
  imports Prelude
begin

text \<open>
  The Bitcoin compact-size integer (\<open>src/crates/primitives/src/varint.rs\<close>): one
  byte up to \<open>0xfc\<close>, or a prefix byte and 2, 4 or 8 little-endian bytes, where
  the decoder refuses an encoding longer than needed.  A \<open>u64\<close> value is a
  natural below \<open>2^64\<close>.  The two directions of the round trip are stated as an
  interface (a prefix-decodable encoding) that the transaction and block
  encodings are built on.
\<close>

datatype VarintError =
    Truncated byte nat nat
  | NonCanonical nat

definition read_array :: "nat \<Rightarrow> byte \<Rightarrow> bytes \<Rightarrow> nat \<Rightarrow> VarintError + bytes" where
  "read_array n prefix rest available =
     (if length rest < n then Inl (Truncated prefix (n + 1) available) else Inr (take n rest))"

definition varint_decode :: "bytes \<Rightarrow> VarintError + nat \<times> nat" where
  "varint_decode buf = (case buf of
     [] \<Rightarrow> Inl (Truncated 0 1 0)
   | prefix # rest \<Rightarrow>
       if prefix \<le> 0xfc then Inr (unat prefix, 1)
       else if prefix = 0xfd then
         bindE (read_array 2 prefix rest (length buf)) (\<lambda>bs.
         let value = le_nat bs in
         if value < 0xfd then Inl (NonCanonical value) else Inr (value, 3))
       else if prefix = 0xfe then
         bindE (read_array 4 prefix rest (length buf)) (\<lambda>bs.
         let value = le_nat bs in
         if value \<le> 0xffff then Inl (NonCanonical value) else Inr (value, 5))
       else
         bindE (read_array 8 prefix rest (length buf)) (\<lambda>bs.
         let value = le_nat bs in
         if value \<le> 0xffffffff then Inl (NonCanonical value) else Inr (value, 9)))"

definition encoded_len :: "nat \<Rightarrow> nat" where
  "encoded_len value =
     (if value \<le> 0xfc then 1
      else if value \<le> 0xffff then 3
      else if value \<le> 0xffffffff then 5
      else 9)"

text \<open>\<open>encode_into\<close>: the bytes written to the front of the buffer, whose number is the returned length.\<close>

definition encode_into :: "nat \<Rightarrow> bytes" where
  "encode_into value =
     (let payload = le_bytes 8 value in
      if value \<le> 0xfc then take 1 payload
      else if value \<le> 0xffff then 0xfd # take 2 payload
      else if value \<le> 0xffffffff then 0xfe # take 4 payload
      else 0xff # payload)"

definition varint_encode :: "nat \<Rightarrow> bytes" where
  "varint_encode value = encode_into value"

section \<open>Lemmas\<close>

lemma take_le_bytes: "m \<le> n \<Longrightarrow> take m (le_bytes n v) = le_bytes m v"
proof (induction m arbitrary: n v)
  case (Suc m)
  then show ?case by (cases n) simp_all
qed simp

lemma take_1_le_bytes: "take (Suc 0) (le_bytes 8 v) = [word_of_nat v]"
  using take_le_bytes [of 1 8 v] by simp

lemma le_nat_take:
  assumes "n \<le> length bs"
  shows "le_nat (take n bs) < 256 ^ n" "le_bytes n (le_nat (take n bs)) = take n bs"
  using le_nat_less [of "take n bs"] le_bytes_le_nat [of "take n bs"] assms
  by (simp_all add: min_absorb2 del: le_bytes_le_nat)

lemma length_varint_encode [simp, len_simps]: "length (varint_encode v) = encoded_len v"
  by (simp add: varint_encode_def encode_into_def encoded_len_def Let_def del: le_bytes.simps)

lemma encoded_len_pos [simp]: "0 < encoded_len v"
  by (simp add: encoded_len_def)

lemma encoded_len_mono: "a \<le> b \<Longrightarrow> encoded_len a \<le> encoded_len b"
  by (simp add: encoded_len_def)

lemma byte_le_252:
  "(b :: byte) \<le> 0xfc \<longleftrightarrow> unat b \<le> 0xfc"
  by (simp add: word_le_nat_alt)

lemma byte_above_252:
  assumes "\<not> (b :: byte) \<le> 0xfc"
  shows "b = 0xfd \<or> b = 0xfe \<or> b = 0xff"
proof -
  have "unat b = 0xfd \<or> unat b = 0xfe \<or> unat b = 0xff"
    using assms unat_byte_less [of b] by (auto simp: byte_le_252)
  then show ?thesis by (auto simp: word_unat_eq_iff)
qed

lemma varint_decode_encode [simp]:
  assumes "v < 2 ^ 64"
  shows "varint_decode (varint_encode v @ rest) = Inr (v, encoded_len v)"
proof -
  consider "v \<le> 0xfc" | "0xfc < v" "v \<le> 0xffff" | "0xffff < v" "v \<le> 0xffffffff" | "0xffffffff < v"
    by linarith
  then show ?thesis
  proof cases
    case 1
    then have "varint_encode v = [word_of_nat v]"
      by (simp add: varint_encode_def encode_into_def Let_def take_1_le_bytes)
    moreover have "unat (word_of_nat v :: byte) = v" using 1 by (simp add: unat_byte_of_nat)
    ultimately show ?thesis using 1 by (simp add: varint_decode_def encoded_len_def byte_le_252)
  next
    case 2
    then show ?thesis
      by (simp add: varint_encode_def encode_into_def Let_def take_le_bytes varint_decode_def
          read_array_def encoded_len_def del: le_bytes.simps)
  next
    case 3
    then show ?thesis
      by (simp add: varint_encode_def encode_into_def Let_def take_le_bytes varint_decode_def
          read_array_def encoded_len_def del: le_bytes.simps)
  next
    case 4
    then show ?thesis
      using assms
      by (simp add: varint_encode_def encode_into_def Let_def take_le_bytes varint_decode_def
          read_array_def encoded_len_def del: le_bytes.simps)
  qed
qed

lemma varint_decode_sound:
  assumes "varint_decode buf = Inr (v, n)"
  shows "v < 2 ^ 64 \<and> n = encoded_len v \<and> n \<le> length buf \<and> take n buf = varint_encode v"
proof -
  obtain p rest where buf: "buf = p # rest"
    using assms by (cases buf) (auto simp: varint_decode_def)
  show ?thesis
  proof (cases "p \<le> 0xfc")
    case True
    then have "v = unat p" "n = 1" using assms buf by (auto simp: varint_decode_def)
    moreover from True have "unat p \<le> 0xfc" by (simp add: byte_le_252)
    ultimately show ?thesis
      by (simp add: buf varint_encode_def encode_into_def encoded_len_def Let_def take_1_le_bytes)
  next
    case False
    then consider "p = 0xfd" | "p = 0xfe" | "p = 0xff" using byte_above_252 by blast
    then show ?thesis
    proof cases
      case 1
      then have "2 \<le> length rest" "v = le_nat (take 2 rest)" "0xfd \<le> v" "n = 3"
        using assms by (auto simp: buf varint_decode_def read_array_def Let_def split: if_splits)
      then show ?thesis
        using le_nat_take [of 2 rest] 1
        by (simp add: buf varint_encode_def encode_into_def encoded_len_def Let_def take_le_bytes
            del: le_bytes.simps)
    next
      case 2
      then have "4 \<le> length rest" "v = le_nat (take 4 rest)" "0xffff < v" "n = 5"
        using assms by (auto simp: buf varint_decode_def read_array_def Let_def split: if_splits)
      then show ?thesis
        using le_nat_take [of 4 rest] 2
        by (simp add: buf varint_encode_def encode_into_def encoded_len_def Let_def take_le_bytes
            del: le_bytes.simps)
    next
      case 3
      then have "8 \<le> length rest" "v = le_nat (take 8 rest)" "0xffffffff < v" "n = 9"
        using assms by (auto simp: buf varint_decode_def read_array_def Let_def split: if_splits)
      then show ?thesis
        using le_nat_take [of 8 rest] 3
        by (simp add: buf varint_encode_def encode_into_def encoded_len_def Let_def
            del: le_bytes.simps)
    qed
  qed
qed

end
