(* ===== verification/Script.thy ===== *)
theory Script
  imports Varint
begin

text \<open>
  Script bytes (\<open>src/crates/script/src/script.rs\<close>): the opcodes, the instruction
  iterator with its sticky failure flag, the recognisers of the standard output
  templates, bare multisig parsing, the dust threshold and the two encoders
  \<open>push_data\<close> and \<open>push_int\<close>.  The iterator is a state-passing \<open>instr_next\<close>;
  a \<open>for\<close> or \<open>all\<close> over it runs over \<open>instr_items\<close>, the items it yields.
\<close>

section \<open>Opcodes\<close>

abbreviation OP_0 :: byte where "OP_0 \<equiv> 0x00"
abbreviation OP_PUSHDATA1 :: byte where "OP_PUSHDATA1 \<equiv> 0x4c"
abbreviation OP_PUSHDATA2 :: byte where "OP_PUSHDATA2 \<equiv> 0x4d"
abbreviation OP_PUSHDATA4 :: byte where "OP_PUSHDATA4 \<equiv> 0x4e"
abbreviation OP_1NEGATE :: byte where "OP_1NEGATE \<equiv> 0x4f"
abbreviation OP_RESERVED :: byte where "OP_RESERVED \<equiv> 0x50"
abbreviation OP_PUSHNUM_1 :: byte where "OP_PUSHNUM_1 \<equiv> 0x51"
abbreviation OP_PUSHNUM_16 :: byte where "OP_PUSHNUM_16 \<equiv> 0x60"
abbreviation OP_NOP :: byte where "OP_NOP \<equiv> 0x61"
abbreviation OP_IF :: byte where "OP_IF \<equiv> 0x63"
abbreviation OP_NOTIF :: byte where "OP_NOTIF \<equiv> 0x64"
abbreviation OP_ELSE :: byte where "OP_ELSE \<equiv> 0x67"
abbreviation OP_ENDIF :: byte where "OP_ENDIF \<equiv> 0x68"
abbreviation OP_VERIFY :: byte where "OP_VERIFY \<equiv> 0x69"
abbreviation OP_RETURN :: byte where "OP_RETURN \<equiv> 0x6a"
abbreviation OP_TOALTSTACK :: byte where "OP_TOALTSTACK \<equiv> 0x6b"
abbreviation OP_FROMALTSTACK :: byte where "OP_FROMALTSTACK \<equiv> 0x6c"
abbreviation OP_2DROP :: byte where "OP_2DROP \<equiv> 0x6d"
abbreviation OP_2DUP :: byte where "OP_2DUP \<equiv> 0x6e"
abbreviation OP_3DUP :: byte where "OP_3DUP \<equiv> 0x6f"
abbreviation OP_2OVER :: byte where "OP_2OVER \<equiv> 0x70"
abbreviation OP_2ROT :: byte where "OP_2ROT \<equiv> 0x71"
abbreviation OP_2SWAP :: byte where "OP_2SWAP \<equiv> 0x72"
abbreviation OP_IFDUP :: byte where "OP_IFDUP \<equiv> 0x73"
abbreviation OP_DEPTH :: byte where "OP_DEPTH \<equiv> 0x74"
abbreviation OP_DROP :: byte where "OP_DROP \<equiv> 0x75"
abbreviation OP_DUP :: byte where "OP_DUP \<equiv> 0x76"
abbreviation OP_NIP :: byte where "OP_NIP \<equiv> 0x77"
abbreviation OP_OVER :: byte where "OP_OVER \<equiv> 0x78"
abbreviation OP_PICK :: byte where "OP_PICK \<equiv> 0x79"
abbreviation OP_ROLL :: byte where "OP_ROLL \<equiv> 0x7a"
abbreviation OP_ROT :: byte where "OP_ROT \<equiv> 0x7b"
abbreviation OP_SWAP :: byte where "OP_SWAP \<equiv> 0x7c"
abbreviation OP_TUCK :: byte where "OP_TUCK \<equiv> 0x7d"
abbreviation OP_SIZE :: byte where "OP_SIZE \<equiv> 0x82"
abbreviation OP_EQUAL :: byte where "OP_EQUAL \<equiv> 0x87"
abbreviation OP_EQUALVERIFY :: byte where "OP_EQUALVERIFY \<equiv> 0x88"
abbreviation OP_1ADD :: byte where "OP_1ADD \<equiv> 0x8b"
abbreviation OP_1SUB :: byte where "OP_1SUB \<equiv> 0x8c"
abbreviation OP_NEGATE :: byte where "OP_NEGATE \<equiv> 0x8f"
abbreviation OP_ABS :: byte where "OP_ABS \<equiv> 0x90"
abbreviation OP_NOT :: byte where "OP_NOT \<equiv> 0x91"
abbreviation OP_0NOTEQUAL :: byte where "OP_0NOTEQUAL \<equiv> 0x92"
abbreviation OP_ADD :: byte where "OP_ADD \<equiv> 0x93"
abbreviation OP_SUB :: byte where "OP_SUB \<equiv> 0x94"
abbreviation OP_BOOLAND :: byte where "OP_BOOLAND \<equiv> 0x9a"
abbreviation OP_BOOLOR :: byte where "OP_BOOLOR \<equiv> 0x9b"
abbreviation OP_NUMEQUAL :: byte where "OP_NUMEQUAL \<equiv> 0x9c"
abbreviation OP_NUMEQUALVERIFY :: byte where "OP_NUMEQUALVERIFY \<equiv> 0x9d"
abbreviation OP_NUMNOTEQUAL :: byte where "OP_NUMNOTEQUAL \<equiv> 0x9e"
abbreviation OP_LESSTHAN :: byte where "OP_LESSTHAN \<equiv> 0x9f"
abbreviation OP_GREATERTHAN :: byte where "OP_GREATERTHAN \<equiv> 0xa0"
abbreviation OP_LESSTHANOREQUAL :: byte where "OP_LESSTHANOREQUAL \<equiv> 0xa1"
abbreviation OP_GREATERTHANOREQUAL :: byte where "OP_GREATERTHANOREQUAL \<equiv> 0xa2"
abbreviation OP_MIN :: byte where "OP_MIN \<equiv> 0xa3"
abbreviation OP_MAX :: byte where "OP_MAX \<equiv> 0xa4"
abbreviation OP_WITHIN :: byte where "OP_WITHIN \<equiv> 0xa5"
abbreviation OP_RIPEMD160 :: byte where "OP_RIPEMD160 \<equiv> 0xa6"
abbreviation OP_SHA1 :: byte where "OP_SHA1 \<equiv> 0xa7"
abbreviation OP_SHA256 :: byte where "OP_SHA256 \<equiv> 0xa8"
abbreviation OP_HASH160 :: byte where "OP_HASH160 \<equiv> 0xa9"
abbreviation OP_HASH256 :: byte where "OP_HASH256 \<equiv> 0xaa"
abbreviation OP_CODESEPARATOR :: byte where "OP_CODESEPARATOR \<equiv> 0xab"
abbreviation OP_CHECKSIG :: byte where "OP_CHECKSIG \<equiv> 0xac"
abbreviation OP_CHECKSIGVERIFY :: byte where "OP_CHECKSIGVERIFY \<equiv> 0xad"
abbreviation OP_CHECKMULTISIG :: byte where "OP_CHECKMULTISIG \<equiv> 0xae"
abbreviation OP_CHECKMULTISIGVERIFY :: byte where "OP_CHECKMULTISIGVERIFY \<equiv> 0xaf"
abbreviation OP_NOP1 :: byte where "OP_NOP1 \<equiv> 0xb0"
abbreviation OP_CHECKLOCKTIMEVERIFY :: byte where "OP_CHECKLOCKTIMEVERIFY \<equiv> 0xb1"
abbreviation OP_CHECKSEQUENCEVERIFY :: byte where "OP_CHECKSEQUENCEVERIFY \<equiv> 0xb2"
abbreviation OP_NOP4 :: byte where "OP_NOP4 \<equiv> 0xb3"
abbreviation OP_NOP10 :: byte where "OP_NOP10 \<equiv> 0xb9"
abbreviation OP_CHECKSIGADD :: byte where "OP_CHECKSIGADD \<equiv> 0xba"

definition decode_pushnum :: "byte \<Rightarrow> byte option" where
  "decode_pushnum opcode =
     (if OP_PUSHNUM_1 \<le> opcode \<and> opcode \<le> OP_PUSHNUM_16 then Some (opcode - OP_PUSHNUM_1 + 1) else None)"

section \<open>The instruction iterator\<close>

datatype Instruction = Op byte | PushBytes bytes

datatype EarlyEndOfScript = EarlyEndOfScript

record Instructions =
  remaining :: bytes
  failed :: bool

definition instructions :: "bytes \<Rightarrow> Instructions" where
  "instructions script = \<lparr> remaining = script, failed = False \<rparr>"

definition take_slice :: "Instructions \<Rightarrow> nat \<Rightarrow> bytes \<Rightarrow> (EarlyEndOfScript + bytes) \<times> Instructions" where
  "take_slice it len rest = (case get_range rest 0 len of
     Some data \<Rightarrow> (Inr data, it\<lparr>remaining := drop len rest\<rparr>)
   | None \<Rightarrow> (Inl EarlyEndOfScript, it\<lparr>failed := True\<rparr>))"

definition read_len_le :: "Instructions \<Rightarrow> nat \<Rightarrow> nat \<times> Instructions" where
  "read_len_le it len_bytes =
     (if length (remaining it) < 1 + len_bytes then (u64_max, it\<lparr>failed := True\<rparr>)
      else (unat (or_le64 (slice (remaining it) 1 (1 + len_bytes))), it))"

definition take_len_slice ::
    "Instructions \<Rightarrow> nat \<Rightarrow> nat \<Rightarrow> bytes \<Rightarrow> (EarlyEndOfScript + bytes) \<times> Instructions" where
  "take_len_slice it len start rest = (case get_from rest start of
     Some payload \<Rightarrow> take_slice it len payload
   | None \<Rightarrow> (Inl EarlyEndOfScript, it\<lparr>failed := True\<rparr>))"

definition map_push :: "EarlyEndOfScript + bytes \<Rightarrow> EarlyEndOfScript + Instruction" where
  "map_push r = bindE r (\<lambda>d. Inr (PushBytes d))"

definition instr_next :: "Instructions \<Rightarrow> (EarlyEndOfScript + Instruction) option \<times> Instructions" where
  "instr_next it =
     (if failed it then (None, it)
      else case remaining it of
        [] \<Rightarrow> (None, it)
      | opcode # rest \<Rightarrow>
          if 0x01 \<le> opcode \<and> opcode \<le> 0x4b then
            (case take_slice it (unat opcode) rest of (r, it') \<Rightarrow> (Some (map_push r), it'))
          else if opcode = OP_PUSHDATA1 then
            (case read_len_le it 1 of (len, it1) \<Rightarrow>
             case take_len_slice it1 len 1 rest of (r, it') \<Rightarrow> (Some (map_push r), it'))
          else if opcode = OP_PUSHDATA2 then
            (case read_len_le it 2 of (len, it1) \<Rightarrow>
             case take_len_slice it1 len 2 rest of (r, it') \<Rightarrow> (Some (map_push r), it'))
          else if opcode = OP_PUSHDATA4 then
            (case read_len_le it 4 of (len, it1) \<Rightarrow>
             case take_len_slice it1 len 4 rest of (r, it') \<Rightarrow> (Some (map_push r), it'))
          else if opcode = OP_0 then (Some (Inr (PushBytes [])), it\<lparr>remaining := rest\<rparr>)
          else (Some (Inr (Op opcode)), it\<lparr>remaining := rest\<rparr>))"

text \<open>What is left of the iterator: it shrinks with every item, and a failed one yields no more.\<close>

definition instr_left :: "Instructions \<Rightarrow> nat" where
  "instr_left it = (if failed it then 0 else Suc (length (remaining it)))"

lemma take_slice_left:
  "take_slice it len rest = (r, it') \<Longrightarrow> \<not> failed it \<Longrightarrow> length rest < length (remaining it) \<Longrightarrow> instr_left it' < instr_left it"
  by (auto simp: take_slice_def get_range_def instr_left_def split: if_splits)

lemma take_len_slice_left:
  assumes "read_len_le it n = (len, it1)" "take_len_slice it1 len n rest = (r, it')"
    and "\<not> failed it" "length rest < length (remaining it)"
  shows "instr_left it' < instr_left it"
proof (cases "failed it1")
  case True
  then have "instr_left it' = 0"
    using assms(2)
    by (auto simp: take_len_slice_def get_from_def instr_left_def take_slice_def get_range_def split: if_splits)
  then show ?thesis using assms(3) by (simp add: instr_left_def)
next
  case False
  then have "it1 = it" using assms(1) by (auto simp: read_len_le_def split: if_splits)
  then show ?thesis
    using assms(2-4) take_slice_left [of it len "drop n rest" r it']
    by (auto simp: take_len_slice_def get_from_def instr_left_def split: if_splits)
qed

lemma instr_next_left: "instr_next it = (Some x, it') \<Longrightarrow> instr_left it' < instr_left it"
  by (auto simp: instr_next_def split: if_splits list.splits prod.splits
      dest: take_slice_left take_len_slice_left)
    (auto simp: instr_left_def)

text \<open>All items the iterator yields, in order.\<close>

function instr_items :: "Instructions \<Rightarrow> (EarlyEndOfScript + Instruction) list" where
  "instr_items it = (case instr_next it of
     (None, _) \<Rightarrow> []
   | (Some x, it') \<Rightarrow> x # instr_items it')"
  by pat_completeness auto

termination
  by (relation "measure instr_left") (auto dest!: sym [of "(_, _)"] instr_next_left)

declare instr_items.simps [simp del]

abbreviation MAX_SCRIPT_ELEMENT_SIZE :: nat where "MAX_SCRIPT_ELEMENT_SIZE \<equiv> 520"

definition has_valid_ops :: "bytes \<Rightarrow> bool" where
  "has_valid_ops script = list_all (\<lambda>instruction. case instruction of
     Inr (Op op) \<Rightarrow> op \<le> OP_NOP10
   | Inr (PushBytes data) \<Rightarrow> length data \<le> MAX_SCRIPT_ELEMENT_SIZE
   | Inl _ \<Rightarrow> False) (instr_items (instructions script))"

definition is_push_only :: "bytes \<Rightarrow> bool" where
  "is_push_only script = list_all (\<lambda>instruction. case instruction of
     Inr (PushBytes _) \<Rightarrow> True
   | Inr (Op op) \<Rightarrow> op \<le> OP_PUSHNUM_16
   | Inl _ \<Rightarrow> False) (instr_items (instructions script))"

section \<open>Output templates\<close>

definition is_op_return :: "bytes \<Rightarrow> bool" where
  "is_op_return script \<longleftrightarrow> first_opt script = Some OP_RETURN"

definition is_p2pkh :: "bytes \<Rightarrow> bool" where
  "is_p2pkh script \<longleftrightarrow> length script = 25
     \<and> script ! 0 = OP_DUP
     \<and> script ! 1 = OP_HASH160
     \<and> script ! 2 = 0x14
     \<and> script ! 23 = OP_EQUALVERIFY
     \<and> script ! 24 = OP_CHECKSIG"

definition is_p2sh :: "bytes \<Rightarrow> bool" where
  "is_p2sh script \<longleftrightarrow> length script = 23
     \<and> script ! 0 = OP_HASH160
     \<and> script ! 1 = 0x14
     \<and> script ! 22 = OP_EQUAL"

definition p2pk_pubkey_bytes :: "bytes \<Rightarrow> bytes option" where
  "p2pk_pubkey_bytes script = Option.bind
     (if length script = 67 \<and> script ! 0 = 0x41 \<and> script ! 66 = OP_CHECKSIG then Some (slice script 1 66)
      else if length script = 35 \<and> script ! 0 = 0x21 \<and> script ! 34 = OP_CHECKSIG then Some (slice script 1 34)
      else None)
     (\<lambda>key.
        if length key = 33 \<and> (key ! 0 = 0x02 \<or> key ! 0 = 0x03) then Some key
        else if length key = 65 \<and> (key ! 0 = 0x04 \<or> key ! 0 = 0x06 \<or> key ! 0 = 0x07) then Some key
        else None)"

definition is_p2pk :: "bytes \<Rightarrow> bool" where
  "is_p2pk script \<longleftrightarrow> p2pk_pubkey_bytes script \<noteq> None"

definition is_p2wpkh :: "bytes \<Rightarrow> bool" where
  "is_p2wpkh script \<longleftrightarrow> length script = 22 \<and> script ! 0 = OP_0 \<and> script ! 1 = 0x14"

definition is_p2wsh :: "bytes \<Rightarrow> bool" where
  "is_p2wsh script \<longleftrightarrow> length script = 34 \<and> script ! 0 = OP_0 \<and> script ! 1 = 0x20"

definition is_p2tr :: "bytes \<Rightarrow> bool" where
  "is_p2tr script \<longleftrightarrow> length script = 34 \<and> script ! 0 = OP_PUSHNUM_1 \<and> script ! 1 = 0x20"

definition is_p2a :: "bytes \<Rightarrow> bool" where
  "is_p2a script \<longleftrightarrow> script = [OP_PUSHNUM_1, 0x02, 0x4e, 0x73]"

definition witness_program :: "bytes \<Rightarrow> (byte \<times> bytes) option" where
  "witness_program script =
     (if length script < 4 \<or> length script > 42 then None
      else let version_byte = script ! 0; program_len = unat (script ! 1) in
        Option.bind (if version_byte = OP_0 then Some 0 else decode_pushnum version_byte) (\<lambda>version.
        if \<not> (2 \<le> program_len \<and> program_len \<le> 40) \<or> length script - 2 \<noteq> program_len then None
        else Some (version, drop 2 script)))"

definition is_witness_program :: "bytes \<Rightarrow> bool" where
  "is_witness_program script \<longleftrightarrow> witness_program script \<noteq> None"

section \<open>Bare multisig\<close>

text \<open>
  The key loop of \<open>is_multisig\<close>: \<open>None\<close> is its \<open>return false\<close>; otherwise the
  number of pushes (a saturating \<open>u8\<close>) and the iterator where the loop stops.
\<close>

function is_multisig_loop :: "Instructions \<Rightarrow> nat \<Rightarrow> (nat \<times> Instructions) option" where
  "is_multisig_loop it num_pubkeys = (case instr_next it of
     (Some (Inr (PushBytes _)), it') \<Rightarrow> is_multisig_loop it' (sat_add 255 num_pubkeys 1)
   | (Some (Inr (Op op)), it') \<Rightarrow>
       (case decode_pushnum op of
          Some pushnum \<Rightarrow> if unat pushnum = num_pubkeys then Some (num_pubkeys, it') else None
        | None \<Rightarrow> None)
   | (_, it') \<Rightarrow> Some (num_pubkeys, it'))"
  by pat_completeness auto

termination
  by (relation "measure (instr_left \<circ> fst)") (auto dest!: sym [of "(_, _)"] instr_next_left)

declare is_multisig_loop.simps [simp del]

definition is_multisig :: "bytes \<Rightarrow> bool" where
  "is_multisig script = (case instr_next (instructions script) of
     (Some (Inr (Op op)), it) \<Rightarrow>
       (case decode_pushnum op of
          None \<Rightarrow> False
        | Some required_sigs \<Rightarrow>
            (case is_multisig_loop it 0 of
               None \<Rightarrow> False
             | Some (num_pubkeys, it') \<Rightarrow>
                 if unat required_sigs > num_pubkeys then False
                 else (case instr_next it' of
                     (Some (Inr (Op op')), it'') \<Rightarrow>
                       if op' = OP_CHECKMULTISIG then fst (instr_next it'') = None else False
                   | _ \<Rightarrow> False)))
   | _ \<Rightarrow> False)"

abbreviation MAX_BARE_MULTISIG_PUBKEYS :: int where "MAX_BARE_MULTISIG_PUBKEYS \<equiv> 20"

definition next_op :: "Instructions \<Rightarrow> bytes \<Rightarrow> nat \<Rightarrow> ((byte \<times> bytes) \<times> Instructions \<times> nat) option" where
  "next_op it script pos = (case instr_next it of
     (Some (Inr (PushBytes data)), it') \<Rightarrow>
       Some ((script ! pos, data), it', length script - length (remaining it'))
   | (Some (Inr (Op op)), it') \<Rightarrow> Some ((op, []), it', length script - length (remaining it'))
   | _ \<Rightarrow> None)"

definition minimal_push :: "bytes \<Rightarrow> byte \<Rightarrow> bool" where
  "minimal_push data opcode =
     (if length data = 0 then opcode = OP_0
      else if length data = 1 \<and> (1 \<le> data ! 0 \<and> data ! 0 \<le> 16 \<or> data ! 0 = 0x81) then False
      else if length data \<le> 75 then unat opcode = length data
      else if length data \<le> 255 then opcode = OP_PUSHDATA1
      else if length data \<le> 65535 then opcode = OP_PUSHDATA2
      else True)"

definition trailing_zeros8 :: "byte \<Rightarrow> nat" where
  "trailing_zeros8 b = length (takeWhile (\<lambda>i. \<not> bit b i) [0..<8])"

text \<open>The magnitude loop: the sign bit of the last byte is masked out, the rest is little-endian.\<close>

definition minimal_script_num :: "bytes \<Rightarrow> int option" where
  "minimal_script_num data =
     (if data = [] then Some 0
      else if length data > 4 then None
      else if trailing_zeros8 (last data) \<ge> 7
          \<and> (length data = 1 \<or> data ! (length data - 2) AND 0x80 = 0) then None
      else let value = int (unat (or_le64 (butlast data @ [last data AND 0x7f]))) in
        Some (if last data AND 0x80 \<noteq> 0 then - value else value))"

definition script_count :: "byte \<Rightarrow> bytes \<Rightarrow> int \<Rightarrow> int \<Rightarrow> nat option" where
  "script_count opcode data min_count max_count = Option.bind
     (case decode_pushnum opcode of
        Some pushnum \<Rightarrow> Some (int (unat pushnum))
      | None \<Rightarrow>
          if opcode \<le> OP_PUSHDATA4 then
            (if \<not> minimal_push data opcode then None else minimal_script_num data)
          else None)
     (\<lambda>count. if count < min_count \<or> count > max_count then None
              else if 0 \<le> count \<and> count \<le> 255 then Some (nat count) else None)"

definition pubkey_valid_size :: "bytes \<Rightarrow> bool" where
  "pubkey_valid_size data =
     (if length data = 33 then data ! 0 = 0x02 \<or> data ! 0 = 0x03
      else if length data = 65 then data ! 0 = 0x04 \<or> data ! 0 = 0x06 \<or> data ! 0 = 0x07
      else False)"

lemma next_op_left: "next_op it script pos = Some (od, it', pos') \<Longrightarrow> instr_left it' < instr_left it"
  by (auto simp: next_op_def split: prod.splits option.splits sum.splits Instruction.splits
      intro: instr_next_left)

text \<open>The key loop of \<open>multisig_key_count\<close>: the keys counted and the first operation that is not a key.\<close>

function multisig_key_loop ::
    "bytes \<Rightarrow> Instructions \<Rightarrow> nat \<Rightarrow> nat \<Rightarrow> (nat \<times> byte \<times> bytes \<times> Instructions) option" where
  "multisig_key_loop script it pos keys = (case next_op it script pos of
     None \<Rightarrow> None
   | Some ((op, data), it', pos') \<Rightarrow>
       if \<not> pubkey_valid_size data then Some (keys, op, data, it')
       else if keys = u64_max then None
       else multisig_key_loop script it' pos' (keys + 1))"
  by pat_completeness auto

termination
  by (relation "measure (\<lambda>(_, it, _, _). instr_left it)") (auto simp: next_op_left)

declare multisig_key_loop.simps [simp del]

definition multisig_key_count :: "bytes \<Rightarrow> nat option" where
  "multisig_key_count script =
     Option.bind (last_opt script) (\<lambda>last_op.
     if last_op \<noteq> OP_CHECKMULTISIG then None else
     Option.bind (next_op (instructions script) script 0) (\<lambda>((op, data), it, pos).
     Option.bind (script_count op data 1 MAX_BARE_MULTISIG_PUBKEYS) (\<lambda>required.
     Option.bind (multisig_key_loop script it pos 0) (\<lambda>(keys, op, data, it).
     Option.bind (script_count op data (int required) MAX_BARE_MULTISIG_PUBKEYS) (\<lambda>declared.
     if declared \<noteq> keys then None
     else (case instr_next it of
         (Some (Inr (Op op')), it') \<Rightarrow>
           if op' = OP_CHECKMULTISIG \<and> remaining it' = [] then Some declared else None
       | _ \<Rightarrow> None))))))"

section \<open>Dust\<close>

definition minimal_non_dust :: "bytes \<Rightarrow> nat \<Rightarrow> nat" where
  "minimal_non_dust script dust_relay_fee_sat_per_kvb =
     (if length script > 10000 then 0
      else let script_size = sat_add64 (encoded_len (length script)) (length script);
               size = (if is_op_return script then 0
                       else if is_witness_program script then 32 + 4 + 1 + (107 div 4) + 4 + 8 + script_size
                       else 32 + 4 + 1 + 107 + 4 + 8 + script_size);
               product = sat_mul64 dust_relay_fee_sat_per_kvb size
           in sat_add64 product 999 div 1000)"

section \<open>Encoders\<close>

text \<open>Data of 4 GiB or more, where the code is \<open>unreachable!\<close>, is outside what is shown of \<open>push_data\<close>.\<close>

definition push_data :: "bytes \<Rightarrow> bytes" where
  "push_data data =
     (let len = length data in
      (if len < 76 then [word_of_nat len]
       else if len \<le> 255 then [OP_PUSHDATA1, word_of_nat len]
       else if len \<le> 65535 then OP_PUSHDATA2 # le_bytes 2 len
       else OP_PUSHDATA4 # le_bytes 4 len) @ data)"

text \<open>The magnitude loop of \<open>push_int\<close> and of the script-number serializer: low bytes until zero.\<close>

fun magnitude_bytes :: "nat \<Rightarrow> bytes" where
  "magnitude_bytes m = (if m = 0 then [] else word_of_nat m # magnitude_bytes (m div 256))"

declare magnitude_bytes.simps [simp del]

definition push_int :: "int \<Rightarrow> bytes" where
  "push_int value =
     (if value = 0 then [OP_0]
      else if value = -1 then [OP_1NEGATE]
      else if 1 \<le> value \<and> value \<le> 16 then [OP_PUSHNUM_1 + (word_of_nat (nat value) - 1)]
      else let negative = value < 0; bs = magnitude_bytes (nat \<bar>value\<bar>) in
        push_data (case last_opt bs of
            Some lst \<Rightarrow>
              if lst AND 0x80 \<noteq> 0 then bs @ [if negative then 0x80 else 0x00]
              else if negative then butlast bs @ [lst OR 0x80]
              else bs
          | None \<Rightarrow> bs))"

section \<open>The iterator against a reference parser\<close>

text \<open>
  The instruction at the head of a byte string and the number of bytes it
  takes; \<open>None\<close> when a push runs past the end.  One equation describes the
  iterator, its partial moves and its failure flag in terms of it.
\<close>

definition parse_push :: "nat \<Rightarrow> bytes \<Rightarrow> (Instruction \<times> nat) option" where
  "parse_push n bs =
     (let len = le_nat (take n bs) in
      if n + len \<le> length bs \<and> n \<le> length bs then Some (PushBytes (slice bs n (n + len)), 1 + n + len) else None)"

definition parse_instr :: "byte \<Rightarrow> bytes \<Rightarrow> (Instruction \<times> nat) option" where
  "parse_instr b bs =
     (if 0x01 \<le> b \<and> b \<le> 0x4b then
        (if unat b \<le> length bs then Some (PushBytes (take (unat b) bs), 1 + unat b) else None)
      else if b = OP_PUSHDATA1 then parse_push 1 bs
      else if b = OP_PUSHDATA2 then parse_push 2 bs
      else if b = OP_PUSHDATA4 then parse_push 4 bs
      else if b = OP_0 then Some (PushBytes [], 1)
      else Some (Op b, 1))"

lemma read_take_parse:
  assumes "n \<le> 8" "\<not> failed it" "remaining it = b # bs"
  shows "(case read_len_le it n of (len, it1) \<Rightarrow>
          case take_len_slice it1 len n bs of (r, it') \<Rightarrow> (Some (map_push r), it')) =
         (case parse_push n bs of
            Some (i, k) \<Rightarrow> (Some (Inr i), it\<lparr>remaining := drop k (b # bs)\<rparr>)
          | None \<Rightarrow> (Some (Inl EarlyEndOfScript), it\<lparr>failed := True\<rparr>))"
proof (cases "n \<le> length bs")
  case True
  then have "slice (remaining it) 1 (1 + n) = take n bs"
    using assms(3) by (simp add: slice_def)
  moreover have "unat (or_le64 (take n bs)) = le_nat (take n bs)"
    using assms(1) by (intro unat_or_le64) simp
  ultimately have "read_len_le it n = (le_nat (take n bs), it)"
    using True assms(3) by (simp add: read_len_le_def)
  then show ?thesis
    using True assms(2,3)
    by (auto simp: take_len_slice_def get_from_def take_slice_def get_range_def parse_push_def Let_def
        map_push_def slice_def add.commute)
next
  case False
  then show ?thesis
    using assms(2,3)
    by (simp add: read_len_le_def take_len_slice_def get_from_def parse_push_def map_push_def)
qed

lemma instr_next_parse:
  assumes "\<not> failed it" "remaining it = b # bs"
  shows "instr_next it = (case parse_instr b bs of
           Some (i, k) \<Rightarrow> (Some (Inr i), it\<lparr>remaining := drop k (b # bs)\<rparr>)
         | None \<Rightarrow> (Some (Inl EarlyEndOfScript), it\<lparr>failed := True\<rparr>))"
  using assms read_take_parse [of 1 it b bs] read_take_parse [of 2 it b bs] read_take_parse [of 4 it b bs]
  by (simp add: instr_next_def parse_instr_def take_slice_def get_range_def map_push_def)

lemma instr_next_end [simp]:
  "failed it \<Longrightarrow> instr_next it = (None, it)"
  "remaining it = [] \<Longrightarrow> instr_next it = (None, it)"
  by (simp_all add: instr_next_def)

lemma parse_push_bound: "parse_push n bs = Some (i, k) \<Longrightarrow> 0 < k \<and> k \<le> Suc (length bs)"
  by (auto simp: parse_push_def Let_def split: if_splits)

lemma parse_instr_bound: "parse_instr b bs = Some (i, k) \<Longrightarrow> 0 < k \<and> k \<le> Suc (length bs)"
  by (auto simp: parse_instr_def dest: parse_push_bound split: if_splits)

lemma parse_push_local:
  assumes "parse_push n bs = Some (i, k)" "take (k - 1) cs = take (k - 1) bs" "k \<le> Suc (length cs)"
  shows "parse_push n cs = Some (i, k)"
proof -
  define len where "len = le_nat (take n bs)"
  from assms(1) have b: "n + len \<le> length bs" "i = PushBytes (slice bs n (n + len))" "k = 1 + n + len"
    by (auto simp: parse_push_def Let_def len_def split: if_splits)
  then have pre: "take (n + len) cs = take (n + len) bs" using assms(2) by simp
  then have "take n cs = take n bs" by (metis le_add1 min.absorb1 take_take)
  then have "le_nat (take n cs) = len" by (simp add: len_def)
  moreover have "slice cs n (n + len) = slice bs n (n + len)"
    using pre by (simp add: slice_def take_drop add.commute)
  ultimately show ?thesis using b assms(3) by (simp add: parse_push_def Let_def)
qed

lemma parse_instr_local:
  assumes "parse_instr b bs = Some (i, k)" "take (k - 1) cs = take (k - 1) bs" "k \<le> Suc (length cs)"
  shows "parse_instr b cs = Some (i, k)"
  using assms by (auto simp: parse_instr_def intro: parse_push_local split: if_splits)

lemma instr_next_Inr:
  assumes "instr_next it = (Some (Inr i), it')"
  obtains b bs k where "\<not> failed it" "remaining it = b # bs" "parse_instr b bs = Some (i, k)"
    "0 < k" "k \<le> length (remaining it)" "it' = it\<lparr>remaining := drop k (remaining it)\<rparr>"
proof -
  have nf: "\<not> failed it" using assms by (auto simp: instr_next_def)
  obtain b bs where r: "remaining it = b # bs"
    using assms nf by (cases "remaining it") (auto simp: instr_next_def)
  obtain k where k: "parse_instr b bs = Some (i, k)" "it' = it\<lparr>remaining := drop k (remaining it)\<rparr>"
    using assms by (auto simp: instr_next_parse [OF nf r] r split: option.splits)
  show thesis
    using that [OF nf r k(1) _ _ k(2)] parse_instr_bound [OF k(1)] by (simp add: r)
qed

lemma instr_next_Inl:
  assumes "instr_next it = (Some (Inl e), it')"
  shows "\<not> failed it \<and> remaining it \<noteq> [] \<and> it' = it\<lparr>failed := True\<rparr>"
proof -
  have nf: "\<not> failed it" using assms by (auto simp: instr_next_def)
  obtain b bs where r: "remaining it = b # bs"
    using assms nf by (cases "remaining it") (auto simp: instr_next_def)
  show ?thesis
    using assms by (auto simp: instr_next_parse [OF nf r] r nf split: option.splits)
qed

lemma instr_next_None: "instr_next it = (None, it') \<longleftrightarrow> it' = it \<and> (failed it \<or> remaining it = [])"
proof (cases "failed it \<or> remaining it = []")
  case False
  then obtain b bs where "\<not> failed it" "remaining it = b # bs" by (cases "remaining it") auto
  then show ?thesis by (auto simp: instr_next_parse split: option.splits)
qed auto

section \<open>Pushes\<close>

text \<open>The opcode byte and length prefix that \<open>push_data\<close> writes.\<close>

lemma byte_range_of_nat:
  "0 < n \<Longrightarrow> n < 76 \<Longrightarrow> 0x01 \<le> (word_of_nat n :: byte) \<and> (word_of_nat n :: byte) \<le> 0x4b"
  by (simp add: word_le_nat_alt unat_byte_of_nat)

lemma length_push_data:
  "length (push_data d) = length d +
     (if length d < 76 then 1 else if length d \<le> 255 then 2 else if length d \<le> 65535 then 3 else 5)"
  by (simp add: push_data_def Let_def)

lemma push_data_not_Nil [simp]: "push_data d \<noteq> []"
  by (simp add: push_data_def Let_def)

lemma parse_push_encoded:
  assumes "length d < 256 ^ n"
  shows "parse_push n (le_bytes n (length d) @ d @ rest) = Some (PushBytes d, 1 + n + length d)"
  using assms by (simp add: parse_push_def Let_def slice_def)

lemma parse_push_data:
  assumes "length d < 2 ^ 32"
  shows "parse_instr (hd (push_data d)) (tl (push_data d) @ rest) = Some (PushBytes d, length (push_data d))"
proof -
  consider "d = []" | "0 < length d" "length d < 76" | "76 \<le> length d" "length d \<le> 255"
    | "255 < length d" "length d \<le> 65535" | "65535 < length d"
    by (cases d) (auto, linarith)
  then show ?thesis
  proof cases
    case 1
    then show ?thesis by (simp add: push_data_def parse_instr_def)
  next
    case 2
    then have "unat (word_of_nat (length d) :: byte) = length d" by (simp add: unat_byte_of_nat)
    then show ?thesis
      using 2 byte_range_of_nat [of "length d"] by (simp add: push_data_def parse_instr_def)
  next
    case 3
    have "le_bytes 1 (length d) = [word_of_nat (length d)]" by simp
    then show ?thesis
      using 3 parse_push_encoded [of d 1 rest] by (simp add: push_data_def parse_instr_def)
  next
    case 4
    then show ?thesis
      using parse_push_encoded [of d 2 rest] by (simp add: push_data_def parse_instr_def del: le_bytes.simps)
  next
    case 5
    then show ?thesis
      using assms parse_push_encoded [of d 4 rest] by (simp add: push_data_def parse_instr_def del: le_bytes.simps)
  qed
qed

lemma instr_next_push_data:
  assumes "length d < 2 ^ 32"
  shows "instr_next \<lparr> remaining = push_data d @ rest, failed = False \<rparr> =
           (Some (Inr (PushBytes d)), \<lparr> remaining = rest, failed = False \<rparr>)"
proof -
  obtain b bs where e: "push_data d = b # bs" by (cases "push_data d") simp_all
  have "parse_instr b (bs @ rest) = Some (PushBytes d, Suc (length bs))"
    using parse_push_data [OF assms, of rest] by (simp add: e)
  then show ?thesis by (simp add: e instr_next_parse)
qed

lemma push_data_minimal:
  assumes "\<not> (length d = 1 \<and> (1 \<le> d ! 0 \<and> d ! 0 \<le> 16 \<or> d ! 0 = 0x81))"
  shows "minimal_push d (hd (push_data d))"
  using assms by (auto simp: minimal_push_def push_data_def Let_def unat_byte_of_nat)

end
