(* ===== verification/Script_Stack.thy ===== *)
theory Script_Stack
  imports Script
begin

text \<open>
  The interpreter's stack (\<open>src/crates/script/src/stack.rs\<close>).  \<open>Stack\<close> is the
  vector \<open>items\<close>, bottom first as in the source, with a capacity of 1000; depths
  count from the top.  The operations refine a list read top first, which is
  the interface (locale \<open>script_stack\<close>) the evaluator's proofs use.
\<close>

datatype ScriptItem = Num int | Bytes bytes

type_synonym Stack = "ScriptItem list"

datatype StackError = Overflow | Underflow

abbreviation MAX_DEPTH :: nat where "MAX_DEPTH \<equiv> 1000"

definition stack_new :: Stack where
  "stack_new = []"

definition stack_push :: "Stack \<Rightarrow> ScriptItem \<Rightarrow> StackError + Stack" where
  "stack_push items item = (if length items \<ge> MAX_DEPTH then Inl Overflow else Inr (items @ [item]))"

definition stack_pop :: "Stack \<Rightarrow> StackError + ScriptItem \<times> Stack" where
  "stack_pop items = (if items = [] then Inl Underflow else Inr (last items, butlast items))"

definition stack_peek :: "Stack \<Rightarrow> StackError + ScriptItem" where
  "stack_peek items = ok_or Underflow (last_opt items)"

text \<open>\<open>len.checked_sub(depth).and_then(|index| index.checked_sub(1))\<close>\<close>

definition depth_index :: "nat \<Rightarrow> nat \<Rightarrow> nat option" where
  "depth_index len depth =
     (if depth \<le> len then (if 1 \<le> len - depth then Some (len - depth - 1) else None) else None)"

definition stack_peek_at :: "Stack \<Rightarrow> nat \<Rightarrow> StackError + ScriptItem" where
  "stack_peek_at items depth =
     bindE (ok_or Underflow (depth_index (length items) depth)) (\<lambda>index.
     ok_or Underflow (get_at items index))"

definition stack_remove_at :: "Stack \<Rightarrow> nat \<Rightarrow> StackError + ScriptItem \<times> Stack" where
  "stack_remove_at items depth =
     bindE (ok_or Underflow (depth_index (length items) depth)) (\<lambda>index.
     Inr (items ! index, take index items @ drop (index + 1) items))"

definition stack_insert_at :: "Stack \<Rightarrow> nat \<Rightarrow> ScriptItem \<Rightarrow> StackError + Stack" where
  "stack_insert_at items depth item =
     (if depth > length items then Inl Underflow
      else if length items \<ge> MAX_DEPTH then Inl Overflow
      else let index = length items - depth in
        Inr (take index items @ [item] @ drop index items))"

definition stack_swap_at :: "Stack \<Rightarrow> nat \<Rightarrow> nat \<Rightarrow> StackError + Stack" where
  "stack_swap_at items depth_a depth_b =
     (let len = length items in
      if depth_a \<ge> len \<or> depth_b \<ge> len then Inl Underflow
      else let i = len - 1 - depth_a; j = len - 1 - depth_b in
        Inr (items[i := items ! j, j := items ! i]))"

definition stack_roll :: "Stack \<Rightarrow> nat \<Rightarrow> StackError + Stack" where
  "stack_roll items depth =
     bindE (stack_remove_at items depth) (\<lambda>(item, items'). stack_push items' item)"

definition stack_drain :: "Stack \<Rightarrow> nat \<Rightarrow> StackError + ScriptItem list \<times> Stack" where
  "stack_drain items count =
     (if count > length items then Inl Underflow
      else let start = length items - count in Inr (drop start items, take start items))"

definition stack_len :: "Stack \<Rightarrow> nat" where
  "stack_len items = length items"

definition stack_is_empty :: "Stack \<Rightarrow> bool" where
  "stack_is_empty items \<longleftrightarrow> items = []"

definition stack_clear :: "Stack \<Rightarrow> Stack" where
  "stack_clear items = []"

section \<open>The interface: a list read from the top\<close>

locale script_stack =
  fixes view :: "'s \<Rightarrow> 'a list"
    and cap :: nat
    and push :: "'s \<Rightarrow> 'a \<Rightarrow> StackError + 's"
    and pop :: "'s \<Rightarrow> StackError + 'a \<times> 's"
    and peek_at :: "'s \<Rightarrow> nat \<Rightarrow> StackError + 'a"
    and remove_at :: "'s \<Rightarrow> nat \<Rightarrow> StackError + 'a \<times> 's"
    and insert_at :: "'s \<Rightarrow> nat \<Rightarrow> 'a \<Rightarrow> StackError + 's"
    and swap_at :: "'s \<Rightarrow> nat \<Rightarrow> nat \<Rightarrow> StackError + 's"
    and drain :: "'s \<Rightarrow> nat \<Rightarrow> StackError + 'a list \<times> 's"
  assumes push_room: "length (view s) < cap \<Longrightarrow> \<exists>s'. push s x = Inr s' \<and> view s' = x # view s"
    and push_full: "cap \<le> length (view s) \<Longrightarrow> push s x = Inl Overflow"
    and pop_empty: "view s = [] \<Longrightarrow> pop s = Inl Underflow"
    and pop_top: "view s = x # xs \<Longrightarrow> \<exists>s'. pop s = Inr (x, s') \<and> view s' = xs"
    and peek_in: "d < length (view s) \<Longrightarrow> peek_at s d = Inr (view s ! d)"
    and peek_out: "length (view s) \<le> d \<Longrightarrow> peek_at s d = Inl Underflow"
    and remove_in: "d < length (view s) \<Longrightarrow>
      \<exists>s'. remove_at s d = Inr (view s ! d, s') \<and> view s' = take d (view s) @ drop (Suc d) (view s)"
    and remove_out: "length (view s) \<le> d \<Longrightarrow> remove_at s d = Inl Underflow"
    and insert_in: "d \<le> length (view s) \<Longrightarrow> length (view s) < cap \<Longrightarrow>
      \<exists>s'. insert_at s d x = Inr s' \<and> view s' = take d (view s) @ [x] @ drop d (view s)"
    and insert_deep: "length (view s) < d \<Longrightarrow> insert_at s d x = Inl Underflow"
    and insert_full: "d \<le> length (view s) \<Longrightarrow> cap \<le> length (view s) \<Longrightarrow> insert_at s d x = Inl Overflow"
    and swap_in: "a < length (view s) \<Longrightarrow> b < length (view s) \<Longrightarrow>
      \<exists>s'. swap_at s a b = Inr s' \<and> view s' = (view s)[a := view s ! b, b := view s ! a]"
    and swap_out: "length (view s) \<le> a \<or> length (view s) \<le> b \<Longrightarrow> swap_at s a b = Inl Underflow"
    and drain_in: "n \<le> length (view s) \<Longrightarrow>
      \<exists>s'. drain s n = Inr (rev (take n (view s)), s') \<and> view s' = drop n (view s)"
    and drain_out: "length (view s) < n \<Longrightarrow> drain s n = Inl Underflow"
begin

lemma push_Inr: "push s x = Inr s' \<Longrightarrow> length (view s) < cap \<and> view s' = x # view s"
  using push_room [of s x] push_full [of s x] by fastforce

lemma pop_Inr: "pop s = Inr (x, s') \<Longrightarrow> view s = x # view s'"
  using pop_empty [of s] pop_top [of s] by (cases "view s") fastforce+

lemma peek_Inr: "peek_at s d = Inr x \<Longrightarrow> d < length (view s) \<and> x = view s ! d"
  using peek_in [of d s] peek_out [of s d] by (cases "d < length (view s)") auto

lemma remove_Inr:
  "remove_at s d = Inr (x, s') \<Longrightarrow>
     d < length (view s) \<and> x = view s ! d \<and> view s' = take d (view s) @ drop (Suc d) (view s)"
  using remove_in [of d s] remove_out [of s d] by (cases "d < length (view s)") auto

lemma insert_Inr:
  "insert_at s d x = Inr s' \<Longrightarrow>
     d \<le> length (view s) \<and> length (view s) < cap \<and> view s' = take d (view s) @ [x] @ drop d (view s)"
  using insert_in [of d s x] insert_deep [of s d x] insert_full [of d s x]
  by (cases "d \<le> length (view s)"; cases "length (view s) < cap") auto

lemma swap_Inr:
  "swap_at s a b = Inr s' \<Longrightarrow>
     a < length (view s) \<and> b < length (view s) \<and> view s' = (view s)[a := view s ! b, b := view s ! a]"
  using swap_in [of a s b] swap_out [of s a b]
  by (cases "a < length (view s)"; cases "b < length (view s)") auto

lemma drain_Inr:
  "drain s n = Inr (xs, s') \<Longrightarrow>
     n \<le> length (view s) \<and> xs = rev (take n (view s)) \<and> view s' = drop n (view s)"
  using drain_in [of n s] drain_out [of s n] by (cases "n \<le> length (view s)") auto

text \<open>Every operation keeps the depth within the capacity.\<close>

lemma push_cap: "push s x = Inr s' \<Longrightarrow> length (view s') \<le> cap"
  by (auto dest: push_Inr)

lemma insert_cap: "insert_at s d x = Inr s' \<Longrightarrow> length (view s') \<le> cap"
  by (auto dest: insert_Inr)

text \<open>What is on the stack afterwards was there before or has been pushed.\<close>

lemma push_items: "push s x = Inr s' \<Longrightarrow> set (view s') = insert x (set (view s))"
  by (auto dest: push_Inr)

lemma pop_items: "pop s = Inr (x, s') \<Longrightarrow> insert x (set (view s')) = set (view s)"
  by (auto dest: pop_Inr)

lemma peek_item: "peek_at s d = Inr x \<Longrightarrow> x \<in> set (view s)"
  by (auto dest: peek_Inr)

lemma remove_items: "remove_at s d = Inr (x, s') \<Longrightarrow> insert x (set (view s')) = set (view s)"
  by (auto dest!: remove_Inr dest: in_set_takeD in_set_dropD)
    (metis append_take_drop_id Cons_nth_drop_Suc in_set_conv_decomp set_ConsD Un_iff set_append)

lemma insert_items: "insert_at s d x = Inr s' \<Longrightarrow> set (view s') = insert x (set (view s))"
  by (auto dest!: insert_Inr dest: in_set_takeD in_set_dropD) (metis append_take_drop_id Un_iff set_append)

lemma swap_items: "swap_at s a b = Inr s' \<Longrightarrow> set (view s') = set (view s)"
  using swap_Inr [of s a b s'] by (auto simp: set_swap)

lemma drain_items: "drain s n = Inr (xs, s') \<Longrightarrow> set xs \<union> set (view s') = set (view s)"
  by (auto dest!: drain_Inr dest: in_set_takeD in_set_dropD) (metis append_take_drop_id Un_iff set_append)

end

lemma depth_index_Some: "d < n \<Longrightarrow> depth_index n d = Some (n - 1 - d)"
  by (simp add: depth_index_def)

lemma depth_index_None: "n \<le> d \<Longrightarrow> depth_index n d = None"
  by (simp add: depth_index_def)

lemma rev_update2:
  assumes "a < length xs" "b < length xs"
  shows "rev (xs[length xs - 1 - a := xs ! (length xs - 1 - b), length xs - 1 - b := xs ! (length xs - 1 - a)]) =
    (rev xs)[a := rev xs ! b, b := rev xs ! a]"
  using assms by (simp add: rev_update rev_nth)

interpretation st: script_stack rev MAX_DEPTH stack_push stack_pop stack_peek_at stack_remove_at
  stack_insert_at stack_swap_at stack_drain
proof unfold_locales
  fix s :: Stack and x xs
  assume "rev s = x # xs"
  then have "s = rev xs @ [x]" by (metis rev.simps(2) rev_swap)
  then show "\<exists>s'. stack_pop s = Inr (x, s') \<and> rev s' = xs"
    by (simp add: stack_pop_def)
next
  fix s :: Stack and d
  assume "d < length (rev s)"
  then show "\<exists>s'. stack_remove_at s d = Inr (rev s ! d, s') \<and> rev s' = take d (rev s) @ drop (Suc d) (rev s)"
    by (simp add: stack_remove_at_def depth_index_Some rev_nth take_rev drop_rev Suc_diff_Suc)
next
  fix s :: Stack and a b
  assume "a < length (rev s)" "b < length (rev s)"
  then show "\<exists>s'. stack_swap_at s a b = Inr s' \<and> rev s' = (rev s)[a := rev s ! b, b := rev s ! a]"
    by (simp add: stack_swap_at_def Let_def rev_update2 [symmetric])
qed (auto simp: stack_push_def stack_pop_def stack_peek_at_def stack_remove_at_def stack_insert_at_def
    stack_swap_at_def stack_drain_def depth_index_Some depth_index_None get_at_def rev_nth Let_def
    take_rev drop_rev)

lemma stack_peek_is_peek_at: "stack_peek s = stack_peek_at s 0"
  by (cases s rule: rev_cases) (simp_all add: stack_peek_def stack_peek_at_def depth_index_def get_at_def)

lemma stack_roll_Inr:
  "stack_roll s d = Inr s' \<Longrightarrow>
     d < length s \<and> rev s' = (rev s ! d) # take d (rev s) @ drop (Suc d) (rev s)"
  by (auto simp: stack_roll_def dest!: st.remove_Inr st.push_Inr)

lemma stack_roll_items: "stack_roll s d = Inr s' \<Longrightarrow> set s' = set s"
  by (auto simp: stack_roll_def dest!: st.remove_items st.push_items)

end
