(* ===== verification/Script_Flags.thy ===== *)
theory Script_Flags
  imports Script_Stack
begin

text \<open>
  Verification flags and script errors (\<open>src/crates/script/src/interpreter.rs\<close>).
  \<open>VerifyFlags\<close> is its 32-bit word; a flag set is \<open>filled\<close> when it is closed under
  the implications \<open>CLEANSTACK\<close> to \<open>WITNESS\<close> to \<open>P2SH\<close>.  The message of
  \<open>ScriptError::Verification\<close> is the formatted text.
\<close>

section \<open>Flags\<close>

type_synonym VerifyFlags = u32

text \<open>\<open>1 << n\<close>\<close>

definition flag_bit :: "nat \<Rightarrow> VerifyFlags" where
  "flag_bit n = push_bit n 1"

definition NONE :: VerifyFlags where "NONE = 0"
definition P2SH :: VerifyFlags where "P2SH = flag_bit 0"
definition STRICTENC :: VerifyFlags where "STRICTENC = flag_bit 1"
definition DERSIG :: VerifyFlags where "DERSIG = flag_bit 2"
definition LOW_S :: VerifyFlags where "LOW_S = flag_bit 3"
definition NULLDUMMY :: VerifyFlags where "NULLDUMMY = flag_bit 4"
definition SIGPUSHONLY :: VerifyFlags where "SIGPUSHONLY = flag_bit 5"
definition MINIMALDATA :: VerifyFlags where "MINIMALDATA = flag_bit 6"
definition DISCOURAGE_UPGRADABLE_NOPS :: VerifyFlags where "DISCOURAGE_UPGRADABLE_NOPS = flag_bit 7"
definition CLEANSTACK :: VerifyFlags where "CLEANSTACK = flag_bit 8"
definition CHECKLOCKTIMEVERIFY :: VerifyFlags where "CHECKLOCKTIMEVERIFY = flag_bit 9"
definition CHECKSEQUENCEVERIFY :: VerifyFlags where "CHECKSEQUENCEVERIFY = flag_bit 10"
definition WITNESS :: VerifyFlags where "WITNESS = flag_bit 11"
definition DISCOURAGE_UPGRADABLE_WITNESS_PROGRAM :: VerifyFlags where
  "DISCOURAGE_UPGRADABLE_WITNESS_PROGRAM = flag_bit 12"
definition MINIMALIF :: VerifyFlags where "MINIMALIF = flag_bit 13"
definition NULLFAIL :: VerifyFlags where "NULLFAIL = flag_bit 14"
definition WITNESS_PUBKEYTYPE :: VerifyFlags where "WITNESS_PUBKEYTYPE = flag_bit 15"
definition CONST_SCRIPTCODE :: VerifyFlags where "CONST_SCRIPTCODE = flag_bit 16"
definition TAPROOT :: VerifyFlags where "TAPROOT = flag_bit 17"
definition DISCOURAGE_UPGRADABLE_TAPROOT_VERSION :: VerifyFlags where
  "DISCOURAGE_UPGRADABLE_TAPROOT_VERSION = flag_bit 18"
definition DISCOURAGE_OP_SUCCESS :: VerifyFlags where "DISCOURAGE_OP_SUCCESS = flag_bit 19"
definition DISCOURAGE_UPGRADABLE_PUBKEYTYPE :: VerifyFlags where
  "DISCOURAGE_UPGRADABLE_PUBKEYTYPE = flag_bit 20"

definition MANDATORY :: VerifyFlags where
  "MANDATORY = P2SH OR DERSIG OR NULLDUMMY OR CHECKLOCKTIMEVERIFY OR CHECKSEQUENCEVERIFY OR WITNESS OR TAPROOT"

definition STANDARD :: VerifyFlags where
  "STANDARD = MANDATORY OR STRICTENC OR LOW_S OR MINIMALDATA OR DISCOURAGE_UPGRADABLE_NOPS OR CLEANSTACK
     OR DISCOURAGE_UPGRADABLE_WITNESS_PROGRAM OR MINIMALIF OR NULLFAIL OR WITNESS_PUBKEYTYPE
     OR CONST_SCRIPTCODE OR DISCOURAGE_UPGRADABLE_TAPROOT_VERSION OR DISCOURAGE_OP_SUCCESS
     OR DISCOURAGE_UPGRADABLE_PUBKEYTYPE"

lemmas flag_bits = NONE_def P2SH_def STRICTENC_def DERSIG_def LOW_S_def NULLDUMMY_def SIGPUSHONLY_def
  MINIMALDATA_def DISCOURAGE_UPGRADABLE_NOPS_def CLEANSTACK_def CHECKLOCKTIMEVERIFY_def
  CHECKSEQUENCEVERIFY_def WITNESS_def DISCOURAGE_UPGRADABLE_WITNESS_PROGRAM_def MINIMALIF_def
  NULLFAIL_def WITNESS_PUBKEYTYPE_def CONST_SCRIPTCODE_def TAPROOT_def
  DISCOURAGE_UPGRADABLE_TAPROOT_VERSION_def DISCOURAGE_OP_SUCCESS_def
  DISCOURAGE_UPGRADABLE_PUBKEYTYPE_def

definition kernel_bits :: "VerifyFlags \<Rightarrow> u32" where
  "kernel_bits flags = flags AND MANDATORY"

definition filled :: "VerifyFlags \<Rightarrow> VerifyFlags" where
  "filled flags =
     (let bits = (if flags AND CLEANSTACK \<noteq> 0 then flags OR WITNESS else flags) in
      if bits AND WITNESS \<noteq> 0 then bits OR P2SH else bits)"

definition contains :: "VerifyFlags \<Rightarrow> VerifyFlags \<Rightarrow> bool" where
  "contains flags other \<longleftrightarrow> flags AND other = other"

definition flags_union :: "VerifyFlags \<Rightarrow> VerifyFlags \<Rightarrow> VerifyFlags" where
  "flags_union a b = a OR b"

section \<open>Errors\<close>

datatype (plugins only: code size) ScriptErrCode =
    EvalFalse | Verify | EqualVerify | CheckMultisigVerify | CheckSigVerify | NumEqualVerify
  | ScriptSize | PushSize | OpCount | StackSize | SigCount | PubkeyCount | BadOpcode | DisabledOpcode
  | InvalidStackOperation | InvalidAltstackOperation | OpReturn | UnbalancedConditional
  | NegativeLocktime | UnsatisfiedLocktime | SigHashtype | SigDer | MinimalData | SigPushonly | SigHighS
  | SigNullDummy | MinimalIf | SigNullFail | DiscourageUpgradableNops
  | DiscourageUpgradableWitnessProgram | DiscourageUpgradableTaprootVersion | DiscourageOpSuccess
  | DiscourageUpgradablePubkeyType | PubkeyType | CleanStack | WitnessProgramWrongLength
  | WitnessProgramWitnessEmpty | WitnessProgramMismatch | WitnessMalleated | WitnessMalleatedP2sh
  | WitnessUnexpected | WitnessPubkeyType | SchnorrSigSize | SchnorrSigHashtype | SchnorrSig
  | TaprootWrongControlSize | TapscriptValidationWeight | TapscriptCheckMultiSig | TapscriptMinimalIf
  | TapscriptEmptyPubkey | OpCodeSeparator | SigFindAndDelete | ScriptNum

datatype ScriptError =
    InputIndexOutOfRange nat nat
  | UnknownFlag string
  | Verification string
  | TaprootPrevoutsUnavailable
  | Invalid ScriptErrCode

section \<open>Flag names\<close>

text \<open>\<open>str::split(',')\<close>, \<open>str::trim\<close> (on ASCII text) and the lookup of Core's flag names.\<close>

fun split_commas :: "string \<Rightarrow> string list" where
  "split_commas [] = [[]]"
| "split_commas (c # cs) =
     (if c = CHR '','' then [] # split_commas cs
      else case split_commas cs of
          [] \<Rightarrow> [[c]]
        | w # ws \<Rightarrow> (c # w) # ws)"

definition is_white :: "char \<Rightarrow> bool" where
  "is_white c \<longleftrightarrow> of_char c \<in> {9 :: nat, 10, 11, 12, 13, 32}"

definition str_trim :: "string \<Rightarrow> string" where
  "str_trim w = rev (dropWhile is_white (rev (dropWhile is_white w)))"

definition core_flag_names :: "(string \<times> VerifyFlags) list" where
  "core_flag_names =
    [(''NONE'', NONE), (''P2SH'', P2SH), (''STRICTENC'', STRICTENC), (''DERSIG'', DERSIG), (''LOW_S'', LOW_S),
     (''NULLDUMMY'', NULLDUMMY), (''SIGPUSHONLY'', SIGPUSHONLY), (''MINIMALDATA'', MINIMALDATA),
     (''DISCOURAGE_UPGRADABLE_NOPS'', DISCOURAGE_UPGRADABLE_NOPS), (''CLEANSTACK'', CLEANSTACK),
     (''CHECKLOCKTIMEVERIFY'', CHECKLOCKTIMEVERIFY), (''CHECKSEQUENCEVERIFY'', CHECKSEQUENCEVERIFY),
     (''WITNESS'', WITNESS),
     (''DISCOURAGE_UPGRADABLE_WITNESS_PROGRAM'', DISCOURAGE_UPGRADABLE_WITNESS_PROGRAM),
     (''MINIMALIF'', MINIMALIF), (''NULLFAIL'', NULLFAIL), (''WITNESS_PUBKEYTYPE'', WITNESS_PUBKEYTYPE),
     (''CONST_SCRIPTCODE'', CONST_SCRIPTCODE), (''TAPROOT'', TAPROOT),
     (''DISCOURAGE_UPGRADABLE_TAPROOT_VERSION'', DISCOURAGE_UPGRADABLE_TAPROOT_VERSION),
     (''DISCOURAGE_OP_SUCCESS'', DISCOURAGE_OP_SUCCESS),
     (''DISCOURAGE_UPGRADABLE_PUBKEYTYPE'', DISCOURAGE_UPGRADABLE_PUBKEYTYPE)]"

fun union_core_names :: "VerifyFlags \<Rightarrow> string list \<Rightarrow> ScriptError + VerifyFlags" where
  "union_core_names flags [] = Inr flags"
| "union_core_names flags (name # names) = (case map_of core_flag_names name of
     Some f \<Rightarrow> union_core_names (flags_union flags f) names
   | None \<Rightarrow> Inl (UnknownFlag name))"

definition from_core_names :: "string \<Rightarrow> ScriptError + VerifyFlags" where
  "from_core_names names =
     union_core_names NONE (filter (\<lambda>name. name \<noteq> []) (map str_trim (split_commas names)))"

section \<open>Subsets of flags\<close>

definition flags_le :: "VerifyFlags \<Rightarrow> VerifyFlags \<Rightarrow> bool" where
  "flags_le f g \<longleftrightarrow> f AND g = f"

lemma flags_le_refl [simp]: "flags_le f f"
  by (simp add: flags_le_def)

lemma contains_mono: "flags_le f g \<Longrightarrow> contains f x \<Longrightarrow> contains g x"
  by (metis and.assoc and.commute contains_def flags_le_def)

lemma not_contains_mono: "flags_le f g \<Longrightarrow> \<not> contains g x \<Longrightarrow> \<not> contains f x"
  using contains_mono by blast

lemma flags_le_bit: "flags_le f g \<longleftrightarrow> (\<forall>i. bit f i \<longrightarrow> bit g i)"
proof
  show "flags_le f g \<Longrightarrow> \<forall>i. bit f i \<longrightarrow> bit g i" by (metis bit_and_iff flags_le_def)
  show "\<forall>i. bit f i \<longrightarrow> bit g i \<Longrightarrow> flags_le f g"
    unfolding flags_le_def by (rule bit_word_eqI) (auto simp: bit_and_iff)
qed

lemma bit_flag_bit [simp]: "bit (flag_bit n) i \<longleftrightarrow> i = n \<and> n < 32"
  by (auto simp: flag_bit_def bit_exp_iff)

lemma contains_flag_bit [simp]: "n < 32 \<Longrightarrow> contains f (flag_bit n) \<longleftrightarrow> bit f n"
proof
  assume "n < 32" "contains f (flag_bit n)"
  then show "bit f n" by (metis bit_and_iff bit_flag_bit contains_def)
next
  assume "n < 32" "bit f n"
  then show "contains f (flag_bit n)"
    unfolding contains_def by (intro bit_word_eqI) (auto simp: bit_and_iff)
qed

lemma and_flag_bit_0 [simp]: "n < 32 \<Longrightarrow> f AND flag_bit n = 0 \<longleftrightarrow> \<not> bit f n"
proof
  assume "n < 32" "f AND flag_bit n = 0"
  then show "\<not> bit f n" by (metis bit_0_eq bit_and_iff bit_flag_bit bot_apply bot_bool_def)
next
  assume "n < 32" "\<not> bit f n"
  then show "f AND flag_bit n = 0" by (intro bit_word_eqI) (auto simp: bit_and_iff)
qed

lemma contains_filled_P2SH [simp]:
  "contains (filled f) P2SH \<longleftrightarrow> contains f P2SH \<or> contains f WITNESS \<or> contains f CLEANSTACK"
  by (simp add: filled_def Let_def P2SH_def WITNESS_def CLEANSTACK_def bit_or_iff)

lemma contains_filled_WITNESS [simp]:
  "contains (filled f) WITNESS \<longleftrightarrow> contains f WITNESS \<or> contains f CLEANSTACK"
  by (simp add: filled_def Let_def P2SH_def WITNESS_def CLEANSTACK_def bit_or_iff)

lemma bit_filled: "bit (filled f) i \<longleftrightarrow>
    bit f i \<or> i = 11 \<and> bit f 8 \<or> i = 0 \<and> (bit f 8 \<or> bit f 11)"
  by (auto simp: filled_def Let_def P2SH_def WITNESS_def CLEANSTACK_def bit_or_iff)

lemma contains_filled_other [simp]: "n < 32 \<Longrightarrow> n \<noteq> 0 \<Longrightarrow> n \<noteq> 11 \<Longrightarrow> contains (filled f) (flag_bit n) \<longleftrightarrow> contains f (flag_bit n)"
  by (simp add: bit_filled)

lemma contains_filled_CLEANSTACK [simp]: "contains (filled f) CLEANSTACK \<longleftrightarrow> contains f CLEANSTACK"
  by (simp add: CLEANSTACK_def bit_filled)

lemma filled_idem [simp]: "filled (filled f) = filled f"
  by (rule bit_word_eqI) (auto simp: bit_filled)

lemma filled_mono: "flags_le f g \<Longrightarrow> flags_le (filled f) (filled g)"
  by (auto simp: flags_le_bit bit_filled)

lemma MANDATORY_le_STANDARD: "flags_le MANDATORY STANDARD"
  by (auto simp: flags_le_bit STANDARD_def bit_or_iff)

end
