(* ===== verification/Script_Num.thy ===== *)
theory Script_Num
  imports Script_Flags
begin

text \<open>
  Script numbers and truth values (\<open>src/crates/script/src/eval.rs\<close>, the helpers
  before \<open>eval_script\<close>): sign-magnitude little-endian integers with a minimal
  encoding, the boolean reading of a stack item, and the \<open>ConditionStack\<close>, which
  keeps only the size of the \<open>IF\<close> stack and the position of its first false
  entry and stands for the full list of branch conditions.
\<close>

section \<open>Script numbers\<close>

abbreviation (input) invalid :: "ScriptErrCode \<Rightarrow> ScriptError + 'a" where
  "invalid code \<equiv> Inl (Invalid code)"

definition i64_try_from :: "u64 \<Rightarrow> ScriptError + int" where
  "i64_try_from v = (if uint v \<le> i64_max then Inr (uint v) else invalid ScriptNum)"

definition script_num :: "bytes \<Rightarrow> bool \<Rightarrow> nat \<Rightarrow> ScriptError + int" where
  "script_num bs require_minimal max_size =
     (if length bs > max_size then invalid ScriptNum
      else if require_minimal \<and> bs \<noteq> [] \<and> trailing_zeros8 (last bs) \<ge> 7 \<and>
          (length bs = 1 \<or> \<not> (length bs > 1 \<and> bs ! (length bs - 2) AND 0x80 \<noteq> 0))
        then invalid ScriptNum
      else if bs = [] then Inr 0
      else let value = or_le64 bs in
        if last bs AND 0x80 \<noteq> 0 then
          (let mask = NOT (push_bit (8 * (length bs - 1)) 0x80);
               magnitude = value AND mask
           in bindE (i64_try_from magnitude) (\<lambda>magnitude. Inr (- magnitude)))
        else i64_try_from value)"

definition script_num_serialize :: "int \<Rightarrow> bytes" where
  "script_num_serialize value =
     (if value = 0 then []
      else let negative = value < 0; result = magnitude_bytes (nat \<bar>value\<bar>) in
        (case last_opt result of
           Some lst \<Rightarrow>
             if lst AND 0x80 \<noteq> 0 then result @ [if negative then 0x80 else 0x00]
             else if negative then butlast result @ [lst OR 0x80]
             else result
         | None \<Rightarrow> result))"

text \<open>The scan for the first non-zero byte: \<open>index\<close> is its position in a string of \<open>len\<close> bytes.\<close>

fun cast_to_bool_from :: "nat \<Rightarrow> nat \<Rightarrow> bytes \<Rightarrow> bool" where
  "cast_to_bool_from len index [] = False"
| "cast_to_bool_from len index (b # bs) =
     (if b \<noteq> 0 then \<not> (index = len - 1 \<and> b = 0x80) else cast_to_bool_from len (index + 1) bs)"

definition cast_to_bool :: "bytes \<Rightarrow> bool" where
  "cast_to_bool bs = cast_to_bool_from (length bs) 0 bs"

definition item_bytes :: "ScriptItem \<Rightarrow> bytes" where
  "item_bytes item = (case item of Num n \<Rightarrow> script_num_serialize n | Bytes bs \<Rightarrow> bs)"

definition item_is_true :: "ScriptItem \<Rightarrow> bool" where
  "item_is_true item = cast_to_bool (item_bytes item)"

section \<open>The condition stack\<close>

record ConditionStack =
  first_false :: "nat option"
  cond_size :: nat

definition cond_new :: ConditionStack where
  "cond_new = \<lparr> first_false = None, cond_size = 0 \<rparr>"

definition cond_all_true :: "ConditionStack \<Rightarrow> bool" where
  "cond_all_true c \<longleftrightarrow> first_false c = None"

definition cond_is_empty :: "ConditionStack \<Rightarrow> bool" where
  "cond_is_empty c \<longleftrightarrow> cond_size c = 0"

definition cond_push :: "ConditionStack \<Rightarrow> bool \<Rightarrow> ConditionStack" where
  "cond_push c value =
     (let c' = (if first_false c = None \<and> \<not> value then c\<lparr>first_false := Some (cond_size c)\<rparr> else c) in
      c'\<lparr>cond_size := cond_size c' + 1\<rparr>)"

definition cond_pop :: "ConditionStack \<Rightarrow> ConditionStack" where
  "cond_pop c =
     (let c' = c\<lparr>cond_size := cond_size c - 1\<rparr> in
      if first_false c' = Some (cond_size c') then c'\<lparr>first_false := None\<rparr> else c')"

definition cond_toggle_top :: "ConditionStack \<Rightarrow> ConditionStack" where
  "cond_toggle_top c = (case first_false c of
     None \<Rightarrow> c\<lparr>first_false := Some (cond_size c - 1)\<rparr>
   | Some pos \<Rightarrow> if pos = cond_size c - 1 then c\<lparr>first_false := None\<rparr> else c)"

section \<open>Sign bits of bytes\<close>

lemma byte_high_bit: "(b :: byte) AND 0x80 \<noteq> 0 \<longleftrightarrow> 128 \<le> unat b"
proof -
  have "b AND 2 ^ 7 = 0 \<longleftrightarrow> \<not> bit b 7" by (rule and_exp_eq_0_iff_not_bit)
  then have "b AND 0x80 \<noteq> 0 \<longleftrightarrow> bit b 7" by simp
  also have "bit b 7 \<longleftrightarrow> odd (unat b div 128)"
  proof -
    have "bit (unat b) 7 \<longleftrightarrow> bit b 7" by (simp add: bit_unsigned_iff)
    then show ?thesis by (simp add: bit_iff_odd)
  qed
  also have "odd (unat b div 128) \<longleftrightarrow> 128 \<le> unat b"
  proof -
    have "unat b div 128 < 2" using unat_byte_less [of b] by (simp add: less_mult_imp_div_less)
    then have "unat b div 128 = 0 \<or> unat b div 128 = 1" by linarith
    then show ?thesis by (auto simp: div_eq_0_iff)
  qed
  finally show ?thesis .
qed

lemma unat_low7: "unat ((b :: byte) AND 0x7f) = unat b mod 128"
proof -
  have "b AND 0x7f = take_bit 7 b"
    by (simp add: take_bit_eq_mask mask_eq_exp_minus_1)
  moreover have "unat (take_bit 7 b) = take_bit 7 (unat b)" by (rule unsigned_take_bit_eq)
  ultimately show ?thesis by (simp only: take_bit_eq_mod) simp
qed

lemma unat_set_high: "unat (b :: byte) < 128 \<Longrightarrow> unat (b OR 0x80) = unat b + 128"
proof -
  assume "unat b < 128"
  then have "unat b OR push_bit 7 1 = unat b + 2 ^ 7 * 1"
    by (intro nat_or_push_bit) simp
  then show ?thesis by (simp add: unsigned_or_eq)
qed

lemma trailing_zeros8_ge_7: "trailing_zeros8 b \<ge> 7 \<longleftrightarrow> unat b mod 128 = 0"
proof -
  have "trailing_zeros8 b \<ge> 7 \<longleftrightarrow> (\<forall>i<7. \<not> bit b i)"
  proof
    assume len: "trailing_zeros8 b \<ge> 7"
    show "\<forall>i<7. \<not> bit b i"
    proof (intro allI impI)
      fix i :: nat
      assume i: "i < 7"
      let ?t = "takeWhile (\<lambda>i. \<not> bit b i) [0..<8]"
      have "i < length ?t" using len i by (simp add: trailing_zeros8_def)
      then have "?t ! i \<in> set ?t" by (rule nth_mem)
      moreover have "?t ! i = i"
        using \<open>i < length ?t\<close> i by (simp add: takeWhile_nth del: upt_Suc upt_rec_numeral)
      ultimately have "i \<in> set ?t" by simp
      then show "\<not> bit b i" by (metis set_takeWhileD)
    qed
  next
    assume "\<forall>i<7. \<not> bit b i"
    then show "trailing_zeros8 b \<ge> 7"
      unfolding trailing_zeros8_def by (intro length_takeWhile_less_P_nth) (simp_all del: upt_Suc upt_rec_numeral)
  qed
  also have "\<dots> \<longleftrightarrow> take_bit 7 b = 0"
    by (auto simp: bit_eq_iff bit_take_bit_iff simp del: take_bit_eq_0_iff)
  also have "\<dots> \<longleftrightarrow> unat b mod 128 = 0"
  proof -
    have "unat (take_bit 7 b) = take_bit 7 (unat b)" by (rule unsigned_take_bit_eq)
    then have "unat (take_bit 7 b) = unat b mod 128" by (simp add: take_bit_eq_mod [of 7 "unat b"])
    then show ?thesis by (metis unat_0 unat_eq_zero)
  qed
  finally show ?thesis .
qed

section \<open>Magnitudes\<close>

lemma magnitude_bytes_0 [simp]: "magnitude_bytes 0 = []"
  by (simp add: magnitude_bytes.simps)

lemma magnitude_bytes_eq_Nil [simp]: "magnitude_bytes m = [] \<longleftrightarrow> m = 0"
  by (subst magnitude_bytes.simps) simp

lemma le_nat_magnitude_bytes [simp]: "le_nat (magnitude_bytes m) = m"
proof (induction m rule: magnitude_bytes.induct)
  case (1 m)
  then show ?case by (subst magnitude_bytes.simps) (simp add: unat_byte_of_nat)
qed

lemma last_magnitude_bytes: "m \<noteq> 0 \<Longrightarrow> last (magnitude_bytes m) \<noteq> 0"
proof (induction m rule: magnitude_bytes.induct)
  case (1 m)
  show ?case
  proof (cases "m div 256 = 0")
    case True
    then have "m < 256" by (simp add: div_eq_0_iff)
    moreover have "unat (word_of_nat m :: byte) = m mod 256" by (rule unat_byte_of_nat)
    ultimately have "(word_of_nat m :: byte) \<noteq> 0" using 1(2) by (metis mod_less unat_0)
    then show ?thesis using True 1(2) by (subst magnitude_bytes.simps) simp
  next
    case False
    then show ?thesis using 1 by (subst magnitude_bytes.simps) (simp add: magnitude_bytes_eq_Nil)
  qed
qed

lemma length_magnitude_bytes: "m < 256 ^ n \<Longrightarrow> length (magnitude_bytes m) \<le> n"
proof (induction m arbitrary: n rule: magnitude_bytes.induct)
  case (1 m)
  show ?case
  proof (cases n)
    case 0
    then show ?thesis using 1(2) by simp
  next
    case (Suc k)
    then have "m div 256 < 256 ^ k" using 1(2) by (simp add: less_mult_imp_div_less mult.commute)
    then show ?thesis using 1(1) Suc by (subst magnitude_bytes.simps) simp
  qed
qed

lemma magnitude_bytes_unique:
  "bs = [] \<or> last bs \<noteq> 0 \<Longrightarrow> magnitude_bytes (le_nat bs) = bs"
proof (induction bs)
  case (Cons b bs)
  have "le_nat (b # bs) \<noteq> 0"
  proof (cases bs)
    case Nil
    then have "b \<noteq> 0" using Cons.prems by simp
    then show ?thesis using Nil by (simp add: unat_eq_zero)
  next
    case (Cons c cs)
    then have "magnitude_bytes (le_nat bs) = bs" using Cons.prems Cons.IH by auto
    then have "le_nat bs \<noteq> 0" using Cons by (metis list.distinct(1) magnitude_bytes_0)
    then show ?thesis by simp
  qed
  moreover have "word_of_nat (le_nat (b # bs)) = b" "le_nat (b # bs) div 256 = le_nat bs"
    using le_bytes_le_nat [of "b # bs"] unat_byte_less [of b] by auto
  ultimately show ?case
    using Cons by (subst magnitude_bytes.simps) (auto split: if_splits)
qed simp

section \<open>The value of a script number\<close>

text \<open>The magnitude with the sign bit of the last byte cleared.\<close>

definition num_value :: "bytes \<Rightarrow> int" where
  "num_value bs =
     (if bs = [] then 0
      else let m = int (le_nat (butlast bs) + 256 ^ (length bs - 1) * (unat (last bs) mod 128)) in
        if 128 \<le> unat (last bs) then - m else m)"

lemma or_le64_snoc:
  assumes "length bs < 8"
  shows "or_le64 (bs @ [b]) = or_le64 bs OR push_bit (8 * length bs) (ucast b)"
proof -
  have "or_le64_from i v (bs @ [b]) = or_le64_from i v bs OR push_bit (8 * (i + length bs)) (ucast b)" for i v
    by (induction bs arbitrary: i v) (simp_all add: algebra_simps)
  then show ?thesis by (simp add: or_le64_def)
qed

lemma or_le64_clear_sign:
  assumes "length bs < 8"
  shows "or_le64 (bs @ [b]) AND NOT (push_bit (8 * length bs) 0x80) = or_le64 (bs @ [b AND 0x7f])"
proof -
  define k where "k = 8 * length bs"
  have low: "\<not> bit (or_le64 bs) i" if "k \<le> i" for i
  proof -
    have "unat (or_le64 bs) < 2 ^ k"
      using assms le_nat_less [of bs] by (simp add: unat_or_le64 k_def power_mult)
    then have "take_bit k (unat (or_le64 bs)) = unat (or_le64 bs)" by (simp add: take_bit_nat_eq_self)
    then have "take_bit k (or_le64 bs) = or_le64 bs"
      by (metis unsigned_take_bit_eq word_unat_eq_iff)
    then show ?thesis using that by (metis bit_take_bit_iff linorder_not_less)
  qed
  have b80: "bit (0x80 :: u64) j \<longleftrightarrow> j = 7" for j
  proof -
    have "bit ((2 :: u64) ^ 7) j \<longleftrightarrow> possible_bit TYPE(u64) j \<and> j = 7" by (rule bit_exp_iff)
    then show ?thesis by (auto simp: possible_bit_word)
  qed
  have b7f: "bit (ucast (b AND 0x7f) :: u64) j \<longleftrightarrow> bit b j \<and> j < 7" for j
  proof -
    have "b AND 0x7f = take_bit 7 b" by (simp add: take_bit_eq_mask mask_eq_exp_minus_1)
    then have "bit (ucast (b AND 0x7f) :: u64) j \<longleftrightarrow> j < 64 \<and> bit (take_bit 7 b) j"
      by (simp only: bit_ucast_iff) auto
    then show ?thesis by (auto simp only: bit_take_bit_iff)
  qed
  have bb: "bit (ucast b :: u64) j \<longleftrightarrow> bit b j" for j
    using bit_imp_le_length [of b j] by (auto simp: bit_ucast_iff)
  have b8: "bit b j \<Longrightarrow> j < 8" for j using bit_imp_le_length [of b j] by simp
  show ?thesis
    unfolding or_le64_snoc [OF assms] k_def [symmetric]
  proof (rule bit_word_eqI)
    fix n :: nat
    assume "n < LENGTH(64)"
    then show "bit ((or_le64 bs OR push_bit k (ucast b)) AND NOT (push_bit k 0x80)) n =
      bit (or_le64 bs OR push_bit k (ucast (b AND 0x7f))) n"
      using low [of n] b8 [of "n - k"] b80 [of "n - k"]
      by (cases "n - k = 7") (auto simp: bit_or_iff bit_and_iff bit_not_iff bit_push_bit_iff b7f bb)
  qed
qed

definition num_minimal :: "bytes \<Rightarrow> bool" where
  "num_minimal bs \<longleftrightarrow> bs = [] \<or> unat (last bs) mod 128 \<noteq> 0 \<or>
     (1 < length bs \<and> 128 \<le> unat (bs ! (length bs - 2)))"

lemma num_value_snoc:
  "num_value (bs @ [b]) =
     (let m = int (le_nat (bs @ [b AND 0x7f])) in if 128 \<le> unat b then - m else m)"
  by (simp add: num_value_def le_nat_append unat_low7 Let_def)

lemma num_minimal_snoc:
  "num_minimal (bs @ [b]) \<longleftrightarrow> unat b mod 128 \<noteq> 0 \<or> (bs \<noteq> [] \<and> 128 \<le> unat (last bs))"
  by (cases bs rule: rev_cases) (auto simp: num_minimal_def nth_append)

lemma le_nat_snoc_less: "length bs < 7 \<Longrightarrow> int (le_nat (bs @ [b])) \<le> i64_max"
proof -
  assume "length bs < 7"
  then have "(256 :: nat) ^ length (bs @ [b]) \<le> 256 ^ 7" by (intro power_increasing) auto
  then have "le_nat (bs @ [b]) < 256 ^ 7" using le_nat_less [of "bs @ [b]"] by linarith
  then show ?thesis by (simp add: i64_max_def)
qed

lemma script_num_eq:
  assumes "max_size \<le> 7"
  shows "script_num bs require_minimal max_size =
    (if length bs > max_size \<or> require_minimal \<and> \<not> num_minimal bs then invalid ScriptNum else Inr (num_value bs))"
proof (cases bs rule: rev_cases)
  case Nil
  then show ?thesis by (simp add: script_num_def num_minimal_def num_value_def)
next
  case (snoc xs b)
  have min: "trailing_zeros8 (last bs) \<ge> 7 \<and> (length bs = 1 \<or> \<not> (length bs > 1 \<and> bs ! (length bs - 2) AND 0x80 \<noteq> 0))
      \<longleftrightarrow> \<not> num_minimal bs"
    using snoc by (auto simp: trailing_zeros8_ge_7 byte_high_bit num_minimal_def)
  show ?thesis
  proof (cases "length bs > max_size")
    case False
    then have len: "length xs < 7" "length xs < 8" using snoc assms by auto
    have u: "uint (or_le64 (xs @ [c])) = int (le_nat (xs @ [c]))" for c
      using len unat_or_le64 [of "xs @ [c]"] by (simp add: uint_nat)
    have "b AND 0x7f = b" if "\<not> 128 \<le> unat b"
      using that by (simp add: word_unat_eq_iff unat_low7)
    then show ?thesis
      using False snoc le_nat_snoc_less [OF len(1)] or_le64_clear_sign [OF len(2), of b] min
      by (auto simp: script_num_def i64_try_from_def byte_high_bit num_value_snoc Let_def u)
  qed (simp add: script_num_def)
qed

section \<open>The canonical encoding\<close>

lemma script_num_serialize_cases:
  assumes "v \<noteq> 0"
  obtains xs l where "magnitude_bytes (nat \<bar>v\<bar>) = xs @ [l]" "l \<noteq> 0" "le_nat (xs @ [l]) = nat \<bar>v\<bar>"
    "script_num_serialize v =
       (if 128 \<le> unat l then xs @ [l, if v < 0 then 0x80 else 0]
        else if v < 0 then xs @ [l OR 0x80] else xs @ [l])"
proof -
  have m: "nat \<bar>v\<bar> \<noteq> 0" using assms by simp
  then obtain xs l where e: "magnitude_bytes (nat \<bar>v\<bar>) = xs @ [l]"
    by (metis magnitude_bytes_eq_Nil rev_exhaust)
  show thesis
    using m last_magnitude_bytes [OF m] le_nat_magnitude_bytes [of "nat \<bar>v\<bar>"] assms
    by (intro that [OF e]) (auto simp: e script_num_serialize_def byte_high_bit Let_def)
qed

lemma unat_pos_if: "(l :: byte) \<noteq> 0 \<Longrightarrow> 0 < unat l"
  using unat_eq_zero [of l] by auto

lemma low7_id: "unat (b :: byte) < 128 \<Longrightarrow> b AND 0x7f = b"
  by (simp add: word_unat_eq_iff unat_low7)

lemma low7_set_high: "unat (b :: byte) < 128 \<Longrightarrow> (b OR 0x80) AND 0x7f = b"
  by (simp add: word_unat_eq_iff unat_low7 unat_set_high)

lemma num_value_serialize [simp]: "num_value (script_num_serialize v) = v"
proof (cases "v = 0")
  case True
  then show ?thesis by (simp add: script_num_serialize_def num_value_def)
next
  case False
  then obtain xs l where x: "l \<noteq> 0" "le_nat (xs @ [l]) = nat \<bar>v\<bar>" "script_num_serialize v =
       (if 128 \<le> unat l then xs @ [l, if v < 0 then 0x80 else 0]
        else if v < 0 then xs @ [l OR 0x80] else xs @ [l])"
    by (rule script_num_serialize_cases)
  have two: "xs @ [l, c] = (xs @ [l]) @ [c]" for c by simp
  have "le_nat ((xs @ [l]) @ [c]) = nat \<bar>v\<bar>" if "c = 0" for c
    using x(2) that by (simp add: le_nat_append)
  then show ?thesis
    using x unfolding two
    by (cases "128 \<le> unat l"; cases "v < 0")
      (simp_all add: num_value_snoc Let_def low7_id low7_set_high unat_set_high del: append_assoc)
qed

lemma num_minimal_serialize [simp]: "num_minimal (script_num_serialize v)"
proof (cases "v = 0")
  case False
  then obtain xs l where x: "l \<noteq> 0" "script_num_serialize v =
       (if 128 \<le> unat l then xs @ [l, if v < 0 then 0x80 else 0]
        else if v < 0 then xs @ [l OR 0x80] else xs @ [l])"
    by (rule script_num_serialize_cases)
  have two: "xs @ [l, c] = (xs @ [l]) @ [c]" for c by simp
  show ?thesis
    using x unat_pos_if [of l] unfolding two
    by (cases "128 \<le> unat l"; cases "v < 0") (simp_all add: num_minimal_snoc unat_set_high del: append_assoc)
qed (simp add: script_num_serialize_def num_minimal_def)

lemma serialize_num_value: "num_minimal bs \<Longrightarrow> script_num_serialize (num_value bs) = bs"
proof (cases bs rule: rev_cases)
  case Nil
  then show ?thesis by (simp add: num_value_def script_num_serialize_def)
next
  case (snoc xs b)
  assume min: "num_minimal bs"
  define m where "m = le_nat (xs @ [b AND 0x7f])"
  have v: "num_value bs = (if 128 \<le> unat b then - int m else int m)"
    by (simp add: snoc num_value_snoc m_def Let_def)
  show ?thesis
  proof (cases "unat b mod 128 = 0")
    case True
    then have xs: "xs \<noteq> []" "128 \<le> unat (last xs)" using min by (auto simp: snoc num_minimal_snoc)
    have "b AND 0x7f = 0" using True by (simp add: word_unat_eq_iff unat_low7)
    then have "m = le_nat xs" by (simp add: m_def le_nat_append)
    moreover have "last xs \<noteq> 0" using xs by auto
    ultimately have mag: "magnitude_bytes m = xs" by (simp add: magnitude_bytes_unique)
    then have "m \<noteq> 0" using xs by auto
    moreover have "b = (if 128 \<le> unat b then 0x80 else 0)"
      using True unat_byte_less [of b] by (auto simp: word_unat_eq_iff)
    ultimately show ?thesis
      using xs mag v by (auto simp: snoc script_num_serialize_def last_opt_def byte_high_bit Let_def)
  next
    case False
    then have "b AND 0x7f \<noteq> 0" by (simp add: word_unat_eq_iff unat_low7)
    then have mag: "magnitude_bytes m = xs @ [b AND 0x7f]" by (simp add: m_def magnitude_bytes_unique)
    then have "m \<noteq> 0" by (metis magnitude_bytes_0 snoc_eq_iff_butlast)
    moreover have "\<not> 128 \<le> unat (b AND 0x7f)" by (simp add: unat_low7)
    moreover have "(b AND 0x7f) OR 0x80 = b" if "128 \<le> unat b"
      using that unat_byte_less [of b] by (simp add: word_unat_eq_iff unat_low7 unat_set_high le_mod_geq)
    moreover have "b AND 0x7f = b" if "\<not> 128 \<le> unat b" using that by (simp add: low7_id)
    ultimately show ?thesis
      using mag v by (auto simp: snoc script_num_serialize_def byte_high_bit Let_def)
  qed
qed

lemma length_script_num_serialize:
  assumes "\<bar>v\<bar> < 2 ^ (8 * n - 1)" "0 < n"
  shows "length (script_num_serialize v) \<le> n"
proof (cases "v = 0")
  case False
  then obtain xs l where x: "magnitude_bytes (nat \<bar>v\<bar>) = xs @ [l]" "l \<noteq> 0" "le_nat (xs @ [l]) = nat \<bar>v\<bar>"
    "script_num_serialize v =
       (if 128 \<le> unat l then xs @ [l, if v < 0 then 0x80 else 0]
        else if v < 0 then xs @ [l OR 0x80] else xs @ [l])"
    by (rule script_num_serialize_cases)
  obtain k where n: "n = Suc k" using assms(2) by (cases n) auto
  have small: "nat \<bar>v\<bar> < 128 * 256 ^ k"
  proof -
    have "\<bar>v\<bar> < 2 ^ (7 + 8 * k)" using assms(1) by (simp add: n)
    then have "nat \<bar>v\<bar> < 2 ^ (7 + 8 * k)" by (simp add: nat_less_iff)
    then show ?thesis by (simp add: power_add power_mult)
  qed
  then have "length (xs @ [l]) \<le> Suc k"
    using length_magnitude_bytes [of "nat \<bar>v\<bar>" "Suc k"] x(1) by simp
  moreover have "length xs \<noteq> k" if "128 \<le> unat l"
  proof
    assume "length xs = k"
    then have "128 * 256 ^ k \<le> le_nat (xs @ [l])"
      using that by (simp add: le_nat_append) (metis mult.commute mult_le_mono1 trans_le_add2)
    then show False using small x(3) by simp
  qed
  ultimately show ?thesis using x(4) by (auto simp: n)
qed (simp add: script_num_serialize_def)

section \<open>Truth values\<close>

lemma cast_to_bool_from_snoc:
  "i + length bs + 1 = len \<Longrightarrow> cast_to_bool_from len i (bs @ [b]) \<longleftrightarrow> (\<exists>x\<in>set bs. x \<noteq> 0) \<or> (b \<noteq> 0 \<and> b \<noteq> 0x80)"
  by (induction bs arbitrary: i) auto

lemma le_nat_eq_0_iff: "le_nat bs = 0 \<longleftrightarrow> (\<forall>x\<in>set bs. x = 0)"
  by (induction bs) (auto simp: unat_eq_zero)

lemma cast_to_bool_num_value: "cast_to_bool bs \<longleftrightarrow> num_value bs \<noteq> 0"
proof (cases bs rule: rev_cases)
  case Nil
  then show ?thesis by (simp add: cast_to_bool_def num_value_def)
next
  case (snoc xs b)
  have "b AND 0x7f = 0 \<longleftrightarrow> b = 0 \<or> b = 0x80"
  proof -
    have "unat b mod 128 = 0 \<longleftrightarrow> unat b = 0 \<or> unat b = 128"
      using unat_byte_less [of b] by (cases "unat b < 128") (auto simp: le_mod_geq)
    then show ?thesis by (simp add: word_unat_eq_iff unat_low7)
  qed
  moreover have "num_value bs = 0 \<longleftrightarrow> (\<forall>x\<in>set xs. x = 0) \<and> b AND 0x7f = 0"
    unfolding snoc num_value_snoc Let_def using le_nat_eq_0_iff [of "xs @ [b AND 0x7f]"] by auto
  ultimately show ?thesis
    by (auto simp: snoc cast_to_bool_def cast_to_bool_from_snoc)
qed

lemma cast_to_bool_serialize [simp]: "cast_to_bool (script_num_serialize v) \<longleftrightarrow> v \<noteq> 0"
  by (simp add: cast_to_bool_num_value)

lemma cast_to_bool_simps [simp]:
  "cast_to_bool [] = False"
  "cast_to_bool [1] = True"
  by (simp_all add: cast_to_bool_def)

lemma push_int_serialize:
  "v \<noteq> -1 \<Longrightarrow> \<not> (1 \<le> v \<and> v \<le> 16) \<Longrightarrow> push_int v = push_data (script_num_serialize v)"
  by (auto simp: push_int_def script_num_serialize_def push_data_def Let_def split: option.splits)

section \<open>The condition stack against the list of conditions\<close>

datatype cond_op = CondPush bool | CondToggle | CondPop

locale condition_stack =
  fixes rep :: "'c \<Rightarrow> bool list \<Rightarrow> bool"
    and new :: 'c
    and all_true :: "'c \<Rightarrow> bool"
    and is_empty :: "'c \<Rightarrow> bool"
    and push :: "'c \<Rightarrow> bool \<Rightarrow> 'c"
    and pop :: "'c \<Rightarrow> 'c"
    and toggle_top :: "'c \<Rightarrow> 'c"
  assumes rep_new: "rep new []"
    and rep_all_true: "rep c bs \<Longrightarrow> all_true c \<longleftrightarrow> (\<forall>b\<in>set bs. b)"
    and rep_is_empty: "rep c bs \<Longrightarrow> is_empty c \<longleftrightarrow> bs = []"
    and rep_push: "rep c bs \<Longrightarrow> rep (push c b) (bs @ [b])"
    and rep_pop: "rep c (bs @ [b]) \<Longrightarrow> rep (pop c) bs"
    and rep_toggle: "rep c (bs @ [b]) \<Longrightarrow> rep (toggle_top c) (bs @ [\<not> b])"
begin

text \<open>A guarded step as the opcodes \<open>IF\<close>, \<open>ELSE\<close> and \<open>ENDIF\<close> perform it; \<open>None\<close> is an unbalanced conditional.\<close>

fun step :: "cond_op \<Rightarrow> 'c \<Rightarrow> 'c option" where
  "step (CondPush b) c = Some (push c b)"
| "step CondToggle c = (if is_empty c then None else Some (toggle_top c))"
| "step CondPop c = (if is_empty c then None else Some (pop c))"

fun list_step :: "cond_op \<Rightarrow> bool list \<Rightarrow> bool list option" where
  "list_step (CondPush b) bs = Some (bs @ [b])"
| "list_step CondToggle bs = (if bs = [] then None else Some (butlast bs @ [\<not> last bs]))"
| "list_step CondPop bs = (if bs = [] then None else Some (butlast bs))"

fun run :: "cond_op list \<Rightarrow> 'c \<Rightarrow> 'c option" where
  "run [] c = Some c"
| "run (x # xs) c = Option.bind (step x c) (run xs)"

fun list_run :: "cond_op list \<Rightarrow> bool list \<Rightarrow> bool list option" where
  "list_run [] bs = Some bs"
| "list_run (x # xs) bs = Option.bind (list_step x bs) (list_run xs)"

lemma step_refines:
  assumes "rep c bs"
  shows "rel_option rep (step x c) (list_step x bs)"
proof (cases bs rule: rev_cases)
  case Nil
  then show ?thesis using assms rep_is_empty [OF assms] rep_push [OF assms] by (cases x) auto
next
  case (snoc ys y)
  then show ?thesis
    using assms rep_is_empty [OF assms] rep_push [OF assms] rep_pop [of c ys y] rep_toggle [of c ys y]
    by (cases x) auto
qed

lemma run_refines: "rep c bs \<Longrightarrow> rel_option rep (run xs c) (list_run xs bs)"
proof (induction xs arbitrary: c bs)
  case (Cons x xs)
  from step_refines [OF Cons.prems, of x] show ?case
    by (cases "step x c"; cases "list_step x bs") (auto intro: Cons.IH)
qed simp

end

text \<open>The compact stack stands for a list whose first false entry it remembers.\<close>

definition first_false_of :: "bool list \<Rightarrow> nat option" where
  "first_false_of bs = (let k = length (takeWhile id bs) in if k < length bs then Some k else None)"

definition cond_rep :: "ConditionStack \<Rightarrow> bool list \<Rightarrow> bool" where
  "cond_rep c bs \<longleftrightarrow> cond_size c = length bs \<and> first_false c = first_false_of bs"

lemma takeWhile_id_all: "length (takeWhile id bs) = length bs \<longleftrightarrow> (\<forall>b\<in>set bs. b)"
  by (induction bs) auto

lemma first_false_of_snoc:
  "first_false_of (bs @ [b]) =
     (case first_false_of bs of Some k \<Rightarrow> Some k | None \<Rightarrow> if b then None else Some (length bs))"
  by (induction bs) (auto simp: first_false_of_def Let_def split: if_splits)

lemma first_false_of_less: "first_false_of bs = Some k \<Longrightarrow> k < length bs"
  by (auto simp: first_false_of_def Let_def split: if_splits)

lemma first_false_of_None: "first_false_of bs = None \<longleftrightarrow> (\<forall>b\<in>set bs. b)"
  using takeWhile_id_all [of bs] length_takeWhile_le [of id bs]
  by (auto simp: first_false_of_def Let_def)

lemma cond_rep_push: "cond_rep c bs \<Longrightarrow> cond_rep (cond_push c b) (bs @ [b])"
  by (cases "first_false c") (simp_all add: cond_rep_def cond_push_def Let_def first_false_of_snoc split: option.split)

lemma cond_rep_pop: "cond_rep c (bs @ [b]) \<Longrightarrow> cond_rep (cond_pop c) bs"
  by (cases "first_false_of bs")
    (auto simp: cond_rep_def cond_pop_def Let_def first_false_of_snoc dest: first_false_of_less)

lemma cond_rep_toggle: "cond_rep c (bs @ [b]) \<Longrightarrow> cond_rep (cond_toggle_top c) (bs @ [\<not> b])"
  by (cases "first_false_of bs"; cases b)
    (auto simp: cond_rep_def cond_toggle_top_def first_false_of_snoc dest: first_false_of_less)

interpretation cs: condition_stack cond_rep cond_new cond_all_true cond_is_empty cond_push cond_pop
  cond_toggle_top
proof unfold_locales
  show "cond_rep cond_new []" by (simp add: cond_rep_def cond_new_def first_false_of_def)
  show "\<And>c bs. cond_rep c bs \<Longrightarrow> cond_all_true c \<longleftrightarrow> (\<forall>b\<in>set bs. b)"
    by (simp add: cond_rep_def cond_all_true_def first_false_of_None)
  show "\<And>c bs. cond_rep c bs \<Longrightarrow> cond_is_empty c \<longleftrightarrow> bs = []"
    by (simp add: cond_rep_def cond_is_empty_def)
qed (fact cond_rep_push cond_rep_pop cond_rep_toggle)+

end
