(* ===== verification/Eval.thy ===== *)
theory Eval
  imports Script_Num
begin

text \<open>
  The script evaluator (\<open>src/crates/script/src/eval.rs\<close>).  The mutable locals of
  \<open>eval_script\<close> are the record \<open>EvalState\<close>, its parameters the record \<open>EvalEnv\<close>.
  The \<open>match\<close> of \<open>dispatch\<close> is split into one definition per group of opcodes, each
  \<open>None\<close> on the opcodes of the other groups.  The signature checker is reached
  only through the four methods of \<open>checker_ops\<close>, and the shared signature cache
  its methods may write is the state of an \<open>sresult\<close>.  The hash functions are
  third-party code and are the record \<open>hashes\<close>.  After an error the stacks are
  discarded by every caller, so an error carries no state.
\<close>

section \<open>Parameters\<close>

abbreviation MAX_SCRIPT_SIZE :: nat where "MAX_SCRIPT_SIZE \<equiv> 10000"
abbreviation MAX_OPS_PER_SCRIPT :: nat where "MAX_OPS_PER_SCRIPT \<equiv> 201"
abbreviation MAX_PUBKEYS_PER_MULTISIG :: nat where "MAX_PUBKEYS_PER_MULTISIG \<equiv> 20"
abbreviation MAX_STACK_SIZE :: nat where "MAX_STACK_SIZE \<equiv> MAX_DEPTH"
abbreviation VALIDATION_WEIGHT_PER_SIGOP_PASSED :: int where "VALIDATION_WEIGHT_PER_SIGOP_PASSED \<equiv> 50"
abbreviation VALIDATION_WEIGHT_OFFSET :: int where "VALIDATION_WEIGHT_OFFSET \<equiv> 50"
abbreviation CODESEPARATOR_POSITION :: nat where "CODESEPARATOR_POSITION \<equiv> u32_max"

datatype SigVersion = Base | WitnessV0 | Tapscript

record hashes =
  sha256 :: "bytes \<Rightarrow> bytes"
  ripemd160 :: "bytes \<Rightarrow> bytes"
  sha1 :: "bytes \<Rightarrow> bytes"

record 'c checker_ops =
  ck_ecdsa :: "bytes \<Rightarrow> bytes \<Rightarrow> bytes \<Rightarrow> SigVersion \<Rightarrow> VerifyFlags \<Rightarrow> ('c, ScriptError, bool) sresult"
  ck_schnorr :: "bytes \<Rightarrow> bytes \<Rightarrow> hash256 option \<Rightarrow> nat \<Rightarrow> ('c, ScriptError, bool) sresult"
  ck_locktime :: "int \<Rightarrow> bool"
  ck_sequence :: "int \<Rightarrow> bool"

record CodeSeparator =
  sep_opcode_pos :: nat
  sep_byte_offset :: "nat option"

record EvalState =
  stk :: Stack
  altstack :: Stack
  conditions :: ConditionStack
  op_count :: nat
  weight_left :: "int option"
  code_separator :: CodeSeparator

record 'c EvalEnv =
  env_script :: bytes
  env_flags :: VerifyFlags
  env_checker :: "'c checker_ops"
  env_sigversion :: SigVersion
  env_tapleaf :: "hash256 option"
  env_hashes :: hashes

section \<open>Small helpers\<close>

definition inval_stk :: "StackError + 'a \<Rightarrow> ScriptError + 'a" where
  "inval_stk r = map_err (\<lambda>_. Invalid InvalidStackOperation) r"

definition full_stk :: "StackError + 'a \<Rightarrow> ScriptError + 'a" where
  "full_stk r = map_err (\<lambda>_. Invalid StackSize) r"

definition push_bytes :: "Stack \<Rightarrow> bytes \<Rightarrow> ScriptError + Stack" where
  "push_bytes s data = full_stk (stack_push s (Bytes data))"

definition push_item :: "ScriptItem \<Rightarrow> Stack \<Rightarrow> ScriptError + Stack" where
  "push_item item s = full_stk (stack_push s item)"

definition push_bool :: "Stack \<Rightarrow> bool \<Rightarrow> ScriptError + Stack" where
  "push_bool s b = push_bytes s (if b then [1] else [])"

definition handle_push_bytes ::
    "bytes \<Rightarrow> byte \<Rightarrow> bool \<Rightarrow> VerifyFlags \<Rightarrow> Stack \<Rightarrow> ScriptError + Stack" where
  "handle_push_bytes data opcode_byte conditions_true flags s =
     (if length data > MAX_SCRIPT_ELEMENT_SIZE then invalid PushSize
      else if conditions_true then
        (if contains flags MINIMALDATA \<and> \<not> minimal_push data opcode_byte then invalid MinimalData
         else push_bytes s data)
      else Inr s)"

definition is_disabled :: "byte \<Rightarrow> bool" where
  "is_disabled op \<longleftrightarrow> op \<in> {0x7e, 0x7f, 0x80, 0x81, 0x83, 0x84, 0x85, 0x86, 0x8d, 0x8e, 0x95, 0x96, 0x97, 0x98, 0x99}"

definition is_op_success :: "byte \<Rightarrow> bool" where
  "is_op_success op \<longleftrightarrow> op = 80 \<or> op = 98
     \<or> (op \<ge> 126 \<and> op \<le> 129)
     \<or> (op \<ge> 131 \<and> op \<le> 134)
     \<or> (op \<ge> 137 \<and> op \<le> 138)
     \<or> (op \<ge> 141 \<and> op \<le> 142)
     \<or> (op \<ge> 149 \<and> op \<le> 153)
     \<or> (op \<ge> 187 \<and> op \<le> 254)"

text \<open>\<open>check_opcode_rules\<close> returns the new operation count.\<close>

definition check_opcode_rules :: "byte \<Rightarrow> SigVersion \<Rightarrow> VerifyFlags \<Rightarrow> nat \<Rightarrow> ScriptError + nat" where
  "check_opcode_rules opcode_byte sigversion flags count =
     bindE (if (sigversion = Base \<or> sigversion = WitnessV0) \<and> opcode_byte > OP_PUSHNUM_16 then
              (if count + 1 > MAX_OPS_PER_SCRIPT then invalid OpCount else Inr (count + 1))
            else Inr count) (\<lambda>count'.
     if is_disabled opcode_byte then invalid DisabledOpcode
     else if opcode_byte = OP_CODESEPARATOR \<and> sigversion = Base \<and> contains flags CONST_SCRIPTCODE
       then invalid OpCodeSeparator
     else Inr count')"

definition check_stack_depth :: "Stack \<Rightarrow> Stack \<Rightarrow> ScriptError + unit" where
  "check_stack_depth s alt = (if stack_len s + stack_len alt > MAX_STACK_SIZE then invalid StackSize else Inr ())"

text \<open>The loop of \<open>tapscript_op_success\<close> over the instructions of the script.\<close>

fun op_success_scan :: "(EarlyEndOfScript + Instruction) list \<Rightarrow> VerifyFlags \<Rightarrow> ScriptError + bool" where
  "op_success_scan [] flags = Inr False"
| "op_success_scan (Inl _ # _) flags = invalid BadOpcode"
| "op_success_scan (Inr (PushBytes _) # rest) flags = op_success_scan rest flags"
| "op_success_scan (Inr (Op op) # rest) flags =
     (if is_op_success op then
        (if contains flags DISCOURAGE_OP_SUCCESS then invalid DiscourageOpSuccess else Inr True)
      else op_success_scan rest flags)"

definition tapscript_op_success :: "bytes \<Rightarrow> VerifyFlags \<Rightarrow> ScriptError + bool" where
  "tapscript_op_success script flags = op_success_scan (instr_items (instructions script)) flags"

section \<open>Opcodes that only touch the main stack\<close>

definition pushnum_op :: "byte \<Rightarrow> Stack \<Rightarrow> (ScriptError + Stack) option" where
  "pushnum_op op s =
     (if op = OP_1NEGATE then Some (push_bytes s (script_num_serialize (-1)))
      else case decode_pushnum op of
        Some value \<Rightarrow> Some (push_bytes s (script_num_serialize (uint value)))
      | None \<Rightarrow> None)"

definition op_cltv :: "'c checker_ops \<Rightarrow> VerifyFlags \<Rightarrow> Stack \<Rightarrow> ScriptError + Stack" where
  "op_cltv checker flags s =
     (if contains flags CHECKLOCKTIMEVERIFY then
        bindE (inval_stk (stack_peek s)) (\<lambda>top.
        bindE (script_num (item_bytes top) (contains flags MINIMALDATA) 5) (\<lambda>locktime.
        if locktime < 0 then invalid NegativeLocktime
        else if \<not> ck_locktime checker locktime then invalid UnsatisfiedLocktime
        else Inr s))
      else Inr s)"

definition op_csv :: "'c checker_ops \<Rightarrow> VerifyFlags \<Rightarrow> Stack \<Rightarrow> ScriptError + Stack" where
  "op_csv checker flags s =
     (if contains flags CHECKSEQUENCEVERIFY then
        bindE (inval_stk (stack_peek s)) (\<lambda>top.
        bindE (script_num (item_bytes top) (contains flags MINIMALDATA) 5) (\<lambda>sequence.
        if sequence < 0 then invalid NegativeLocktime
        else if sequence AND push_bit 31 1 = 0 \<and> \<not> ck_sequence checker sequence then invalid UnsatisfiedLocktime
        else Inr s))
      else Inr s)"

definition nop_op :: "'c checker_ops \<Rightarrow> VerifyFlags \<Rightarrow> byte \<Rightarrow> Stack \<Rightarrow> (ScriptError + Stack) option" where
  "nop_op checker flags op s =
     (if op = OP_NOP then Some (Inr s)
      else if op = OP_CHECKLOCKTIMEVERIFY then Some (op_cltv checker flags s)
      else if op = OP_CHECKSEQUENCEVERIFY then Some (op_csv checker flags s)
      else if op = OP_NOP1 \<or> (OP_NOP4 \<le> op \<and> op \<le> OP_NOP10) then
        Some (if contains flags DISCOURAGE_UPGRADABLE_NOPS then invalid DiscourageUpgradableNops else Inr s)
      else None)"

definition op_verify :: "Stack \<Rightarrow> ScriptError + Stack" where
  "op_verify s =
     bindE (inval_stk (stack_pop s)) (\<lambda>(top, s').
     if \<not> cast_to_bool (item_bytes top) then
       bindE (push_item top s') (\<lambda>_. invalid Verify)
     else Inr s')"

definition op_2drop :: "Stack \<Rightarrow> ScriptError + Stack" where
  "op_2drop s =
     bindE (inval_stk (stack_pop s)) (\<lambda>(_, s').
     bindE (inval_stk (stack_pop s')) (\<lambda>(_, s''). Inr s''))"

definition op_2dup :: "Stack \<Rightarrow> ScriptError + Stack" where
  "op_2dup s =
     bindE (inval_stk (stack_peek_at s 1)) (\<lambda>second.
     bindE (inval_stk (stack_peek s)) (\<lambda>first.
     bindE (push_item second s) (push_item first)))"

definition op_3dup :: "Stack \<Rightarrow> ScriptError + Stack" where
  "op_3dup s =
     bindE (inval_stk (stack_peek_at s 2)) (\<lambda>third.
     bindE (inval_stk (stack_peek_at s 1)) (\<lambda>second.
     bindE (inval_stk (stack_peek s)) (\<lambda>first.
     bindE (push_item third s) (\<lambda>s1.
     bindE (push_item second s1) (push_item first)))))"

definition op_2over :: "Stack \<Rightarrow> ScriptError + Stack" where
  "op_2over s =
     bindE (inval_stk (stack_peek_at s 3)) (\<lambda>pair_first.
     bindE (inval_stk (stack_peek_at s 2)) (\<lambda>pair_second.
     bindE (push_item pair_first s) (push_item pair_second)))"

fun push_items :: "ScriptItem list \<Rightarrow> Stack \<Rightarrow> ScriptError + Stack" where
  "push_items [] s = Inr s"
| "push_items (item # items) s = bindE (push_item item s) (push_items items)"

text \<open>\<open>drain(6)\<close> yields exactly six items, so the \<open>unreachable!\<close> branches have no counterpart.\<close>

definition op_2rot :: "Stack \<Rightarrow> ScriptError + Stack" where
  "op_2rot s =
     bindE (inval_stk (stack_drain s 6)) (\<lambda>(top_six, s').
     let x1 = top_six ! 0; x2 = top_six ! 1 in
     bindE (push_items (drop 2 top_six) s') (\<lambda>s''.
     bindE (push_item x1 s'') (push_item x2)))"

definition op_2swap :: "Stack \<Rightarrow> ScriptError + Stack" where
  "op_2swap s = bindE (inval_stk (stack_swap_at s 3 1)) (\<lambda>s'. inval_stk (stack_swap_at s' 2 0))"

definition op_ifdup :: "Stack \<Rightarrow> ScriptError + Stack" where
  "op_ifdup s =
     bindE (inval_stk (stack_peek s)) (\<lambda>top.
     if cast_to_bool (item_bytes top) then push_item top s else Inr s)"

definition op_depth :: "Stack \<Rightarrow> ScriptError + Stack" where
  "op_depth s = push_bytes s (script_num_serialize (int (stack_len s)))"

definition op_dup :: "Stack \<Rightarrow> ScriptError + Stack" where
  "op_dup s = bindE (inval_stk (stack_peek s)) (\<lambda>top. push_item top s)"

definition op_nip :: "Stack \<Rightarrow> ScriptError + Stack" where
  "op_nip s =
     bindE (inval_stk (stack_pop s)) (\<lambda>(top, s').
     bindE (inval_stk (stack_remove_at s' 0)) (\<lambda>(_, s''). push_item top s''))"

definition op_over :: "Stack \<Rightarrow> ScriptError + Stack" where
  "op_over s = bindE (inval_stk (stack_peek_at s 1)) (\<lambda>second. push_item second s)"

definition op_pick_roll :: "bool \<Rightarrow> byte \<Rightarrow> Stack \<Rightarrow> ScriptError + Stack" where
  "op_pick_roll require_minimal op s =
     bindE (inval_stk (stack_pop s)) (\<lambda>(n_item, s').
     bindE (script_num (item_bytes n_item) require_minimal 4) (\<lambda>n.
     if n < 0 then invalid InvalidStackOperation
     else let depth = nat n in
       if depth \<ge> stack_len s' then invalid InvalidStackOperation
       else if op = OP_PICK then
         bindE (inval_stk (stack_peek_at s' depth)) (\<lambda>item. push_item item s')
       else inval_stk (stack_roll s' depth)))"

definition op_rot :: "Stack \<Rightarrow> ScriptError + Stack" where
  "op_rot s = bindE (inval_stk (stack_remove_at s 2)) (\<lambda>(x1, s'). push_item x1 s')"

definition op_tuck :: "Stack \<Rightarrow> ScriptError + Stack" where
  "op_tuck s = bindE (inval_stk (stack_peek s)) (\<lambda>top. inval_stk (stack_insert_at s 2 top))"

definition op_size :: "Stack \<Rightarrow> ScriptError + Stack" where
  "op_size s =
     bindE (inval_stk (stack_peek s)) (\<lambda>top.
     push_bytes s (script_num_serialize (int (length (item_bytes top)))))"

definition stack_op :: "bool \<Rightarrow> byte \<Rightarrow> Stack \<Rightarrow> (ScriptError + Stack) option" where
  "stack_op require_minimal op s =
     (if op = OP_2DROP then Some (op_2drop s)
      else if op = OP_2DUP then Some (op_2dup s)
      else if op = OP_3DUP then Some (op_3dup s)
      else if op = OP_2OVER then Some (op_2over s)
      else if op = OP_2ROT then Some (op_2rot s)
      else if op = OP_2SWAP then Some (op_2swap s)
      else if op = OP_IFDUP then Some (op_ifdup s)
      else if op = OP_DEPTH then Some (op_depth s)
      else if op = OP_DROP then Some (bindE (inval_stk (stack_pop s)) (\<lambda>(_, s'). Inr s'))
      else if op = OP_DUP then Some (op_dup s)
      else if op = OP_NIP then Some (op_nip s)
      else if op = OP_OVER then Some (op_over s)
      else if op = OP_PICK \<or> op = OP_ROLL then Some (op_pick_roll require_minimal op s)
      else if op = OP_ROT then Some (op_rot s)
      else if op = OP_SWAP then Some (inval_stk (stack_swap_at s 0 1))
      else if op = OP_TUCK then Some (op_tuck s)
      else if op = OP_SIZE then Some (op_size s)
      else None)"

definition op_equal :: "byte \<Rightarrow> Stack \<Rightarrow> ScriptError + Stack" where
  "op_equal op s =
     bindE (inval_stk (stack_pop s)) (\<lambda>(second, s1).
     bindE (inval_stk (stack_pop s1)) (\<lambda>(first, s2).
     let equal = (item_bytes first = item_bytes second) in
     bindE (push_bool s2 equal) (\<lambda>s3.
     if op = OP_EQUALVERIFY then
       (if equal then bindE (inval_stk (stack_pop s3)) (\<lambda>(_, s4). Inr s4) else invalid EqualVerify)
     else Inr s3)))"

definition of_i64_bool :: "bool \<Rightarrow> int" where
  "of_i64_bool b = (if b then 1 else 0)"

definition unary_result :: "byte \<Rightarrow> int \<Rightarrow> int option" where
  "unary_result op value =
     (if op = OP_1ADD then checked_i64 (value + 1)
      else if op = OP_1SUB then checked_i64 (value - 1)
      else if op = OP_NEGATE then checked_i64 (- value)
      else if op = OP_ABS then Some \<bar>value\<bar>
      else if op = OP_NOT then Some (of_i64_bool (value = 0))
      else Some (of_i64_bool (value \<noteq> 0)))"

definition op_unary :: "bool \<Rightarrow> byte \<Rightarrow> Stack \<Rightarrow> ScriptError + Stack" where
  "op_unary require_minimal op s =
     bindE (inval_stk (stack_pop s)) (\<lambda>(top, s1).
     bindE (script_num (item_bytes top) require_minimal 4) (\<lambda>value.
     bindE (ok_or (Invalid ScriptNum) (unary_result op value)) (\<lambda>result.
     push_bytes s1 (script_num_serialize result))))"

definition binary_result :: "byte \<Rightarrow> int \<Rightarrow> int \<Rightarrow> int option" where
  "binary_result op b1 b2 =
     (if op = OP_ADD then checked_i64 (b1 + b2)
      else if op = OP_SUB then checked_i64 (b1 - b2)
      else if op = OP_BOOLAND then Some (of_i64_bool (b1 \<noteq> 0 \<and> b2 \<noteq> 0))
      else if op = OP_BOOLOR then Some (of_i64_bool (b1 \<noteq> 0 \<or> b2 \<noteq> 0))
      else if op = OP_NUMEQUAL \<or> op = OP_NUMEQUALVERIFY then Some (of_i64_bool (b1 = b2))
      else if op = OP_NUMNOTEQUAL then Some (of_i64_bool (b1 \<noteq> b2))
      else if op = OP_LESSTHAN then Some (of_i64_bool (b1 < b2))
      else if op = OP_GREATERTHAN then Some (of_i64_bool (b1 > b2))
      else if op = OP_LESSTHANOREQUAL then Some (of_i64_bool (b1 \<le> b2))
      else if op = OP_GREATERTHANOREQUAL then Some (of_i64_bool (b1 \<ge> b2))
      else if op = OP_MIN then Some (min b1 b2)
      else Some (max b1 b2))"

definition op_binary :: "bool \<Rightarrow> byte \<Rightarrow> Stack \<Rightarrow> ScriptError + Stack" where
  "op_binary require_minimal op s =
     bindE (inval_stk (stack_pop s)) (\<lambda>(second, s1).
     bindE (inval_stk (stack_pop s1)) (\<lambda>(first, s2).
     bindE (script_num (item_bytes first) require_minimal 4) (\<lambda>b1.
     bindE (script_num (item_bytes second) require_minimal 4) (\<lambda>b2.
     bindE (ok_or (Invalid ScriptNum) (binary_result op b1 b2)) (\<lambda>result.
     bindE (push_bytes s2 (script_num_serialize result)) (\<lambda>s3.
     if op = OP_NUMEQUALVERIFY then
       bindE (inval_stk (stack_peek s3)) (\<lambda>top.
       if cast_to_bool (item_bytes top) then bindE (inval_stk (stack_pop s3)) (\<lambda>(_, s4). Inr s4)
       else invalid NumEqualVerify)
     else Inr s3))))))"

definition op_within :: "bool \<Rightarrow> Stack \<Rightarrow> ScriptError + Stack" where
  "op_within require_minimal s =
     bindE (inval_stk (stack_pop s)) (\<lambda>(third, s1).
     bindE (inval_stk (stack_pop s1)) (\<lambda>(second, s2).
     bindE (inval_stk (stack_pop s2)) (\<lambda>(first, s3).
     bindE (script_num (item_bytes first) require_minimal 4) (\<lambda>x.
     bindE (script_num (item_bytes second) require_minimal 4) (\<lambda>lo.
     bindE (script_num (item_bytes third) require_minimal 4) (\<lambda>hi.
     push_bool s3 (lo \<le> x \<and> x < hi)))))))"

definition hash_bytes :: "hashes \<Rightarrow> byte \<Rightarrow> bytes \<Rightarrow> bytes" where
  "hash_bytes h op data =
     (if op = OP_RIPEMD160 then ripemd160 h data
      else if op = OP_SHA1 then sha1 h data
      else if op = OP_SHA256 then sha256 h data
      else if op = OP_HASH160 then ripemd160 h (sha256 h data)
      else sha256 h (sha256 h data))"

definition op_hash :: "hashes \<Rightarrow> byte \<Rightarrow> Stack \<Rightarrow> ScriptError + Stack" where
  "op_hash h op s =
     bindE (inval_stk (stack_pop s)) (\<lambda>(top, s1).
     push_bytes s1 (hash_bytes h op (item_bytes top)))"

definition is_unary_op :: "byte \<Rightarrow> bool" where
  "is_unary_op op \<longleftrightarrow> op = OP_1ADD \<or> op = OP_1SUB \<or> op = OP_NEGATE \<or> op = OP_ABS \<or> op = OP_NOT \<or> op = OP_0NOTEQUAL"

definition is_binary_op :: "byte \<Rightarrow> bool" where
  "is_binary_op op \<longleftrightarrow> op = OP_ADD \<or> op = OP_SUB \<or> op = OP_BOOLAND \<or> op = OP_BOOLOR \<or> op = OP_NUMEQUAL
     \<or> op = OP_NUMEQUALVERIFY \<or> op = OP_NUMNOTEQUAL \<or> op = OP_LESSTHAN \<or> op = OP_GREATERTHAN
     \<or> op = OP_LESSTHANOREQUAL \<or> op = OP_GREATERTHANOREQUAL \<or> op = OP_MIN \<or> op = OP_MAX"

definition is_hash_op :: "byte \<Rightarrow> bool" where
  "is_hash_op op \<longleftrightarrow> op = OP_RIPEMD160 \<or> op = OP_SHA1 \<or> op = OP_SHA256 \<or> op = OP_HASH160 \<or> op = OP_HASH256"

definition arith_op :: "hashes \<Rightarrow> bool \<Rightarrow> byte \<Rightarrow> Stack \<Rightarrow> (ScriptError + Stack) option" where
  "arith_op h require_minimal op s =
     (if op = OP_EQUAL \<or> op = OP_EQUALVERIFY then Some (op_equal op s)
      else if is_unary_op op then Some (op_unary require_minimal op s)
      else if is_binary_op op then Some (op_binary require_minimal op s)
      else if op = OP_WITHIN then Some (op_within require_minimal s)
      else if is_hash_op op then Some (op_hash h op s)
      else None)"

section \<open>Control flow and the alternative stack\<close>

definition op_if :: "'c EvalEnv \<Rightarrow> bool \<Rightarrow> byte \<Rightarrow> EvalState \<Rightarrow> ScriptError + EvalState" where
  "op_if env f_exec op st =
     (if f_exec then
        bindE (inval_stk (stack_pop (stk st))) (\<lambda>(top, s').
        let bs = item_bytes top in
        if env_sigversion env = Tapscript \<and> (length bs > 1 \<or> (length bs = 1 \<and> bs ! 0 \<noteq> 1)) then
          invalid TapscriptMinimalIf
        else if env_sigversion env = WitnessV0 \<and> contains (env_flags env) MINIMALIF
            \<and> (length bs > 1 \<or> (length bs = 1 \<and> bs ! 0 \<noteq> 1)) then
          invalid MinimalIf
        else let parsed = cast_to_bool bs; value = (if op = OP_NOTIF then \<not> parsed else parsed) in
          Inr (st\<lparr>stk := s', conditions := cond_push (conditions st) value\<rparr>))
      else Inr (st\<lparr>conditions := cond_push (conditions st) False\<rparr>))"

definition flow_op :: "'c EvalEnv \<Rightarrow> bool \<Rightarrow> byte \<Rightarrow> EvalState \<Rightarrow> (ScriptError + EvalState) option" where
  "flow_op env f_exec op st =
     (if op = OP_IF \<or> op = OP_NOTIF then Some (op_if env f_exec op st)
      else if op = OP_ELSE then
        Some (if cond_is_empty (conditions st) then invalid UnbalancedConditional
              else Inr (st\<lparr>conditions := cond_toggle_top (conditions st)\<rparr>))
      else if op = OP_ENDIF then
        Some (if cond_is_empty (conditions st) then invalid UnbalancedConditional
              else Inr (st\<lparr>conditions := cond_pop (conditions st)\<rparr>))
      else None)"

definition op_toaltstack :: "EvalState \<Rightarrow> ScriptError + EvalState" where
  "op_toaltstack st =
     bindE (inval_stk (stack_pop (stk st))) (\<lambda>(top, s').
     bindE (map_err (\<lambda>_. Invalid InvalidAltstackOperation) (stack_push (altstack st) top)) (\<lambda>alt'.
     Inr (st\<lparr>stk := s', altstack := alt'\<rparr>)))"

definition op_fromaltstack :: "EvalState \<Rightarrow> ScriptError + EvalState" where
  "op_fromaltstack st =
     bindE (map_err (\<lambda>_. Invalid InvalidAltstackOperation) (stack_pop (altstack st))) (\<lambda>(top, alt').
     bindE (push_bytes (stk st) (item_bytes top)) (\<lambda>s'.
     Inr (st\<lparr>stk := s', altstack := alt'\<rparr>)))"

section \<open>Signature opcodes\<close>

definition script_code :: "nat option \<Rightarrow> bytes \<Rightarrow> bytes" where
  "script_code byte_offset script = (case byte_offset of
     None \<Rightarrow> script
   | Some start \<Rightarrow> (case get_from script start of Some code \<Rightarrow> code | None \<Rightarrow> []))"

function remove_all_loop :: "bytes \<Rightarrow> bytes \<Rightarrow> Instructions \<Rightarrow> nat \<Rightarrow> bytes \<Rightarrow> nat \<Rightarrow> bytes \<times> nat" where
  "remove_all_loop haystack needle it start out removed = (case instr_next it of
     (None, _) \<Rightarrow> (out, removed)
   | (Some item, it') \<Rightarrow>
       let end_pos = (case item of Inl _ \<Rightarrow> length haystack | Inr _ \<Rightarrow> length haystack - length (remaining it')) in
       if slice haystack start end_pos = needle then
         remove_all_loop haystack needle it' end_pos out (removed + 1)
       else
         remove_all_loop haystack needle it' end_pos (out @ slice haystack start end_pos) removed)"
  by pat_completeness auto

termination
  by (relation "measure (\<lambda>(_, _, it, _, _, _). instr_left it)")
    (auto dest!: sym [of "(_, _)"] instr_next_left)

declare remove_all_loop.simps [simp del]

definition remove_all :: "bytes \<Rightarrow> bytes \<Rightarrow> bytes \<times> nat" where
  "remove_all haystack needle =
     (if needle = [] then (haystack, 0) else remove_all_loop haystack needle (instructions haystack) 0 [] 0)"

text \<open>\<open>eval_checksig\<close> returns the outcome and the validation weight left.\<close>

definition eval_checksig ::
    "'c EvalEnv \<Rightarrow> bytes \<Rightarrow> bytes \<Rightarrow> CodeSeparator \<Rightarrow> int option \<Rightarrow> ('c, ScriptError, bool \<times> int option) sresult" where
  "eval_checksig env sig pubkey separator weight =
     (if env_sigversion env = Base \<or> env_sigversion env = WitnessV0 then
        bindS (liftS
          (let code = script_code (sep_byte_offset separator) (env_script env) in
           if env_sigversion env = Base then
             (case remove_all code (push_data sig) of (cleaned, found) \<Rightarrow>
                if found > 0 \<and> contains (env_flags env) CONST_SCRIPTCODE then invalid SigFindAndDelete
                else Inr cleaned)
           else Inr code)) (\<lambda>code.
        bindS (ck_ecdsa (env_checker env) sig pubkey code (env_sigversion env) (env_flags env)) (\<lambda>success.
        if \<not> success \<and> contains (env_flags env) NULLFAIL \<and> sig \<noteq> [] then liftS (invalid SigNullFail)
        else liftS (Inr (success, weight))))
      else
        bindS (liftS
          (if sig \<noteq> [] then
             (case weight of
                Some left \<Rightarrow>
                  let left' = left - VALIDATION_WEIGHT_PER_SIGOP_PASSED in
                  if left' < 0 then invalid TapscriptValidationWeight else Inr (Some left')
              | None \<Rightarrow> Inr None)
           else Inr weight)) (\<lambda>weight'.
        if pubkey = [] then liftS (invalid TapscriptEmptyPubkey)
        else if length pubkey = 32 then
          (if sig \<noteq> [] then
             bindS (ck_schnorr (env_checker env) sig pubkey (env_tapleaf env) (sep_opcode_pos separator))
               (\<lambda>success. liftS (Inr (success, weight')))
           else liftS (Inr (False, weight')))
        else if contains (env_flags env) DISCOURAGE_UPGRADABLE_PUBKEYTYPE then
          liftS (invalid DiscourageUpgradablePubkeyType)
        else liftS (Inr (sig \<noteq> [], weight'))))"

definition op_checksig :: "'c EvalEnv \<Rightarrow> byte \<Rightarrow> EvalState \<Rightarrow> ('c, ScriptError, EvalState) sresult" where
  "op_checksig env op st =
     bindS (liftS (
       bindE (inval_stk (stack_pop (stk st))) (\<lambda>(pubkey, s1).
       bindE (inval_stk (stack_pop s1)) (\<lambda>(sig, s2). Inr (pubkey, sig, s2))))) (\<lambda>(pubkey, sig, s2).
     bindS (eval_checksig env (item_bytes sig) (item_bytes pubkey) (code_separator st) (weight_left st))
       (\<lambda>(success, weight).
     liftS (
       bindE (push_bool s2 success) (\<lambda>s3.
       bindE (if op = OP_CHECKSIGVERIFY then
                (if success then bindE (inval_stk (stack_pop s3)) (\<lambda>(_, s4). Inr s4) else invalid CheckSigVerify)
              else Inr s3) (\<lambda>s4.
       Inr (st\<lparr>stk := s4, weight_left := weight\<rparr>))))))"

definition op_checksigadd :: "'c EvalEnv \<Rightarrow> EvalState \<Rightarrow> ('c, ScriptError, EvalState) sresult" where
  "op_checksigadd env st =
     (if env_sigversion env = Base \<or> env_sigversion env = WitnessV0 then liftS (invalid BadOpcode)
      else
        bindS (liftS (
          bindE (inval_stk (stack_pop (stk st))) (\<lambda>(pubkey, s1).
          bindE (inval_stk (stack_pop s1)) (\<lambda>(num, s2).
          bindE (inval_stk (stack_pop s2)) (\<lambda>(sig, s3).
          bindE (script_num (item_bytes num) (contains (env_flags env) MINIMALDATA) 4) (\<lambda>value.
          Inr (pubkey, value, sig, s3))))))) (\<lambda>(pubkey, value, sig, s3).
        bindS (eval_checksig env (item_bytes sig) (item_bytes pubkey) (code_separator st) (weight_left st))
          (\<lambda>(success, weight).
        liftS (
          bindE (ok_or (Invalid ScriptNum) (checked_i64 (value + of_i64_bool success))) (\<lambda>result.
          bindE (push_bytes s3 (script_num_serialize result)) (\<lambda>s4.
          Inr (st\<lparr>stk := s4, weight_left := weight\<rparr>)))))))"

section \<open>Multisig\<close>

text \<open>The counts at the top of the stack: keys, signatures and the new operation count.\<close>

definition multisig_counts :: "bool \<Rightarrow> Stack \<Rightarrow> nat \<Rightarrow> ScriptError + nat \<times> nat \<times> nat" where
  "multisig_counts require_minimal s count =
     (if stack_is_empty s then invalid InvalidStackOperation
      else
        bindE (inval_stk (stack_peek s)) (\<lambda>top.
        bindE (script_num (item_bytes top) require_minimal 4) (\<lambda>n_keys.
        if n_keys < 0 then invalid PubkeyCount
        else let keys = nat n_keys in
        if keys > MAX_PUBKEYS_PER_MULTISIG then invalid PubkeyCount
        else let count' = count + keys in
        if count' > MAX_OPS_PER_SCRIPT then invalid OpCount
        else if stack_len s < keys + 2 then invalid InvalidStackOperation
        else
          bindE (inval_stk (stack_peek_at s (keys + 1))) (\<lambda>sigs_item.
          bindE (script_num (item_bytes sigs_item) require_minimal 4) (\<lambda>n_sigs.
          if n_sigs < 0 \<or> n_sigs > n_keys then invalid SigCount
          else let sigs = nat n_sigs in
          if stack_len s < keys + sigs + 3 then invalid InvalidStackOperation
          else Inr (keys, sigs, count'))))))"

text \<open>The loop that deletes every signature from the script code: \<open>index\<close> runs to \<open>sigs\<close>.\<close>

fun multisig_clean :: "VerifyFlags \<Rightarrow> Stack \<Rightarrow> nat \<Rightarrow> nat list \<Rightarrow> bytes \<Rightarrow> ScriptError + bytes" where
  "multisig_clean flags s keys [] code = Inr code"
| "multisig_clean flags s keys (index # indices) code =
     bindE (inval_stk (stack_peek_at s (keys + 2 + index))) (\<lambda>sig_item.
     case remove_all code (push_data (item_bytes sig_item)) of (cleaned, found) \<Rightarrow>
       if found > 0 \<and> contains flags CONST_SCRIPTCODE then invalid SigFindAndDelete
       else multisig_clean flags s keys indices cleaned)"

text \<open>The matching loop: signatures and keys are walked from the top of the stack down.\<close>

function multisig_match ::
    "'c EvalEnv \<Rightarrow> Stack \<Rightarrow> bytes \<Rightarrow> bool \<Rightarrow> nat \<Rightarrow> nat \<Rightarrow> nat \<Rightarrow> nat \<Rightarrow> ('c, ScriptError, bool) sresult" where
  "multisig_match env s code success keys_left sigs_left key_depth sig_depth c =
     (if success \<and> sigs_left > 0 then
        (case inval_stk (stack_peek_at s sig_depth) of
           Inl e \<Rightarrow> (Inl e, c)
         | Inr sig_item \<Rightarrow>
             (case inval_stk (stack_peek_at s key_depth) of
                Inl e \<Rightarrow> (Inl e, c)
              | Inr key_item \<Rightarrow>
                  (case ck_ecdsa (env_checker env) (item_bytes sig_item) (item_bytes key_item) code
                      (env_sigversion env) (env_flags env) c of
                     (Inl e, c') \<Rightarrow> (Inl e, c')
                   | (Inr ok, c') \<Rightarrow>
                       let sig_depth' = (if ok then sig_depth + 1 else sig_depth);
                           sigs_left' = (if ok then sigs_left - 1 else sigs_left);
                           keys_left' = keys_left - 1 in
                       multisig_match env s code (\<not> sigs_left' > keys_left') keys_left' sigs_left'
                         (key_depth + 1) sig_depth' c')))
      else (Inr success, c))"
  by pat_completeness auto

termination
  by (relation "measure (\<lambda>(_, _, _, success, keys_left, sigs_left, _, _, _).
        if success \<and> sigs_left > 0 then keys_left + 1 else 0)") auto

declare multisig_match.simps [simp del]

text \<open>The loop that pops the arguments, with the null-fail rule on the signatures.\<close>

fun multisig_pop :: "VerifyFlags \<Rightarrow> bool \<Rightarrow> nat \<Rightarrow> nat \<Rightarrow> Stack \<Rightarrow> ScriptError + Stack" where
  "multisig_pop flags success sigs 0 s = Inr s"
| "multisig_pop flags success sigs (Suc args) s =
     bindE (if \<not> success \<and> contains flags NULLFAIL \<and> Suc args \<le> sigs then
              bindE (inval_stk (stack_peek s)) (\<lambda>top.
              if item_bytes top \<noteq> [] then invalid SigNullFail else Inr ())
            else Inr ()) (\<lambda>_.
     bindE (inval_stk (stack_pop s)) (\<lambda>(_, s').
     multisig_pop flags success sigs args s'))"

definition multisig_finish :: "VerifyFlags \<Rightarrow> bool \<Rightarrow> bool \<Rightarrow> Stack \<Rightarrow> ScriptError + Stack" where
  "multisig_finish flags success verify_only s =
     (if stack_is_empty s then invalid InvalidStackOperation
      else
        bindE (if contains flags NULLDUMMY then
                 bindE (inval_stk (stack_peek s)) (\<lambda>dummy.
                 if item_bytes dummy \<noteq> [] then invalid SigNullDummy else Inr ())
               else Inr ()) (\<lambda>_.
        bindE (inval_stk (stack_pop s)) (\<lambda>(_, s1).
        bindE (push_bool s1 success) (\<lambda>s2.
        if verify_only then
          (if success then bindE (inval_stk (stack_pop s2)) (\<lambda>(_, s3). Inr s3) else invalid CheckMultisigVerify)
        else Inr s2))))"

definition check_multisig :: "'c EvalEnv \<Rightarrow> bool \<Rightarrow> EvalState \<Rightarrow> ('c, ScriptError, EvalState) sresult" where
  "check_multisig env verify_only st =
     bindS (liftS (multisig_counts (contains (env_flags env) MINIMALDATA) (stk st) (op_count st)))
       (\<lambda>(keys, sigs, count').
     bindS (liftS (
       let code = script_code (sep_byte_offset (code_separator st)) (env_script env) in
       if env_sigversion env = Base then multisig_clean (env_flags env) (stk st) keys [0..<sigs] code
       else Inr code)) (\<lambda>code.
     bindS (multisig_match env (stk st) code True keys sigs 1 (keys + 2)) (\<lambda>success.
     liftS (
       bindE (multisig_pop (env_flags env) success sigs (keys + sigs + 2) (stk st)) (\<lambda>s1.
       bindE (multisig_finish (env_flags env) success verify_only s1) (\<lambda>s2.
       Inr (st\<lparr>stk := s2, op_count := count'\<rparr>)))))))"

definition op_checkmultisig :: "'c EvalEnv \<Rightarrow> byte \<Rightarrow> EvalState \<Rightarrow> ('c, ScriptError, EvalState) sresult" where
  "op_checkmultisig env op st =
     (if env_sigversion env = Tapscript then liftS (invalid TapscriptCheckMultiSig)
      else check_multisig env (op = OP_CHECKMULTISIGVERIFY) st)"

section \<open>Dispatch and the evaluation loop\<close>

text \<open>The opcodes that only change the main stack, in the order of the source.\<close>

definition pure_op :: "'c EvalEnv \<Rightarrow> byte \<Rightarrow> Stack \<Rightarrow> (ScriptError + Stack) option" where
  "pure_op env op s =
     (let require_minimal = contains (env_flags env) MINIMALDATA in
      case pushnum_op op s of
        Some r \<Rightarrow> Some r
      | None \<Rightarrow> (case nop_op (env_checker env) (env_flags env) op s of
          Some r \<Rightarrow> Some r
        | None \<Rightarrow>
            if op = OP_VERIFY then Some (op_verify s)
            else if op = OP_RETURN then Some (invalid OpReturn)
            else (case stack_op require_minimal op s of
                Some r \<Rightarrow> Some r
              | None \<Rightarrow> arith_op (env_hashes env) require_minimal op s)))"

definition dispatch ::
    "'c EvalEnv \<Rightarrow> byte \<Rightarrow> bool \<Rightarrow> nat \<Rightarrow> nat \<Rightarrow> EvalState \<Rightarrow> ('c, ScriptError, EvalState) sresult" where
  "dispatch env op f_exec opcode_pos instruction_start st =
     (case pure_op env op (stk st) of
        Some r \<Rightarrow> liftS (bindE r (\<lambda>s'. Inr (st\<lparr>stk := s'\<rparr>)))
      | None \<Rightarrow> (case flow_op env f_exec op st of
          Some r \<Rightarrow> liftS r
        | None \<Rightarrow>
            if op = OP_TOALTSTACK then liftS (op_toaltstack st)
            else if op = OP_FROMALTSTACK then liftS (op_fromaltstack st)
            else if op = OP_CODESEPARATOR then
              liftS (Inr (st\<lparr>code_separator :=
                \<lparr> sep_opcode_pos = opcode_pos, sep_byte_offset = Some (instruction_start + 1) \<rparr>\<rparr>))
            else if op = OP_CHECKSIG \<or> op = OP_CHECKSIGVERIFY then op_checksig env op st
            else if op = OP_CHECKSIGADD then op_checksigadd env st
            else if op = OP_CHECKMULTISIG \<or> op = OP_CHECKMULTISIGVERIFY then op_checkmultisig env op st
            else liftS (invalid BadOpcode)))"

text \<open>One iteration of the loop of \<open>eval_script\<close>, up to the stack depth check.\<close>

definition eval_instruction ::
    "'c EvalEnv \<Rightarrow> Instruction \<Rightarrow> nat \<Rightarrow> nat \<Rightarrow> EvalState \<Rightarrow> ('c, ScriptError, EvalState) sresult" where
  "eval_instruction env instruction opcode_pos instruction_start st = (case instruction of
     PushBytes data \<Rightarrow>
       liftS (
         bindE (ok_or (Invalid BadOpcode) (get_at (env_script env) instruction_start)) (\<lambda>opcode_byte.
         bindE (handle_push_bytes data opcode_byte (cond_all_true (conditions st)) (env_flags env) (stk st)) (\<lambda>s'.
         Inr (st\<lparr>stk := s'\<rparr>))))
   | Op opcode_byte \<Rightarrow>
       bindS (liftS (check_opcode_rules opcode_byte (env_sigversion env) (env_flags env) (op_count st))) (\<lambda>count'.
       let st' = st\<lparr>op_count := count'\<rparr>; f_exec = cond_all_true (conditions st) in
       if f_exec \<or> (OP_IF \<le> opcode_byte \<and> opcode_byte \<le> OP_ENDIF) then
         dispatch env opcode_byte f_exec opcode_pos instruction_start st'
       else liftS (Inr st')))"

function eval_loop ::
    "'c EvalEnv \<Rightarrow> Instructions \<Rightarrow> nat \<Rightarrow> nat \<Rightarrow> EvalState \<Rightarrow> ('c, ScriptError, EvalState) sresult" where
  "eval_loop env it opcode_pos instruction_start st c = (case instr_next it of
     (None, _) \<Rightarrow> (Inr st, c)
   | (Some (Inl _), _) \<Rightarrow> (invalid BadOpcode, c)
   | (Some (Inr instruction), it') \<Rightarrow>
       (case eval_instruction env instruction opcode_pos instruction_start st c of
          (Inl e, c') \<Rightarrow> (Inl e, c')
        | (Inr st', c') \<Rightarrow>
            (case check_stack_depth (stk st') (altstack st') of
               Inl e \<Rightarrow> (Inl e, c')
             | Inr _ \<Rightarrow>
                 eval_loop env it' (sat_add32 opcode_pos 1)
                   (length (env_script env) - length (remaining it')) st' c')))"
  by pat_completeness auto

termination
  by (relation "measure (\<lambda>(_, it, _, _, _, _). instr_left it)")
    (auto dest!: sym [of "(_, _)"] instr_next_left)

declare eval_loop.simps [simp del]

definition initial_state :: "Stack \<Rightarrow> int option \<Rightarrow> EvalState" where
  "initial_state s weight =
     \<lparr> stk = s, altstack = stack_new, conditions = cond_new, op_count = 0, weight_left = weight,
       code_separator = \<lparr> sep_opcode_pos = CODESEPARATOR_POSITION, sep_byte_offset = None \<rparr> \<rparr>"

text \<open>\<open>eval_script\<close> returns the stack and the validation weight it leaves.\<close>

definition eval_script ::
    "'c EvalEnv \<Rightarrow> Stack \<Rightarrow> int option \<Rightarrow> ('c, ScriptError, Stack \<times> int option) sresult" where
  "eval_script env s weight =
     (if (env_sigversion env = Base \<or> env_sigversion env = WitnessV0)
         \<and> length (env_script env) > MAX_SCRIPT_SIZE
      then liftS (invalid ScriptSize)
      else
        bindS (eval_loop env (instructions (env_script env)) 0 0 (initial_state s weight)) (\<lambda>st.
        if \<not> cond_is_empty (conditions st) then liftS (invalid UnbalancedConditional)
        else liftS (Inr (stk st, weight_left st))))"

end
