(* ===== verification/Eval_Inv.thy ===== *)
theory Eval_Inv
  imports Eval
begin

text \<open>
  The resource invariant of the evaluator: after every instruction the two
  stacks together hold at most 1000 items, every item is at most 520 bytes
  long, and at most 201 operations have been counted.
\<close>

section \<open>Item sizes\<close>

definition small :: "ScriptItem \<Rightarrow> bool" where
  "small x \<longleftrightarrow> length (item_bytes x) \<le> MAX_SCRIPT_ELEMENT_SIZE"

definition small_items :: "Stack \<Rightarrow> bool" where
  "small_items s \<longleftrightarrow> (\<forall>x\<in>set s. small x)"

text \<open>Digest sizes, which the evaluator relies on to push a digest without a size check.\<close>

definition hashes_small :: "hashes \<Rightarrow> bool" where
  "hashes_small h \<longleftrightarrow>
     (\<forall>d. length (sha256 h d) \<le> MAX_SCRIPT_ELEMENT_SIZE \<and> length (ripemd160 h d) \<le> MAX_SCRIPT_ELEMENT_SIZE
        \<and> length (sha1 h d) \<le> MAX_SCRIPT_ELEMENT_SIZE)"

lemma inval_stk_Inr [simp]: "inval_stk r = Inr x \<longleftrightarrow> r = Inr x"
  by (simp add: inval_stk_def)

lemma inval_stk_of_Inr [simp]: "inval_stk (Inr x) = Inr x"
  by (simp add: inval_stk_def)

lemma full_stk_Inr [simp]: "full_stk r = Inr x \<longleftrightarrow> r = Inr x"
  by (simp add: full_stk_def)

lemma small_Bytes [simp]: "small (Bytes bs) \<longleftrightarrow> length bs \<le> MAX_SCRIPT_ELEMENT_SIZE"
  by (simp add: small_def item_bytes_def)

lemma small_push: "stack_push s x = Inr s' \<Longrightarrow> small_items s \<Longrightarrow> small x \<Longrightarrow> small_items s'"
  using st.push_items [of s x s'] by (simp add: small_items_def)

lemma small_pop: "stack_pop s = Inr (x, s') \<Longrightarrow> small_items s \<Longrightarrow> small x \<and> small_items s'"
  using st.pop_items [of s x s'] by (auto simp: small_items_def)

lemma small_peek_at: "stack_peek_at s d = Inr x \<Longrightarrow> small_items s \<Longrightarrow> small x"
  using st.peek_item [of s d x] by (simp add: small_items_def)

lemma small_peek: "stack_peek s = Inr x \<Longrightarrow> small_items s \<Longrightarrow> small x"
  using small_peek_at by (simp add: stack_peek_is_peek_at)

lemma small_remove: "stack_remove_at s d = Inr (x, s') \<Longrightarrow> small_items s \<Longrightarrow> small x \<and> small_items s'"
  using st.remove_items [of s d x s'] by (auto simp: small_items_def)

lemma small_insert: "stack_insert_at s d x = Inr s' \<Longrightarrow> small_items s \<Longrightarrow> small x \<Longrightarrow> small_items s'"
  using st.insert_items [of s d x s'] by (simp add: small_items_def)

lemma small_swap: "stack_swap_at s a b = Inr s' \<Longrightarrow> small_items s \<Longrightarrow> small_items s'"
  using st.swap_items [of s a b s'] by (simp add: small_items_def)

lemma small_roll: "stack_roll s d = Inr s' \<Longrightarrow> small_items s \<Longrightarrow> small_items s'"
  using stack_roll_items [of s d s'] by (simp add: small_items_def)

lemma small_drain: "stack_drain s n = Inr (xs, s') \<Longrightarrow> small_items s \<Longrightarrow> small_items xs \<and> small_items s' \<and> length xs = n"
proof -
  assume a: "stack_drain s n = Inr (xs, s')" "small_items s"
  have "set xs \<union> set s' = set s" using st.drain_items [OF a(1)] by simp
  then show ?thesis using a(2) st.drain_Inr [OF a(1)] by (auto simp: small_items_def)
qed

lemma length_serialize_i64: "\<bar>v\<bar> \<le> 2 ^ 63 \<Longrightarrow> length (script_num_serialize v) \<le> 9"
  by (rule length_script_num_serialize) auto

lemma small_serialize: "\<bar>v\<bar> \<le> 2 ^ 63 \<Longrightarrow> length (script_num_serialize v) \<le> MAX_SCRIPT_ELEMENT_SIZE"
  using length_serialize_i64 [of v] by simp

lemma num_value_bound: "length bs \<le> n \<Longrightarrow> \<bar>num_value bs\<bar> < 256 ^ n"
proof (cases bs rule: rev_cases)
  case Nil
  then show ?thesis by (simp add: num_value_def)
next
  case (snoc xs b)
  assume "length bs \<le> n"
  then have "(256 :: nat) ^ length (xs @ [b AND 0x7f]) \<le> 256 ^ n"
    unfolding snoc by (intro power_increasing) auto
  then have "le_nat (xs @ [b AND 0x7f]) < 256 ^ n"
    using le_nat_less [of "xs @ [b AND 0x7f]"] by linarith
  then have "int (le_nat (xs @ [b AND 0x7f])) < 256 ^ n"
    by (metis of_nat_less_iff of_nat_numeral of_nat_power)
  then show ?thesis unfolding snoc num_value_snoc Let_def by auto
qed

lemma script_num_bound:
  assumes "script_num bs rm m = Inr v" "m \<le> 5"
  shows "\<bar>v\<bar> < 2 ^ 40"
proof -
  from assms have v: "length bs \<le> m" "v = num_value bs" by (auto simp: script_num_eq split: if_splits)
  then have "\<bar>v\<bar> < 256 ^ m" using num_value_bound by blast
  also have "\<dots> \<le> (256 :: int) ^ 5" using assms(2) by (intro power_increasing) auto
  finally show ?thesis by simp
qed

lemma checked_i64_bound: "checked_i64 v = Some w \<Longrightarrow> \<bar>w\<bar> \<le> 2 ^ 63"
  by (auto simp: checked_i64_def i64_min_def i64_max_def split: if_splits)

lemma of_i64_bool_bound [simp]: "\<bar>of_i64_bool b\<bar> \<le> 9223372036854775808"
  by (simp add: of_i64_bool_def)

lemma unary_result_bound: "unary_result op v = Some w \<Longrightarrow> \<bar>v\<bar> < 2 ^ 40 \<Longrightarrow> \<bar>w\<bar> \<le> 2 ^ 63"
  by (auto simp: unary_result_def dest: checked_i64_bound split: if_splits)

lemma binary_result_bound:
  "binary_result op a b = Some w \<Longrightarrow> \<bar>a\<bar> < 2 ^ 40 \<Longrightarrow> \<bar>b\<bar> < 2 ^ 40 \<Longrightarrow> \<bar>w\<bar> \<le> 2 ^ 63"
  by (auto simp: binary_result_def dest: checked_i64_bound split: if_splits)

section \<open>Each opcode keeps items small\<close>

lemma push_item_small: "push_item x s = Inr s' \<Longrightarrow> small_items s \<Longrightarrow> small x \<Longrightarrow> small_items s'"
  by (auto simp: push_item_def intro: small_push)

lemma push_bytes_small:
  "push_bytes s d = Inr s' \<Longrightarrow> small_items s \<Longrightarrow> length d \<le> MAX_SCRIPT_ELEMENT_SIZE \<Longrightarrow> small_items s'"
  by (auto simp: push_bytes_def intro: small_push)

lemma push_bool_small: "push_bool s b = Inr s' \<Longrightarrow> small_items s \<Longrightarrow> small_items s'"
  by (cases b) (auto simp: push_bool_def dest: push_bytes_small)

lemma push_items_small: "push_items xs s = Inr s' \<Longrightarrow> small_items s \<Longrightarrow> small_items xs \<Longrightarrow> small_items s'"
proof (induction xs arbitrary: s)
  case (Cons x xs)
  then obtain s1 where "push_item x s = Inr s1" "push_items xs s1 = Inr s'" by auto
  then show ?case using Cons push_item_small [of x s s1] by (auto simp: small_items_def)
qed simp

lemma pushnum_op_small:
  assumes "pushnum_op op s = Some (Inr s')" "small_items s"
  shows "small_items s'"
proof -
  have "\<bar>uint (v :: byte)\<bar> \<le> 2 ^ 63" for v
  proof -
    have "uint v < 2 ^ 8" using uint_bounded [of v] by simp
    then show ?thesis by simp
  qed
  then have "length (script_num_serialize (uint (v :: byte))) \<le> MAX_SCRIPT_ELEMENT_SIZE" for v
    by (rule small_serialize)
  moreover have "length (script_num_serialize (-1)) \<le> MAX_SCRIPT_ELEMENT_SIZE"
    by (rule small_serialize) simp
  ultimately show ?thesis
    using assms by (auto simp: pushnum_op_def dest: push_bytes_small split: if_splits option.splits)
qed

lemma nop_op_same: "nop_op ck flags op s = Some (Inr s') \<Longrightarrow> s' = s"
  by (auto simp: nop_op_def op_cltv_def op_csv_def split: if_splits)

lemma op_verify_small: "op_verify s = Inr s' \<Longrightarrow> small_items s \<Longrightarrow> small_items s'"
  by (auto simp: op_verify_def split: if_splits dest: small_pop)

lemmas small_dest = small_pop small_peek_at small_peek small_remove small_swap small_roll small_insert
  push_item_small push_bool_small

lemma stack_moves_small:
  assumes "small_items s"
  shows "op_2drop s = Inr s' \<Longrightarrow> small_items s'"
    and "op_2dup s = Inr s' \<Longrightarrow> small_items s'"
    and "op_2over s = Inr s' \<Longrightarrow> small_items s'"
    and "op_2swap s = Inr s' \<Longrightarrow> small_items s'"
    and "op_ifdup s = Inr s' \<Longrightarrow> small_items s'"
    and "op_dup s = Inr s' \<Longrightarrow> small_items s'"
    and "op_nip s = Inr s' \<Longrightarrow> small_items s'"
    and "op_over s = Inr s' \<Longrightarrow> small_items s'"
    and "op_pick_roll rm op s = Inr s' \<Longrightarrow> small_items s'"
    and "op_rot s = Inr s' \<Longrightarrow> small_items s'"
    and "op_tuck s = Inr s' \<Longrightarrow> small_items s'"
  using assms
  by (auto simp: op_2drop_def op_2dup_def op_2over_def op_2swap_def op_ifdup_def op_dup_def
      op_nip_def op_over_def op_pick_roll_def op_rot_def op_tuck_def Let_def
      split: if_splits dest: small_dest)

lemma op_3dup_small: "op_3dup s = Inr s' \<Longrightarrow> small_items s \<Longrightarrow> small_items s'"
  unfolding op_3dup_def bindE_eq_Inr_iff inval_stk_Inr by (metis small_peek small_peek_at push_item_small)

lemma op_2rot_small: "op_2rot s = Inr s' \<Longrightarrow> small_items s \<Longrightarrow> small_items s'"
proof -
  assume a: "op_2rot s = Inr s'" "small_items s"
  then obtain xs t s1 s2 where d: "stack_drain s 6 = Inr (xs, t)" "push_items (drop 2 xs) t = Inr s1"
    "push_item (xs ! 0) s1 = Inr s2" "push_item (xs ! 1) s2 = Inr s'"
    by (auto simp: op_2rot_def Let_def)
  have xs: "small_items xs" "small_items t" "length xs = 6" using small_drain [OF d(1) a(2)] by auto
  then have "small_items (drop 2 xs)" "small (xs ! 0)" "small (xs ! 1)"
    by (auto simp: small_items_def dest: in_set_dropD)
  then show ?thesis
    using d xs push_items_small [OF d(2)] by (metis push_item_small)
qed

lemma stack_op_small:
  assumes "stack_op rm op s = Some (Inr s')" "small_items s" "length s \<le> MAX_DEPTH"
  shows "small_items s'"
proof -
  have size: "small_items s'" if "op_size s = Inr s'" for s'
  proof -
    from that obtain x where x: "stack_peek s = Inr x" "push_bytes s (script_num_serialize (int (length (item_bytes x)))) = Inr s'"
      by (auto simp: op_size_def)
    then have "small x" using small_peek assms(2) by blast
    then show ?thesis
      by (intro push_bytes_small [OF x(2) assms(2)] small_serialize) (simp add: small_def)
  qed
  have depth: "small_items s'" if "op_depth s = Inr s'" for s'
  proof -
    have "length (script_num_serialize (int (length s))) \<le> MAX_SCRIPT_ELEMENT_SIZE"
      using assms(3) by (intro small_serialize) simp
    then show ?thesis
      using that assms(2) unfolding op_depth_def stack_len_def by (metis push_bytes_small)
  qed
  show ?thesis
    using assms(1,2) size depth
    by (auto simp: stack_op_def split: if_splits
        dest: stack_moves_small op_3dup_small op_2rot_small small_pop small_swap)
qed

lemma op_equal_small: "op_equal op s = Inr s' \<Longrightarrow> small_items s \<Longrightarrow> small_items s'"
  by (auto simp: op_equal_def Let_def split: if_splits dest: small_dest)

lemma op_unary_small: "op_unary rm op s = Inr s' \<Longrightarrow> small_items s \<Longrightarrow> small_items s'"
  by (auto simp: op_unary_def dest!: script_num_bound unary_result_bound small_pop small_serialize
      elim: push_bytes_small)

lemma op_binary_small:
  assumes "op_binary rm op s = Inr s'" "small_items s"
  shows "small_items s'"
proof -
  obtain x y s1 s2 a b r s3 where p: "stack_pop s = Inr (y, s1)" "stack_pop s1 = Inr (x, s2)"
    "script_num (item_bytes x) rm 4 = Inr a" "script_num (item_bytes y) rm 4 = Inr b"
    "binary_result op a b = Some r" "push_bytes s2 (script_num_serialize r) = Inr s3"
    "s' = s3 \<or> (\<exists>z. stack_pop s3 = Inr (z, s'))"
    using assms(1) by (auto simp: op_binary_def split: if_splits)
  have "\<bar>r\<bar> \<le> 2 ^ 63"
    using binary_result_bound [OF p(5)] script_num_bound [OF p(3)] script_num_bound [OF p(4)] by simp
  then have "length (script_num_serialize r) \<le> MAX_SCRIPT_ELEMENT_SIZE" by (rule small_serialize)
  moreover have "small_items s2" using p(1,2) assms(2) by (metis small_pop)
  ultimately have "small_items s3" by (metis p(6) push_bytes_small)
  then show ?thesis using p(7) small_pop by blast
qed

lemma op_within_small: "op_within rm s = Inr s' \<Longrightarrow> small_items s \<Longrightarrow> small_items s'"
  by (auto simp: op_within_def dest!: small_pop elim: push_bool_small)

lemma hash_bytes_small: "hashes_small h \<Longrightarrow> length (hash_bytes h op d) \<le> MAX_SCRIPT_ELEMENT_SIZE"
  by (simp add: hash_bytes_def hashes_small_def)

lemma op_hash_small: "op_hash h op s = Inr s' \<Longrightarrow> small_items s \<Longrightarrow> hashes_small h \<Longrightarrow> small_items s'"
  by (auto simp: op_hash_def dest!: small_pop intro: push_bytes_small hash_bytes_small)

lemma arith_op_small:
  "arith_op h rm op s = Some (Inr s') \<Longrightarrow> small_items s \<Longrightarrow> hashes_small h \<Longrightarrow> small_items s'"
  by (auto simp: arith_op_def split: if_splits
      dest: op_equal_small op_unary_small op_binary_small op_within_small op_hash_small)

lemma pure_op_small:
  "pure_op env op s = Some (Inr s') \<Longrightarrow> small_items s \<Longrightarrow> length s \<le> MAX_DEPTH \<Longrightarrow> hashes_small (env_hashes env)
   \<Longrightarrow> small_items s'"
  by (auto simp: pure_op_def Let_def split: option.splits if_splits
      dest: pushnum_op_small nop_op_same op_verify_small stack_op_small arith_op_small)

end
