(* ===== verification/Eval_Bounds.thy ===== *)
theory Eval_Bounds
  imports Eval_Inv
begin

text \<open>
  The resource invariant lifted to the evaluation loop, and the bounds on the
  number of signature checks: an instrumented checker counts its calls, and the
  evaluator makes at most 201 of them in a legacy or segwit v0 script and at
  most one per 50 units of validation weight in a tapscript.
\<close>

section \<open>The invariant of the loop\<close>

definition ev_small :: "EvalState \<Rightarrow> bool" where
  "ev_small st \<longleftrightarrow> small_items (stk st) \<and> small_items (altstack st) \<and> op_count st \<le> MAX_OPS_PER_SCRIPT"

definition ev_inv :: "EvalState \<Rightarrow> bool" where
  "ev_inv st \<longleftrightarrow> ev_small st \<and> stack_len (stk st) + stack_len (altstack st) \<le> MAX_STACK_SIZE"

lemma flow_op_inv:
  "flow_op env f op st = Some (Inr st') \<Longrightarrow> ev_small st \<Longrightarrow> ev_small st' \<and> op_count st' = op_count st \<and> weight_left st' = weight_left st"
  by (auto simp: flow_op_def op_if_def ev_small_def Let_def split: if_splits dest: small_pop)

lemma op_toaltstack_inv:
  "op_toaltstack st = Inr st' \<Longrightarrow> ev_small st \<Longrightarrow> ev_small st' \<and> op_count st' = op_count st \<and> weight_left st' = weight_left st"
  by (auto simp: op_toaltstack_def ev_small_def dest!: small_pop dest: small_push)

lemma op_fromaltstack_inv:
  "op_fromaltstack st = Inr st' \<Longrightarrow> ev_small st \<Longrightarrow> ev_small st' \<and> op_count st' = op_count st \<and> weight_left st' = weight_left st"
  by (auto simp: op_fromaltstack_def ev_small_def small_def dest!: small_pop dest: push_bytes_small)

text \<open>What the stack looks like after the signature opcodes.\<close>

lemma multisig_counts_Inr:
  assumes "multisig_counts rm s n = Inr (keys, sigs, n')"
  shows "sigs \<le> keys \<and> keys \<le> MAX_PUBKEYS_PER_MULTISIG \<and> n' = n + keys \<and> n' \<le> MAX_OPS_PER_SCRIPT
    \<and> keys + sigs + 3 \<le> length s"
  using assms by (auto simp: multisig_counts_def Let_def stack_len_def split: if_splits)

lemma multisig_pop_small: "multisig_pop fl ok sigs n s = Inr s' \<Longrightarrow> small_items s \<Longrightarrow> small_items s'"
  by (induction n arbitrary: s) (auto split: if_splits dest: small_pop)

lemma multisig_finish_small: "multisig_finish fl ok v s = Inr s' \<Longrightarrow> small_items s \<Longrightarrow> small_items s'"
  by (auto simp: multisig_finish_def split: if_splits dest: small_pop push_bool_small)

lemma check_multisig_Inr:
  assumes "check_multisig env v st c = (Inr st', c')"
  obtains keys sigs count' code success s1 s2 where
    "multisig_counts (contains (env_flags env) MINIMALDATA) (stk st) (op_count st) = Inr (keys, sigs, count')"
    "multisig_match env (stk st) code True keys sigs 1 (keys + 2) c = (Inr success, c')"
    "multisig_pop (env_flags env) success sigs (keys + sigs + 2) (stk st) = Inr s1"
    "multisig_finish (env_flags env) success v s1 = Inr s2"
    "st' = st\<lparr>stk := s2, op_count := count'\<rparr>"
  using assms unfolding check_multisig_def bindS_eq_Inr_iff liftS_eq_iff
  by (auto simp del: multisig_pop.simps)

lemma check_multisig_inv:
  assumes "check_multisig env v st c = (Inr st', c')" "ev_small st"
  shows "ev_small st'"
  using assms(1)
proof (rule check_multisig_Inr)
  fix keys sigs count' code success s1 s2
  assume a: "multisig_counts (contains (env_flags env) MINIMALDATA) (stk st) (op_count st) = Inr (keys, sigs, count')"
    "multisig_pop (env_flags env) success sigs (keys + sigs + 2) (stk st) = Inr s1"
    "multisig_finish (env_flags env) success v s1 = Inr s2"
    "st' = st\<lparr>stk := s2, op_count := count'\<rparr>"
  have "small_items s2"
    using multisig_finish_small [OF a(3)] multisig_pop_small [OF a(2)] assms(2) by (simp add: ev_small_def)
  then show ?thesis
    using multisig_counts_Inr [OF a(1)] a(4) assms(2) by (simp add: ev_small_def)
qed

lemma op_checksig_inv:
  assumes "op_checksig env op st c = (Inr st', c')" "ev_small st"
  shows "ev_small st'"
  using assms
  by (auto simp: op_checksig_def ev_small_def split: if_splits dest!: small_pop dest: push_bool_small)

lemma small_serialize_sum:
  assumes "checked_i64 v = Some r"
  shows "length (script_num_serialize r) \<le> MAX_SCRIPT_ELEMENT_SIZE"
  using checked_i64_bound [OF assms] by (rule small_serialize)

lemma op_checksigadd_inv:
  assumes "op_checksigadd env st c = (Inr st', c')" "ev_small st"
  shows "ev_small st'"
  using assms
  by (auto simp: op_checksigadd_def ev_small_def split: if_splits dest!: small_pop
      intro: push_bytes_small small_serialize_sum)

lemma dispatch_inv:
  assumes "dispatch env op f pos start st c = (Inr st', c')"
    and "ev_small st" "length (stk st) \<le> MAX_DEPTH" "hashes_small (env_hashes env)"
  shows "ev_small st'"
  using assms
  by (auto simp: dispatch_def op_checkmultisig_def split: option.splits if_splits
      dest: flow_op_inv op_toaltstack_inv op_fromaltstack_inv op_checksig_inv op_checksigadd_inv check_multisig_inv)
    (auto simp: ev_small_def dest: pure_op_small)

lemma check_opcode_rules_Inr:
  "check_opcode_rules op sv fl n = Inr n' \<Longrightarrow> n \<le> MAX_OPS_PER_SCRIPT \<Longrightarrow>
     n \<le> n' \<and> n' \<le> MAX_OPS_PER_SCRIPT \<and> (n' = n \<or> n' = n + 1) \<and>
     ((sv = Base \<or> sv = WitnessV0) \<and> op > OP_PUSHNUM_16 \<longrightarrow> n' = n + 1)"
  by (auto simp: check_opcode_rules_def split: if_splits)

lemma eval_instruction_inv:
  assumes "eval_instruction env i pos start st c = (Inr st', c')"
    and "ev_small st" "length (stk st) \<le> MAX_DEPTH" "hashes_small (env_hashes env)"
  shows "ev_small st'"
proof (cases i)
  case (PushBytes d)
  then show ?thesis
    using assms
    by (auto simp: eval_instruction_def handle_push_bytes_def ev_small_def split: if_splits dest: push_bytes_small)
next
  case (Op op)
  then show ?thesis
    using assms
    by (auto simp: eval_instruction_def Let_def ev_small_def split: if_splits
        dest!: check_opcode_rules_Inr dest: dispatch_inv)
qed

lemma eval_loop_inv:
  assumes "eval_loop env it pos start st c = (Inr st', c')" "ev_inv st" "hashes_small (env_hashes env)"
  shows "ev_inv st'"
  using assms
proof (induction env it pos start st c rule: eval_loop.induct)
  case (1 env it pos start st c)
  show ?case
  proof (cases "instr_next it")
    case (Pair r it')
    note step = "1.prems"(1) [unfolded eval_loop.simps [of env it] Pair]
    show ?thesis
    proof (cases r)
      case None
      then show ?thesis using step "1.prems"(2) by simp
    next
      case (Some x)
      then obtain i where x: "x = Inr i" using step by (cases x) auto
      obtain q c1 where e: "eval_instruction env i pos start st c = (q, c1)" by fastforce
      then obtain st1 where q: "q = Inr st1" using step Some x by (cases q) auto
      have d: "check_stack_depth (stk st1) (altstack st1) = Inr ()"
        using step Some x e q by (cases "check_stack_depth (stk st1) (altstack st1)") auto
      have "ev_small st1"
        using eval_instruction_inv [of env i pos start st c st1 c1] e q "1.prems"(2,3)
        by (auto simp: ev_inv_def stack_len_def)
      then have "ev_inv st1" using d by (auto simp: ev_inv_def check_stack_depth_def split: if_splits)
      then show ?thesis
        using "1.IH" [OF Pair [symmetric] Some x e [symmetric] q d] step Some x e q d "1.prems"(3) by simp
    qed
  qed
qed

section \<open>Counting signature checks\<close>

text \<open>A checker that counts the calls of its two signature methods in the first component of its state.\<close>

definition counting :: "'c checker_ops \<Rightarrow> (nat \<times> 'c) checker_ops" where
  "counting ck =
     \<lparr> ck_ecdsa = (\<lambda>sig pubkey code sigversion flags (n, c).
         case ck_ecdsa ck sig pubkey code sigversion flags c of (r, c') \<Rightarrow> (r, (n + 1, c'))),
       ck_schnorr = (\<lambda>sig pubkey leaf pos (n, c).
         case ck_schnorr ck sig pubkey leaf pos c of (r, c') \<Rightarrow> (r, (n + 1, c'))),
       ck_locktime = ck_locktime ck,
       ck_sequence = ck_sequence ck \<rparr>"

lemma counting_ecdsa:
  "ck_ecdsa (counting ck) sig pubkey code sv fl c = (r, c') \<Longrightarrow> fst c' = Suc (fst c)"
  by (auto simp: counting_def split: prod.splits)

lemma counting_schnorr:
  "ck_schnorr (counting ck) sig pubkey leaf pos c = (r, c') \<Longrightarrow> fst c' = Suc (fst c)"
  by (auto simp: counting_def split: prod.splits)

text \<open>What one call costs, and how much is left to spend.\<close>

definition cost :: "'c EvalEnv \<Rightarrow> int" where
  "cost env = (if env_sigversion env = Tapscript then VALIDATION_WEIGHT_PER_SIGOP_PASSED else 1)"

definition budget :: "'c EvalEnv \<Rightarrow> EvalState \<Rightarrow> int" where
  "budget env st =
     (if env_sigversion env = Tapscript then (case weight_left st of Some w \<Rightarrow> w | None \<Rightarrow> 0)
      else int MAX_OPS_PER_SCRIPT - int (op_count st))"

definition funded :: "'c EvalEnv \<Rightarrow> EvalState \<Rightarrow> bool" where
  "funded env st \<longleftrightarrow> 0 \<le> budget env st \<and> (env_sigversion env = Tapscript \<longrightarrow> weight_left st \<noteq> None)"

text \<open>From \<open>st\<close> with \<open>n\<close> calls made, a run ends with \<open>n'\<close> calls; the calls are paid for by the budget.\<close>

definition paid :: "'c EvalEnv \<Rightarrow> EvalState \<Rightarrow> nat \<Rightarrow> EvalState \<Rightarrow> nat \<Rightarrow> bool" where
  "paid env st n st' n' \<longleftrightarrow>
     funded env st' \<and> cost env * int n' + budget env st' \<le> cost env * int n + budget env st"

definition paid_err :: "'c EvalEnv \<Rightarrow> EvalState \<Rightarrow> nat \<Rightarrow> nat \<Rightarrow> bool" where
  "paid_err env st n n' \<longleftrightarrow> cost env * int n' \<le> cost env * int n + budget env st"

lemma multisig_match_count:
  "env_checker env = counting ck \<Longrightarrow> multisig_match env s code success k m kd sd c = (r, c') \<Longrightarrow>
   (success \<Longrightarrow> m \<le> k) \<Longrightarrow> fst c' \<le> fst c + k"
proof (induction env s code success k m kd sd c rule: multisig_match.induct)
  case (1 env s code success k m kd sd c)
  note run = "1.prems"(2) [unfolded multisig_match.simps [of env s code success]]
  show ?case
  proof (cases "success \<and> 0 < m")
    case False
    then show ?thesis using run by (auto split: if_splits)
  next
    case True
    then have k: "0 < k" using "1.prems"(3) by auto
    show ?thesis
    proof (cases "inval_stk (stack_peek_at s sd)")
      case (Inl e)
      then show ?thesis using True run by simp
    next
      case sig: (Inr x)
      show ?thesis
      proof (cases "inval_stk (stack_peek_at s kd)")
        case (Inl e)
        then show ?thesis using True sig run by simp
      next
        case key: (Inr y)
        obtain q c1 where e: "ck_ecdsa (env_checker env) (item_bytes x) (item_bytes y) code
            (env_sigversion env) (env_flags env) c = (q, c1)" by (rule prod.exhaust)
        have c1: "fst c1 = Suc (fst c)" using e "1.prems"(1) counting_ecdsa by metis
        show ?thesis
        proof (cases q)
          case (Inl f)
          then show ?thesis using True sig key e c1 k run by auto
        next
          case (Inr ok)
          then have rec: "multisig_match env s code (\<not> (if ok then m - 1 else m) > k - 1) (k - 1)
              (if ok then m - 1 else m) (kd + 1) (if ok then sd + 1 else sd) c1 = (r, c')"
            using True sig key e run by (simp add: Let_def)
          have "fst c' \<le> fst c1 + (k - 1)"
            using "1.IH" [OF True sig key e [symmetric] Inr refl refl refl "1.prems"(1) rec] by simp
          then show ?thesis using c1 k by simp
        qed
      qed
    qed
  qed
qed

lemma check_multisig_count:
  assumes ck: "env_checker env = counting ck" and sv: "env_sigversion env \<noteq> Tapscript"
    and f: "op_count st \<le> MAX_OPS_PER_SCRIPT"
  shows "wpS (check_multisig env v st)
    (\<lambda>st' c'. fst c' + op_count st \<le> fst c + op_count st' \<and> op_count st' \<le> MAX_OPS_PER_SCRIPT)
    (\<lambda>c'. fst c' + op_count st \<le> fst c + MAX_OPS_PER_SCRIPT) c"
proof (cases "multisig_counts (contains (env_flags env) MINIMALDATA) (stk st) (op_count st)")
  case (Inl e)
  then show ?thesis using f by (simp add: check_multisig_def)
next
  case (Inr t)
  obtain keys sigs n' where t: "t = (keys, sigs, n')" by (cases t) auto
  have m: "sigs \<le> keys" "n' = op_count st + keys" "n' \<le> MAX_OPS_PER_SCRIPT"
    using multisig_counts_Inr Inr t by auto
  have match: "wpS (multisig_match env (stk st) code True keys sigs (Suc 0) (Suc (Suc keys)))
     (\<lambda>_ c'. fst c' \<le> fst c + keys) (\<lambda>c'. fst c' \<le> fst c + keys) c" for code
    using multisig_match_count [OF ck, of "stk st" code True keys sigs "Suc 0" "Suc (Suc keys)" c] m(1)
    by (auto simp: wpS_def split: prod.splits sum.splits)
  show ?thesis
    unfolding check_multisig_def wpS_bindS wpS_liftS Inr t
    using f m
    by (auto simp del: multisig_pop.simps split: sum.splits intro!: wpS_mono [OF match])
qed

lemma wpS_counting_ecdsa:
  "wpS (ck_ecdsa (counting ck) sig pk code sv fl) (\<lambda>_ c'. fst c' = Suc (fst c)) (\<lambda>c'. fst c' = Suc (fst c)) c"
  using counting_ecdsa [of ck sig pk code sv fl c] by (auto simp: wpS_def split: prod.splits sum.splits)

lemma wpS_counting_schnorr:
  "wpS (ck_schnorr (counting ck) sig pk leaf pos) (\<lambda>_ c'. fst c' = Suc (fst c)) (\<lambda>c'. fst c' = Suc (fst c)) c"
  using counting_schnorr [of ck sig pk leaf pos c] by (auto simp: wpS_def split: prod.splits sum.splits)

text \<open>One signature check, before segwit v1: at most one call.\<close>

lemma eval_checksig_count:
  assumes "env_checker env = counting ck" "env_sigversion env \<noteq> Tapscript"
  shows "wpS (eval_checksig env sig pk sep w) (\<lambda>r c'. fst c' \<le> Suc (fst c)) (\<lambda>c'. fst c' \<le> Suc (fst c)) c"
proof -
  have "env_sigversion env = Base \<or> env_sigversion env = WitnessV0"
    using assms(2) by (cases "env_sigversion env") auto
  then show ?thesis
    unfolding eval_checksig_def assms(1)
    by (auto split: sum.splits intro!: wpS_mono [OF wpS_counting_ecdsa])
qed

text \<open>In a tapscript a call is made only after its weight has been deducted.\<close>

lemma eval_checksig_weight:
  assumes "env_checker env = counting ck" "env_sigversion env = Tapscript" "0 \<le> w"
  shows "wpS (eval_checksig env sig pk sep (Some w))
    (\<lambda>r c'. \<exists>w'. snd r = Some w' \<and> 0 \<le> w' \<and> 50 * int (fst c') + w' \<le> 50 * int (fst c) + w)
    (\<lambda>c'. 50 * int (fst c') \<le> 50 * int (fst c) + w) c"
  using assms(2,3)
  unfolding eval_checksig_def assms(1)
  by (auto simp: Let_def split: sum.splits intro!: wpS_mono [OF wpS_counting_schnorr])

lemma op_checksig_paid:
  assumes ck: "env_checker env = counting ck" and f: "funded env st"
  shows "wpS (op_checksig env op st)
    (\<lambda>st' c'. funded env st' \<and>
       cost env * int (fst c') + budget env st' \<le> cost env * int (fst c) + budget env st + (if env_sigversion env = Tapscript then 0 else 1))
    (\<lambda>c'. cost env * int (fst c') \<le> cost env * int (fst c) + budget env st + (if env_sigversion env = Tapscript then 0 else 1)) c"
proof (cases "env_sigversion env = Tapscript")
  case True
  then obtain w where w: "weight_left st = Some w" "0 \<le> w" using f by (auto simp: funded_def budget_def)
  show ?thesis
    unfolding op_checksig_def
    using w True
    by (auto simp: cost_def budget_def funded_def split: sum.splits if_splits
        intro!: wpS_mono [OF eval_checksig_weight [OF ck True w(2)]])
next
  case False
  show ?thesis
    unfolding op_checksig_def
    using f False
    by (auto simp: cost_def budget_def funded_def split: sum.splits if_splits
        intro!: wpS_mono [OF eval_checksig_count [OF ck False]])
qed

lemma op_checksigadd_paid:
  assumes ck: "env_checker env = counting ck" and f: "funded env st"
  shows "wpS (op_checksigadd env st) (\<lambda>st' c'. paid env st (fst c) st' (fst c')) (\<lambda>c'. paid_err env st (fst c) (fst c')) c"
proof (cases "env_sigversion env = Tapscript")
  case True
  then obtain w where w: "weight_left st = Some w" "0 \<le> w" using f by (auto simp: funded_def budget_def)
  show ?thesis
    unfolding op_checksigadd_def
    using w True
    by (auto simp: paid_def paid_err_def cost_def budget_def funded_def split: sum.splits if_splits
        intro!: wpS_mono [OF eval_checksig_weight [OF ck True w(2)]])
next
  case False
  then have "env_sigversion env = Base \<or> env_sigversion env = WitnessV0"
    by (cases "env_sigversion env") auto
  then show ?thesis
    using f by (auto simp: op_checksigadd_def paid_err_def funded_def)
qed

text \<open>An opcode above \<open>OP_16\<close> of a legacy or segwit v0 script is worth one counted operation.\<close>

definition op_credit :: "'c EvalEnv \<Rightarrow> byte \<Rightarrow> int" where
  "op_credit env op = (if env_sigversion env = Tapscript then 0 else if op > OP_PUSHNUM_16 then 1 else 0)"

lemma dispatch_paid:
  assumes ck: "env_checker env = counting ck" and f: "funded env st" and s: "ev_small st"
  shows "wpS (dispatch env op fx pos start st)
    (\<lambda>st' c'. funded env st' \<and>
       cost env * int (fst c') + budget env st' \<le> cost env * int (fst c) + budget env st + op_credit env op)
    (\<lambda>c'. cost env * int (fst c') \<le> cost env * int (fst c) + budget env st + op_credit env op) c"
    (is "wpS _ ?Q ?E c")
proof -
  have same: "?Q st' c" if "op_count st' = op_count st" "weight_left st' = weight_left st" for st'
    using that f by (auto simp: funded_def budget_def op_credit_def)
  have err: "?E c" using f by (auto simp: funded_def op_credit_def)
  consider (pure) r where "pure_op env op (stk st) = Some r"
    | (flow) r where "pure_op env op (stk st) = None" "flow_op env fx op st = Some r"
    | (other) "pure_op env op (stk st) = None" "flow_op env fx op st = None"
    by (cases "pure_op env op (stk st)"; cases "flow_op env fx op st") auto
  then show ?thesis
  proof cases
    case pure
    then show ?thesis using same err by (cases r) (auto simp: dispatch_def)
  next
    case flow
    then show ?thesis using same err s flow_op_inv [of env fx op st] by (cases r) (auto simp: dispatch_def)
  next
    case other
    consider "op = OP_TOALTSTACK" | "op = OP_FROMALTSTACK" | "op = OP_CODESEPARATOR"
      | (sig) "op = OP_CHECKSIG \<or> op = OP_CHECKSIGVERIFY" | (add) "op = OP_CHECKSIGADD"
      | (multi) "op = OP_CHECKMULTISIG \<or> op = OP_CHECKMULTISIGVERIFY"
      | (bad) "dispatch env op fx pos start st = liftS (invalid BadOpcode)"
      using other by (fastforce simp: dispatch_def)
    then show ?thesis
    proof cases
      case 1
      then show ?thesis
        using other same err op_toaltstack_inv [OF _ s] by (auto simp: dispatch_def split: sum.splits)
    next
      case 2
      then show ?thesis
        using other same err op_fromaltstack_inv [OF _ s] by (auto simp: dispatch_def split: sum.splits)
    next
      case 3
      then show ?thesis using other same err by (simp add: dispatch_def)
    next
      case sig
      then have "dispatch env op fx pos start st = op_checksig env op st" using other by (auto simp: dispatch_def)
      then show ?thesis using sig op_checksig_paid [OF ck f, of op c] by (auto simp: op_credit_def)
    next
      case add
      then have "dispatch env op fx pos start st = op_checksigadd env st" using other by (auto simp: dispatch_def)
      then show ?thesis
        using op_checksigadd_paid [OF ck f, of c]
        by (auto simp: paid_def paid_err_def op_credit_def add elim!: wpS_mono)
    next
      case multi
      then have d: "dispatch env op fx pos start st = op_checkmultisig env op st" using other by (auto simp: dispatch_def)
      show ?thesis
      proof (cases "env_sigversion env = Tapscript")
        case True
        then show ?thesis using d err by (simp add: op_checkmultisig_def)
      next
        case False
        have "wpS (check_multisig env (op = OP_CHECKMULTISIGVERIFY) st) ?Q ?E c"
          using check_multisig_count [OF ck False, of st "op = OP_CHECKMULTISIGVERIFY" c] f False
          by (auto simp: funded_def budget_def cost_def op_credit_def elim!: wpS_mono)
        then show ?thesis using d False by (simp add: op_checkmultisig_def)
      qed
    next
      case bad
      then show ?thesis using err by simp
    qed
  qed
qed

lemma eval_instruction_paid:
  assumes ck: "env_checker env = counting ck" and f: "funded env st" and s: "ev_small st"
  shows "wpS (eval_instruction env i pos start st)
    (\<lambda>st' c'. paid env st (fst c) st' (fst c')) (\<lambda>c'. paid_err env st (fst c) (fst c')) c"
proof (cases i)
  case (PushBytes d)
  then show ?thesis
    using f by (auto simp: eval_instruction_def paid_def paid_err_def funded_def budget_def split: sum.splits)
next
  case (Op op)
  show ?thesis
  proof (cases "check_opcode_rules op (env_sigversion env) (env_flags env) (op_count st)")
    case (Inl e)
    then show ?thesis using f Op by (simp add: eval_instruction_def paid_err_def funded_def)
  next
    case (Inr n')
    let ?st = "st\<lparr>op_count := n'\<rparr>"
    have n': "op_count st \<le> n'" "n' \<le> MAX_OPS_PER_SCRIPT"
      "(env_sigversion env = Base \<or> env_sigversion env = WitnessV0) \<and> op > OP_PUSHNUM_16 \<Longrightarrow> n' = op_count st + 1"
      using check_opcode_rules_Inr [OF Inr] s by (auto simp: ev_small_def)
    have f': "funded env ?st" "ev_small ?st" using f s n' by (auto simp: funded_def budget_def ev_small_def)
    have b: "budget env ?st + op_credit env op \<le> budget env st"
      using n' by (cases "env_sigversion env") (auto simp: budget_def op_credit_def)
    have "wpS (dispatch env op (cond_all_true (conditions st)) pos start ?st)
       (\<lambda>st' c'. paid env st (fst c) st' (fst c')) (\<lambda>c'. paid_err env st (fst c) (fst c')) c"
      using dispatch_paid [OF ck f', of op "cond_all_true (conditions st)" pos start c] b
      by (auto simp: paid_def paid_err_def elim!: wpS_mono)
    moreover have "paid env st (fst c) ?st (fst c)"
      using f' b by (auto simp: paid_def op_credit_def split: if_splits)
    ultimately show ?thesis by (simp add: eval_instruction_def Op Inr Let_def)
  qed
qed

lemma paid_trans: "paid env st n st1 n1 \<Longrightarrow> paid env st1 n1 st2 n2 \<Longrightarrow> paid env st n st2 n2"
  by (auto simp: paid_def)

lemma paid_err_trans: "paid env st n st1 n1 \<Longrightarrow> paid_err env st1 n1 n2 \<Longrightarrow> paid_err env st n n2"
  by (auto simp: paid_def paid_err_def)

lemma paid_imp_err: "paid env st n st1 n1 \<Longrightarrow> paid_err env st n n1"
  by (auto simp: paid_def paid_err_def funded_def)

lemma eval_loop_paid:
  assumes "env_checker env = counting ck" "funded env st" "ev_inv st" "hashes_small (env_hashes env)"
  shows "wpS (eval_loop env it pos start st)
    (\<lambda>st' c'. paid env st (fst c) st' (fst c')) (\<lambda>c'. paid_err env st (fst c) (fst c')) c"
  using assms
proof (induction env it pos start st c rule: eval_loop.induct)
  case (1 env it pos start st c)
  have s: "ev_small st" "length (stk st) \<le> MAX_DEPTH" using "1.prems"(3) by (auto simp: ev_inv_def stack_len_def)
  have here: "paid env st (fst c) st (fst c)" using "1.prems"(2) by (simp add: paid_def)
  show ?case
  proof (cases "instr_next it")
    case (Pair r it')
    note step = eval_loop.simps [of env it pos start st c, unfolded Pair]
    consider "r = None" | e where "r = Some (Inl e)" | i where "r = Some (Inr i)"
      by (metis option.exhaust sum.exhaust)
    then show ?thesis
    proof cases
      case 1
      then show ?thesis using step here by (simp add: wpS_def)
    next
      case 2
      then show ?thesis using step paid_imp_err [OF here] by (simp add: wpS_def)
    next
      case 3
      obtain q c1 where e: "eval_instruction env i pos start st c = (q, c1)" by (rule prod.exhaust)
      note p = eval_instruction_paid [OF "1.prems"(1,2) s(1), of i pos start c]
      show ?thesis
      proof (cases q)
        case (Inl f)
        then show ?thesis using step 3 e wpS_D_err [OF p] by (simp add: wpS_def)
      next
        case (Inr st1)
        have pd: "paid env st (fst c) st1 (fst c1)" using wpS_D [OF p] e Inr by simp
        have sm: "ev_small st1" using eval_instruction_inv [of env i pos start st c st1 c1] e Inr s "1.prems"(4) by simp
        show ?thesis
        proof (cases "check_stack_depth (stk st1) (altstack st1)")
          case (Inl f)
          then show ?thesis using step 3 e Inr \<open>q = Inr st1\<close> paid_imp_err [OF pd] by (simp add: wpS_def)
        next
          case d: (Inr u)
          then have "ev_inv st1" using sm by (auto simp: ev_inv_def check_stack_depth_def split: if_splits)
          then have "wpS (eval_loop env it' (sat_add32 pos 1) (length (env_script env) - length (remaining it')) st1)
             (\<lambda>st' c'. paid env st1 (fst c1) st' (fst c')) (\<lambda>c'. paid_err env st1 (fst c1) (fst c')) c1"
            using "1.IH" [OF Pair [symmetric] 3 refl e [symmetric] Inr d] "1.prems" pd by (simp add: paid_def)
          then show ?thesis
            using step 3 e Inr d pd
            by (auto simp: wpS_def split: prod.splits sum.splits intro: paid_trans paid_err_trans)
        qed
      qed
    qed
  qed
qed

text \<open>The number of signature checks of a whole evaluation, whether it succeeds or fails.\<close>

lemma eval_script_checks:
  assumes ck: "env_checker env = counting ck" and h: "hashes_small (env_hashes env)"
    and s: "small_items s" "length s \<le> MAX_DEPTH"
    and w: "env_sigversion env = Tapscript \<Longrightarrow> weight = Some left \<and> 0 \<le> left"
    and run: "eval_script env s weight (0, c) = (r, (n, c'))"
  shows "if env_sigversion env = Tapscript then 50 * int n \<le> left else n \<le> MAX_OPS_PER_SCRIPT"
proof -
  let ?st = "initial_state s weight"
  have i: "ev_inv ?st" "funded env ?st"
    using s w by (auto simp: initial_state_def ev_inv_def ev_small_def stack_new_def stack_len_def small_items_def
        funded_def budget_def)
  have "wpS (eval_loop env (instructions (env_script env)) 0 0 ?st)
     (\<lambda>st' c'. paid_err env ?st 0 (fst c')) (\<lambda>c'. paid_err env ?st 0 (fst c')) (0, c)"
    using eval_loop_paid [OF ck i(2,1) h, of "instructions (env_script env)" 0 0 "(0, c)"]
    by (auto elim!: wpS_mono intro: paid_imp_err)
  then have "wpS (eval_script env s weight) (\<lambda>_ c'. paid_err env ?st 0 (fst c')) (\<lambda>c'. paid_err env ?st 0 (fst c')) (0, c)"
    unfolding eval_script_def using i(2) by (auto simp: paid_err_def funded_def elim!: wpS_mono)
  then have "paid_err env ?st 0 n" using run by (cases r) (auto simp: wpS_def)
  then show ?thesis
    using w by (auto simp: paid_err_def cost_def budget_def initial_state_def)
qed

lemma eval_script_bounds:
  assumes "eval_script env s weight c = (Inr (s', w'), c')" "hashes_small (env_hashes env)"
    and "small_items s" "length s \<le> MAX_DEPTH"
  shows "length s' \<le> MAX_STACK_SIZE \<and> small_items s'"
proof -
  have i: "ev_inv (initial_state s weight)"
    using assms(3,4) by (auto simp: initial_state_def ev_inv_def ev_small_def stack_new_def stack_len_def small_items_def)
  obtain st where st: "eval_loop env (instructions (env_script env)) 0 0 (initial_state s weight) c = (Inr st, c')" "s' = stk st"
    using assms(1) by (auto simp: eval_script_def split: if_splits)
  have "ev_inv st" by (rule eval_loop_inv [OF st(1) i assms(2)])
  then show ?thesis using st(2) by (auto simp: ev_inv_def ev_small_def stack_len_def)
qed

end
