(* ===== verification/Eval_Sim.thy ===== *)
theory Eval_Sim
  imports Eval_Bounds
begin

text \<open>
  Simulation of evaluations.  The locale \<open>checker_sim\<close> is what the evaluator
  needs of two checkers and two flag sets: the second flag set is a subset of
  the first, and where the first checker answers, the second gives the same
  answer.  Then a successful evaluation with the first is a successful
  evaluation with the second and leaves the same stack.  Flags only ever forbid
  (soft forks), and a cache of verified signatures is an instance.
\<close>

named_theorems sim_rules \<open>simulation facts about the evaluator\<close>

section \<open>Script numbers and pushes\<close>

lemma okle_script_num [sim_rules]: "(rm' \<Longrightarrow> rm) \<Longrightarrow> m \<le> 7 \<Longrightarrow> okle (script_num bs rm m) (script_num bs rm' m)"
  by (auto simp: okle_def script_num_eq split: if_splits)

locale checker_sim =
  fixes R :: "'c \<Rightarrow> 'd \<Rightarrow> bool"
    and ck1 :: "'c checker_ops"
    and ck2 :: "'d checker_ops"
    and fl1 :: VerifyFlags
    and fl2 :: VerifyFlags
  assumes flags: "flags_le fl2 fl1"
    and locktime: "ck_locktime ck1 v \<Longrightarrow> ck_locktime ck2 v"
    and sequence: "ck_sequence ck1 v \<Longrightarrow> ck_sequence ck2 v"
    and ecdsa: "simS R (ck_ecdsa ck1 sig pk code sv fl1) (ck_ecdsa ck2 sig pk code sv fl2)"
    and schnorr: "simS R (ck_schnorr ck1 sig pk leaf pos) (ck_schnorr ck2 sig pk leaf pos)"
begin

lemma flag: "contains fl2 x \<Longrightarrow> contains fl1 x"
  using contains_mono flags by blast

text \<open>The two environments that differ only in the checker and the flags.\<close>

definition envs :: "'c EvalEnv \<Rightarrow> 'd EvalEnv \<Rightarrow> bool" where
  "envs e1 e2 \<longleftrightarrow> env_script e2 = env_script e1 \<and> env_sigversion e2 = env_sigversion e1
     \<and> env_tapleaf e2 = env_tapleaf e1 \<and> env_hashes e2 = env_hashes e1
     \<and> env_flags e1 = fl1 \<and> env_flags e2 = fl2 \<and> env_checker e1 = ck1 \<and> env_checker e2 = ck2"

lemma nop_op_sim: "rel_option okle (nop_op ck1 fl1 op s) (nop_op ck2 fl2 op s)"
proof -
  have "okle (op_cltv ck1 fl1 s) (op_cltv ck2 fl2 s)"
    by (auto simp: okle_def op_cltv_def script_num_eq split: if_splits dest: flag locktime)
  moreover have "okle (op_csv ck1 fl1 s) (op_csv ck2 fl2 s)"
    by (auto simp: okle_def op_csv_def script_num_eq split: if_splits dest: flag sequence)
  ultimately show ?thesis
    by (auto simp: nop_op_def okle_def dest: flag)
qed

lemma stack_op_sim: "(rm' \<Longrightarrow> rm) \<Longrightarrow> rel_option okle (stack_op rm op s) (stack_op rm' op s)"
  by (auto simp: stack_op_def op_pick_roll_def intro!: sim_intros sim_rules)

lemma arith_op_sim: "(rm' \<Longrightarrow> rm) \<Longrightarrow> rel_option okle (arith_op h rm op s) (arith_op h rm' op s)"
  by (auto simp: arith_op_def op_unary_def op_binary_def op_within_def intro!: sim_intros sim_rules)

lemma pure_op_sim:
  assumes "envs e1 e2"
  shows "rel_option okle (pure_op e1 op s) (pure_op e2 op s)"
proof (cases "pushnum_op op s")
  case (Some r)
  then show ?thesis by (simp add: pure_op_def)
next
  case push: None
  show ?thesis
    using nop_op_sim [of op s]
  proof (cases rule: option.rel_cases)
    case None
    have rest: "rel_option okle (stack_op (contains fl1 MINIMALDATA) op s) (stack_op (contains fl2 MINIMALDATA) op s)"
      "rel_option okle (arith_op (env_hashes e1) (contains fl1 MINIMALDATA) op s)
         (arith_op (env_hashes e1) (contains fl2 MINIMALDATA) op s)"
      by (rule stack_op_sim, erule flag) (rule arith_op_sim, erule flag)
    from rest(1) show ?thesis
      by (cases rule: option.rel_cases) (use None push rest(2) assms in \<open>simp_all add: pure_op_def envs_def Let_def\<close>)
  next
    case (Some x y)
    then show ?thesis using push assms by (simp add: pure_op_def envs_def)
  qed
qed

lemma op_if_sim:
  assumes "envs e1 e2"
  shows "okle (op_if e1 f op st) (op_if e2 f op st)"
proof -
  have e: "env_sigversion e2 = env_sigversion e1" "env_flags e1 = fl1" "env_flags e2 = fl2"
    using assms by (simp_all add: envs_def)
  show ?thesis unfolding op_if_def e by (intro sim_intros) (auto dest: flag)
qed

lemma flow_op_sim: "envs e1 e2 \<Longrightarrow> rel_option okle (flow_op e1 f op st) (flow_op e2 f op st)"
  by (auto simp: flow_op_def intro: op_if_sim)

lemma eval_checksig_sim:
  assumes "envs e1 e2"
  shows "simS R (eval_checksig e1 sig pk sep w) (eval_checksig e2 sig pk sep w)"
proof -
  have e: "env_script e2 = env_script e1" "env_sigversion e2 = env_sigversion e1" "env_tapleaf e2 = env_tapleaf e1"
    "env_flags e1 = fl1" "env_flags e2 = fl2" "env_checker e1 = ck1" "env_checker e2 = ck2"
    using assms by (simp_all add: envs_def)
  show ?thesis
    unfolding eval_checksig_def e
    by (intro sim_intros ecdsa schnorr) (auto dest: flag)
qed

lemma op_checksig_sim: "envs e1 e2 \<Longrightarrow> simS R (op_checksig e1 op st) (op_checksig e2 op st)"
  unfolding op_checksig_def by (intro sim_intros eval_checksig_sim)

lemma op_checksigadd_sim:
  assumes "envs e1 e2"
  shows "simS R (op_checksigadd e1 st) (op_checksigadd e2 st)"
proof -
  have e: "env_sigversion e2 = env_sigversion e1" "env_flags e1 = fl1" "env_flags e2 = fl2"
    using assms by (simp_all add: envs_def)
  show ?thesis
    unfolding op_checksigadd_def e
    by (intro sim_intros eval_checksig_sim assms okle_script_num) (auto dest: flag)
qed

lemma multisig_counts_sim: "(rm' \<Longrightarrow> rm) \<Longrightarrow> okle (multisig_counts rm s n) (multisig_counts rm' s n)"
  unfolding multisig_counts_def by (intro sim_intros okle_script_num) auto

lemma multisig_clean_sim: "okle (multisig_clean fl1 s k is code) (multisig_clean fl2 s k is code)"
proof (induction "is" arbitrary: code)
  case (Cons i "is")
  show ?case
    unfolding multisig_clean.simps by (intro sim_intros Cons.IH) (auto dest: flag)
qed simp

lemma multisig_pop_sim: "okle (multisig_pop fl1 b m n s) (multisig_pop fl2 b m n s)"
proof (induction n arbitrary: s)
  case (Suc n)
  have "okle (if \<not> b \<and> contains fl1 NULLFAIL \<and> Suc n \<le> m then
           bindE (inval_stk (stack_peek s)) (\<lambda>top. if item_bytes top \<noteq> [] then invalid SigNullFail else Inr ())
         else Inr ())
       (if \<not> b \<and> contains fl2 NULLFAIL \<and> Suc n \<le> m then
           bindE (inval_stk (stack_peek s)) (\<lambda>top. if item_bytes top \<noteq> [] then invalid SigNullFail else Inr ())
         else Inr ())"
    using flag [of NULLFAIL] by (auto simp: okle_def)
  then show ?case unfolding multisig_pop.simps by (intro sim_intros Suc.IH)
qed simp

lemma multisig_finish_sim: "okle (multisig_finish fl1 b v s) (multisig_finish fl2 b v s)"
proof -
  have "okle (if contains fl1 NULLDUMMY then
           bindE (inval_stk (stack_peek s)) (\<lambda>dummy. if item_bytes dummy \<noteq> [] then invalid SigNullDummy else Inr ())
         else Inr ())
       (if contains fl2 NULLDUMMY then
           bindE (inval_stk (stack_peek s)) (\<lambda>dummy. if item_bytes dummy \<noteq> [] then invalid SigNullDummy else Inr ())
         else Inr ())"
    using flag [of NULLDUMMY] by (auto simp: okle_def)
  then show ?thesis unfolding multisig_finish_def by (intro sim_intros)
qed

lemma multisig_match_sim:
  assumes "envs e1 e2"
  shows "simS R (multisig_match e1 s code ok k m kd sd) (multisig_match e2 s code ok k m kd sd)"
proof -
  have e: "env_sigversion e2 = env_sigversion e1" "env_flags e1 = fl1" "env_flags e2 = fl2"
    "env_checker e1 = ck1" "env_checker e2 = ck2"
    using assms by (simp_all add: envs_def)
  have "multisig_match e1 s code ok k m kd sd c = (Inr x, c') \<Longrightarrow> R c d \<Longrightarrow>
      \<exists>d'. multisig_match e2 s code ok k m kd sd d = (Inr x, d') \<and> R c' d'" for c d x c'
  proof (induction "if ok \<and> 0 < m then k + 1 else 0" arbitrary: ok k m kd sd c d rule: less_induct)
    case less
    note run = less.prems(1) [unfolded multisig_match.simps [of e1 s code ok]]
    show ?case
    proof (cases "ok \<and> 0 < m")
      case False
      then show ?thesis using run less.prems(2) by (auto simp: multisig_match.simps [of e2 s code ok] split: if_splits)
    next
      case True
      then obtain a b where ab: "inval_stk (stack_peek_at s sd) = Inr a" "inval_stk (stack_peek_at s kd) = Inr b"
        using run by (auto split: sum.splits)
      obtain q c1 where q: "ck_ecdsa ck1 (item_bytes a) (item_bytes b) code (env_sigversion e1) fl1 c = (q, c1)"
        by (rule prod.exhaust)
      then obtain good where good: "q = Inr good" using run True ab e by (cases q) auto
      obtain d1 where d1: "ck_ecdsa ck2 (item_bytes a) (item_bytes b) code (env_sigversion e1) fl2 d = (Inr good, d1)" "R c1 d1"
        using simS_D [OF ecdsa less.prems(2)] q good by blast
      let ?m = "if good then m - 1 else m"
      have "multisig_match e1 s code (\<not> ?m > k - 1) (k - 1) ?m (kd + 1) (if good then sd + 1 else sd) c1 = (Inr x, c')"
        using run True ab q good e by (simp add: Let_def)
      moreover have "(if \<not> ?m > k - 1 \<and> 0 < ?m then k - 1 + 1 else 0) < (if ok \<and> 0 < m then k + 1 else 0)"
        using True by auto
      ultimately obtain d' where "multisig_match e2 s code (\<not> ?m > k - 1) (k - 1) ?m (kd + 1) (if good then sd + 1 else sd) d1
          = (Inr x, d')" "R c' d'"
        using less.hyps [of "\<not> ?m > k - 1" ?m "k - 1" "kd + 1" "if good then sd + 1 else sd" c1 d1] d1(2) by blast
      then show ?thesis
        using True ab d1(1) e by (subst multisig_match.simps) (simp add: Let_def)
    qed
  qed
  then show ?thesis by (auto simp: simS_def)
qed

lemma check_multisig_sim:
  assumes "envs e1 e2"
  shows "simS R (check_multisig e1 v st) (check_multisig e2 v st)"
proof -
  have e: "env_script e2 = env_script e1" "env_sigversion e2 = env_sigversion e1" "env_flags e1 = fl1" "env_flags e2 = fl2"
    using assms by (simp_all add: envs_def)
  show ?thesis
    unfolding check_multisig_def e
    by (intro sim_intros multisig_counts_sim multisig_clean_sim multisig_pop_sim multisig_finish_sim
        multisig_match_sim assms flag)
qed

lemma dispatch_sim:
  assumes "envs e1 e2"
  shows "simS R (dispatch e1 op f pos start st) (dispatch e2 op f pos start st)"
  using pure_op_sim [OF assms, of op "stk st"]
proof (cases rule: option.rel_cases)
  case (Some r r')
  then show ?thesis by (simp add: dispatch_def) (intro sim_intros)
next
  case pure: None
  show ?thesis
    using flow_op_sim [OF assms, of f op st]
  proof (cases rule: option.rel_cases)
    case (Some r r')
    then show ?thesis using pure by (simp add: dispatch_def) (intro sim_intros)
  next
    case None
    have sv: "env_sigversion e2 = env_sigversion e1" using assms by (simp add: envs_def)
    show ?thesis
      unfolding dispatch_def pure None op_checkmultisig_def option.case sv
      by (intro sim_intros op_checksig_sim op_checksigadd_sim check_multisig_sim assms)
  qed
qed

lemma eval_instruction_sim:
  assumes "envs e1 e2"
  shows "simS R (eval_instruction e1 i pos start st) (eval_instruction e2 i pos start st)"
proof -
  have e: "env_script e2 = env_script e1" "env_sigversion e2 = env_sigversion e1" "env_flags e1 = fl1" "env_flags e2 = fl2"
    using assms by (simp_all add: envs_def)
  have push: "okle (handle_push_bytes d b t fl1 s) (handle_push_bytes d b t fl2 s)" for d b t s
    unfolding handle_push_bytes_def by (intro sim_intros) (auto dest: flag)
  have rules: "okle (check_opcode_rules b sv fl1 n) (check_opcode_rules b sv fl2 n)" for b sv n
    unfolding check_opcode_rules_def by (intro sim_intros) (auto dest: flag)
  show ?thesis
  proof (cases i)
    case (Op op)
    then show ?thesis
      unfolding eval_instruction_def e Op Instruction.case
      by (intro sim_intros rules dispatch_sim assms)
  next
    case (PushBytes d)
    then show ?thesis
      unfolding eval_instruction_def e PushBytes Instruction.case
      by (intro sim_intros push)
  qed
qed

lemma eval_loop_sim:
  assumes "envs e1 e2"
  shows "simS R (eval_loop e1 it pos start st) (eval_loop e2 it pos start st)"
proof -
  have e: "env_script e2 = env_script e1" using assms by (simp add: envs_def)
  have "eval_loop e1 it pos start st c = (Inr x, c') \<Longrightarrow> R c d \<Longrightarrow>
      \<exists>d'. eval_loop e2 it pos start st d = (Inr x, d') \<and> R c' d'" for c d x c'
  proof (induction "instr_left it" arbitrary: it pos start st c d rule: less_induct)
    case less
    note run = less.prems(1) [unfolded eval_loop.simps [of e1 it pos start st c]]
    obtain r it' where n: "instr_next it = (r, it')" by (rule prod.exhaust)
    show ?case
    proof (cases r)
      case None
      then show ?thesis using run n less.prems(2) by (simp add: eval_loop.simps [of e2 it])
    next
      case (Some y)
      then obtain i where i: "r = Some (Inr i)" using run n by (cases y) auto
      obtain q c1 where q: "eval_instruction e1 i pos start st c = (q, c1)" by (rule prod.exhaust)
      then obtain st1 where st1: "q = Inr st1" using run n i by (cases q) auto
      have depth: "check_stack_depth (stk st1) (altstack st1) = Inr ()"
        using run n i q st1 by (cases "check_stack_depth (stk st1) (altstack st1)") auto
      obtain d1 where d1: "eval_instruction e2 i pos start st d = (Inr st1, d1)" "R c1 d1"
        using simS_D [OF eval_instruction_sim [OF assms] less.prems(2)] q st1 by blast
      have "eval_loop e1 it' (sat_add32 pos 1) (length (env_script e1) - length (remaining it')) st1 c1 = (Inr x, c')"
        using run n i q st1 depth by simp
      moreover have "instr_left it' < instr_left it" using instr_next_left n i by blast
      ultimately obtain d' where "eval_loop e2 it' (sat_add32 pos 1) (length (env_script e1) - length (remaining it')) st1 d1
          = (Inr x, d')" "R c' d'"
        using less.hyps d1(2) by blast
      then show ?thesis using n i d1(1) depth e by (subst eval_loop.simps) simp
    qed
  qed
  then show ?thesis by (auto simp: simS_def)
qed

lemma eval_script_sim:
  assumes "envs e1 e2"
  shows "simS R (eval_script e1 s w) (eval_script e2 s w)"
proof -
  have e: "env_script e2 = env_script e1" "env_sigversion e2 = env_sigversion e1" using assms by (simp_all add: envs_def)
  show ?thesis
    unfolding eval_script_def e by (intro sim_intros eval_loop_sim assms)
qed

lemma tapscript_op_success_sim: "okle (tapscript_op_success script fl1) (tapscript_op_success script fl2)"
proof -
  have "okle (op_success_scan xs fl1) (op_success_scan xs fl2)" for xs
  proof (induction xs)
    case (Cons x xs)
    consider e where "x = Inl e" | op where "x = Inr (Op op)" | d where "x = Inr (PushBytes d)"
      by (metis Instruction.exhaust sum.exhaust)
    then show ?case using Cons flag by cases (auto simp: okle_def)
  qed simp
  then show ?thesis by (simp add: tapscript_op_success_def)
qed

end

end
