(* ===== verification/Eval_Log.thy ===== *)
theory Eval_Log
  imports Eval_Bounds
begin

text \<open>
  Equality of evaluations under two checkers.  The first checker keeps a log, and
  \<open>good\<close> is a condition on logs that can only be lost as a log grows; the second
  keeps a state with an invariant.  The locale \<open>checker_log\<close> assumes that while the log
  is good both checkers answer alike and the invariant is kept; then evaluations
  give the same result, errors included, and keep the invariant.
\<close>

section \<open>Computations with equal results\<close>

definition simE ::
    "('l \<Rightarrow> bool) \<Rightarrow> ('c \<Rightarrow> bool) \<Rightarrow> ('l, 'e, 'a) sresult \<Rightarrow> ('c, 'e, 'a) sresult \<Rightarrow> bool" where
  "simE good keep m m' \<longleftrightarrow>
     (\<forall>l c. good (snd (m l)) \<longrightarrow> good l \<and> (keep c \<longrightarrow> fst (m' c) = fst (m l) \<and> keep (snd (m' c))))"

named_theorems log_intros \<open>introduction rules for equal computations\<close>

lemma simE_liftS [log_intros]: "simE good keep (liftS r) (liftS r)"
  by (simp add: simE_def liftS_def)

lemma simE_bindS [log_intros]:
  assumes "simE good keep m m'" "\<And>x. simE good keep (f x) (f' x)"
  shows "simE good keep (bindS m f) (bindS m' f')"
  unfolding simE_def
proof (intro allI impI)
  fix l c
  assume g: "good (snd (bindS m f l))"
  obtain r l1 where m: "m l = (r, l1)" by (rule prod.exhaust)
  obtain r' c1 where m': "m' c = (r', c1)" by (rule prod.exhaust)
  show "good l \<and> (keep c \<longrightarrow> fst (bindS m' f' c) = fst (bindS m f l) \<and> keep (snd (bindS m' f' c)))"
  proof (cases r)
    case (Inl e)
    then have "good l1" using g m by (simp add: bindS_def)
    then have "good l" "keep c \<Longrightarrow> r' = r \<and> keep c1"
      using assms(1) m m' unfolding simE_def by (metis fst_conv snd_conv)+
    then show ?thesis using Inl m m' by (simp add: bindS_def)
  next
    case (Inr x)
    then have g1: "good (snd (f x l1))" using g m by (simp add: bindS_def)
    then have l1: "good l1" "keep c1 \<Longrightarrow> fst (f' x c1) = fst (f x l1) \<and> keep (snd (f' x c1))"
      using assms(2) [of x] unfolding simE_def by blast+
    then have "good l" "keep c \<Longrightarrow> r' = r \<and> keep c1"
      using assms(1) m m' unfolding simE_def by (metis fst_conv snd_conv)+
    then show ?thesis using l1(2) Inr m m' by (simp add: bindS_def)
  qed
qed

lemma simE_if [log_intros]:
  "(b \<Longrightarrow> simE good keep x x') \<Longrightarrow> (\<not> b \<Longrightarrow> simE good keep y y') \<Longrightarrow> simE good keep (if b then x else y) (if b then x' else y')"
  by simp

lemma simE_let [log_intros]: "(\<And>x. simE good keep (f x) (g x)) \<Longrightarrow> simE good keep (let x = v in f x) (let x = v in g x)"
  by simp

lemma simE_prod [log_intros]:
  "(\<And>a b. simE good keep (f a b) (g a b)) \<Longrightarrow> simE good keep (case p of (a, b) \<Rightarrow> f a b) (case p of (a, b) \<Rightarrow> g a b)"
  by (cases p) simp

lemma simE_option [log_intros]:
  "simE good keep x x' \<Longrightarrow> (\<And>a. simE good keep (f a) (f' a)) \<Longrightarrow>
   simE good keep (case p of None \<Rightarrow> x | Some a \<Rightarrow> f a) (case p of None \<Rightarrow> x' | Some a \<Rightarrow> f' a)"
  by (cases p) simp_all

lemma simE_sum:
  "(\<And>e. simE good keep (f e) (f' e)) \<Longrightarrow> (\<And>a. simE good keep (g a) (g' a)) \<Longrightarrow>
   simE good keep (case p of Inl e \<Rightarrow> f e | Inr a \<Rightarrow> g a) (case p of Inl e \<Rightarrow> f' e | Inr a \<Rightarrow> g' a)"
  by (cases p) simp_all

lemma simE_D:
  "simE good keep m m' \<Longrightarrow> good (snd (m l)) \<Longrightarrow> keep c \<Longrightarrow> fst (m' c) = fst (m l) \<and> keep (snd (m' c))"
  by (simp add: simE_def)

section \<open>The recursive functions as binds\<close>

lemma multisig_match_bind:
  "multisig_match env s code success k m kd sd =
     (if success \<and> m > 0 then
        bindS (liftS (inval_stk (stack_peek_at s sd))) (\<lambda>a.
        bindS (liftS (inval_stk (stack_peek_at s kd))) (\<lambda>b.
        bindS (ck_ecdsa (env_checker env) (item_bytes a) (item_bytes b) code (env_sigversion env) (env_flags env)) (\<lambda>ok.
        multisig_match env s code (\<not> (if ok then m - 1 else m) > k - 1) (k - 1) (if ok then m - 1 else m) (kd + 1)
          (if ok then sd + 1 else sd))))
      else liftS (Inr success))"
  by (rule ext) (simp add: multisig_match.simps [of env s code success] bindS_def liftS_def Let_def split: sum.split prod.split)

lemma eval_loop_bind:
  "eval_loop env it pos start st = (case instr_next it of
     (None, _) \<Rightarrow> liftS (Inr st)
   | (Some (Inl _), _) \<Rightarrow> liftS (invalid BadOpcode)
   | (Some (Inr i), it') \<Rightarrow>
       bindS (eval_instruction env i pos start st) (\<lambda>st'.
       bindS (liftS (check_stack_depth (stk st') (altstack st'))) (\<lambda>_.
       eval_loop env it' (sat_add32 pos 1) (length (env_script env) - length (remaining it')) st')))"
  by (rule ext) (simp add: eval_loop.simps [of env it] bindS_def liftS_def split: option.split sum.split prod.split)

section \<open>Lifting through the evaluator\<close>

locale checker_log =
  fixes good :: "'l \<Rightarrow> bool"
    and keep :: "'c \<Rightarrow> bool"
    and ck1 :: "'l checker_ops"
    and ck2 :: "'c checker_ops"
  assumes locktime: "ck_locktime ck2 = ck_locktime ck1"
    and sequence: "ck_sequence ck2 = ck_sequence ck1"
    and ecdsa: "simE good keep (ck_ecdsa ck1 sig pk code sv fl) (ck_ecdsa ck2 sig pk code sv fl)"
    and schnorr: "simE good keep (ck_schnorr ck1 sig pk leaf pos) (ck_schnorr ck2 sig pk leaf pos)"
begin

definition same_env :: "'l EvalEnv \<Rightarrow> 'c EvalEnv \<Rightarrow> bool" where
  "same_env e1 e2 \<longleftrightarrow> env_script e2 = env_script e1 \<and> env_flags e2 = env_flags e1
     \<and> env_sigversion e2 = env_sigversion e1 \<and> env_tapleaf e2 = env_tapleaf e1 \<and> env_hashes e2 = env_hashes e1
     \<and> env_checker e1 = ck1 \<and> env_checker e2 = ck2"

lemma same_envD:
  assumes "same_env e1 e2"
  shows "env_script e2 = env_script e1" "env_flags e2 = env_flags e1" "env_sigversion e2 = env_sigversion e1"
    "env_tapleaf e2 = env_tapleaf e1" "env_hashes e2 = env_hashes e1" "env_checker e1 = ck1" "env_checker e2 = ck2"
  using assms by (simp_all add: same_env_def)

lemma pure_op_same:
  assumes "same_env e1 e2"
  shows "pure_op e2 op s = pure_op e1 op s"
  unfolding pure_op_def nop_op_def op_cltv_def op_csv_def same_envD [OF assms] locktime sequence ..

lemma flow_op_same:
  assumes "same_env e1 e2"
  shows "flow_op e2 f op st = flow_op e1 f op st"
  unfolding flow_op_def op_if_def same_envD [OF assms] ..

lemma checksig_log:
  assumes "same_env e1 e2"
  shows "simE good keep (eval_checksig e1 sig pk sep w) (eval_checksig e2 sig pk sep w)"
  unfolding eval_checksig_def same_envD [OF assms] by (intro log_intros ecdsa schnorr)

lemma op_checksig_log: "same_env e1 e2 \<Longrightarrow> simE good keep (op_checksig e1 op st) (op_checksig e2 op st)"
  unfolding op_checksig_def by (intro log_intros checksig_log)

lemma op_checksigadd_log:
  assumes "same_env e1 e2"
  shows "simE good keep (op_checksigadd e1 st) (op_checksigadd e2 st)"
  unfolding op_checksigadd_def same_envD [OF assms] by (intro log_intros checksig_log assms)

lemma multisig_match_log:
  assumes "same_env e1 e2"
  shows "simE good keep (multisig_match e1 s code ok k m kd sd) (multisig_match e2 s code ok k m kd sd)"
proof (induction "if ok \<and> 0 < m then k + 1 else 0" arbitrary: ok k m kd sd rule: less_induct)
  case less
  show ?case
  proof (cases "ok \<and> 0 < m")
    case True
    have "simE good keep
        (multisig_match e1 s code (\<not> (if g then m - 1 else m) > k - 1) (k - 1) (if g then m - 1 else m) (kd + 1) sd')
        (multisig_match e2 s code (\<not> (if g then m - 1 else m) > k - 1) (k - 1) (if g then m - 1 else m) (kd + 1) sd')" for g sd'
      by (rule less) (use True in auto)
    then show ?thesis
      unfolding multisig_match_bind [of e1 s code ok] multisig_match_bind [of e2 s code ok] same_envD [OF assms]
      by (intro log_intros ecdsa)
  next
    case False
    then show ?thesis
      unfolding multisig_match_bind [of e1 s code ok] multisig_match_bind [of e2 s code ok] if_not_P [OF False]
      by (intro log_intros)
  qed
qed

lemma check_multisig_log:
  assumes "same_env e1 e2"
  shows "simE good keep (check_multisig e1 v st) (check_multisig e2 v st)"
  unfolding check_multisig_def same_envD [OF assms] by (intro log_intros multisig_match_log assms)

lemma dispatch_log:
  assumes "same_env e1 e2"
  shows "simE good keep (dispatch e1 op f pos start st) (dispatch e2 op f pos start st)"
  unfolding dispatch_def op_checkmultisig_def pure_op_same [OF assms] flow_op_same [OF assms] same_envD(3) [OF assms]
  by (intro log_intros op_checksig_log op_checksigadd_log check_multisig_log assms)

lemma eval_instruction_log:
  assumes "same_env e1 e2"
  shows "simE good keep (eval_instruction e1 i pos start st) (eval_instruction e2 i pos start st)"
  unfolding eval_instruction_def same_envD [OF assms]
  by (cases i; simp only: Instruction.case) (intro log_intros dispatch_log assms)+

lemma eval_loop_log:
  assumes "same_env e1 e2"
  shows "simE good keep (eval_loop e1 it pos start st) (eval_loop e2 it pos start st)"
proof (induction "instr_left it" arbitrary: it pos start st rule: less_induct)
  case less
  obtain r it' where n: "instr_next it = (r, it')" by (rule prod.exhaust)
  consider "r = None" | e where "r = Some (Inl e)" | i where "r = Some (Inr i)" by (metis not_Some_eq sum.exhaust)
  then show ?case
  proof cases
    case 3
    then have "instr_left it' < instr_left it" using instr_next_left n by blast
    note IH = less [OF this]
    show ?thesis
      unfolding eval_loop_bind [of e1 it] eval_loop_bind [of e2 it] n 3 prod.case option.case sum.case same_envD(1) [OF assms]
      by (intro log_intros eval_instruction_log assms IH)
  qed (simp_all add: eval_loop_bind [of _ it] n simE_liftS)
qed

lemma eval_script_log:
  assumes "same_env e1 e2"
  shows "simE good keep (eval_script e1 s w) (eval_script e2 s w)"
  unfolding eval_script_def same_envD [OF assms] by (intro log_intros eval_loop_log assms)

end

end
