(* ===== verification/Tx.thy ===== *)
theory Tx
  imports Varint
begin

text \<open>
  Transactions, headers and blocks with their consensus encoding
  (\<open>src/crates/primitives/src\<close>: \<open>tx.rs\<close>, \<open>outpoint.rs\<close>, \<open>header.rs\<close>, \<open>block.rs\<close>,
  \<open>encode.rs\<close>, \<open>units.rs\<close>).  A \<open>Sink\<close> that bytes are written to is the byte string
  written; a hash engine fed in pieces is the hash of the concatenation.  The
  witness of an input is the list of its items, which the source keeps in one flat
  buffer.  SHA-256 is a parameter.
\<close>

section \<open>Data\<close>

abbreviation COIN :: nat where "COIN \<equiv> 100000000"
abbreviation MAX_MONEY :: nat where "MAX_MONEY \<equiv> 21000000 * COIN"
abbreviation LOCKTIME_THRESHOLD :: nat where "LOCKTIME_THRESHOLD \<equiv> 500000000"
abbreviation SEQUENCE_FINAL :: u32 where "SEQUENCE_FINAL \<equiv> 0xffffffff"
abbreviation SEQUENCE_LOCKTIME_DISABLE_FLAG :: u32 where "SEQUENCE_LOCKTIME_DISABLE_FLAG \<equiv> 0x80000000"
abbreviation SEQUENCE_LOCKTIME_TYPE_FLAG :: u32 where "SEQUENCE_LOCKTIME_TYPE_FLAG \<equiv> 0x400000"
abbreviation SEQUENCE_LOCKTIME_MASK :: u32 where "SEQUENCE_LOCKTIME_MASK \<equiv> 0x0000ffff"

record OutPoint =
  op_txid :: hash256
  op_vout :: u32

record TxIn =
  in_prevout :: OutPoint
  in_script_sig :: bytes
  in_sequence :: u32
  in_witness :: "bytes list"

record TxOut =
  out_value :: u64
  out_script_pubkey :: bytes

record Tx =
  tx_version :: u32
  tx_inputs :: "TxIn list"
  tx_outputs :: "TxOut list"
  tx_lock_time :: u32

record Header =
  h_version :: u32
  h_prev_blockhash :: hash256
  h_merkle_root :: hash256
  h_time :: u32
  h_bits :: u32
  h_nonce :: u32

record Block =
  b_header :: Header
  b_txs :: "Tx list"

definition outpoint_is_null :: "OutPoint \<Rightarrow> bool" where
  "outpoint_is_null p \<longleftrightarrow> op_vout p = 0xffffffff \<and> list_all (\<lambda>b. b = 0) (op_txid p)"

definition is_coinbase :: "Tx \<Rightarrow> bool" where
  "is_coinbase tx \<longleftrightarrow> length (tx_inputs tx) = 1 \<and> outpoint_is_null (in_prevout (tx_inputs tx ! 0))"

definition has_witness :: "Tx \<Rightarrow> bool" where
  "has_witness tx \<longleftrightarrow> list_ex (\<lambda>input. in_witness input \<noteq> []) (tx_inputs tx)"

section \<open>Encoding\<close>

definition write_compact :: "nat \<Rightarrow> bytes" where
  "write_compact v = varint_encode v"

definition write_script :: "bytes \<Rightarrow> bytes" where
  "write_script script = write_compact (length script) @ script"

definition encode_outpoint :: "OutPoint \<Rightarrow> bytes" where
  "encode_outpoint p = op_txid p @ u32_le (op_vout p)"

definition header_to_bytes :: "Header \<Rightarrow> bytes" where
  "header_to_bytes h = u32_le (h_version h) @ h_prev_blockhash h @ h_merkle_root h @ u32_le (h_time h)
     @ u32_le (h_bits h) @ u32_le (h_nonce h)"

definition header_from_bytes :: "bytes \<Rightarrow> Header" where
  "header_from_bytes bs =
     \<lparr> h_version = u32_of_le (slice bs 0 4),
       h_prev_blockhash = slice bs 4 36,
       h_merkle_root = slice bs 36 68,
       h_time = u32_of_le (slice bs 68 72),
       h_bits = u32_of_le (slice bs 72 76),
       h_nonce = u32_of_le (slice bs 76 80) \<rparr>"

definition encode_txout :: "TxOut \<Rightarrow> bytes" where
  "encode_txout out = u64_le (out_value out) @ write_script (out_script_pubkey out)"

definition encode_txin :: "TxIn \<Rightarrow> bytes" where
  "encode_txin inp = encode_outpoint (in_prevout inp) @ write_script (in_script_sig inp) @ u32_le (in_sequence inp)"

definition encode_tx_inputs_and_outputs :: "Tx \<Rightarrow> bytes" where
  "encode_tx_inputs_and_outputs tx =
     write_compact (length (tx_inputs tx)) @ concat (map encode_txin (tx_inputs tx))
     @ write_compact (length (tx_outputs tx)) @ concat (map encode_txout (tx_outputs tx))"

definition encode_tx_base :: "Tx \<Rightarrow> bytes" where
  "encode_tx_base tx = u32_le (tx_version tx) @ encode_tx_inputs_and_outputs tx @ u32_le (tx_lock_time tx)"

definition encode_witness :: "bytes list \<Rightarrow> bytes" where
  "encode_witness w = write_compact (length w) @ concat (map (\<lambda>item. write_compact (length item) @ item) w)"

definition encode_tx :: "Tx \<Rightarrow> bytes" where
  "encode_tx tx =
     (if \<not> has_witness tx then encode_tx_base tx
      else u32_le (tx_version tx) @ [0x00, 0x01] @ encode_tx_inputs_and_outputs tx
        @ concat (map (\<lambda>input. encode_witness (in_witness input)) (tx_inputs tx))
        @ u32_le (tx_lock_time tx))"

definition encode_block :: "Block \<Rightarrow> bytes" where
  "encode_block b = header_to_bytes (b_header b) @ write_compact (length (b_txs b)) @ concat (map encode_tx (b_txs b))"

section \<open>Hashes\<close>

definition double_sha256 :: "(bytes \<Rightarrow> bytes) \<Rightarrow> bytes \<Rightarrow> hash256" where
  "double_sha256 sha bs = sha (sha bs)"

definition txid :: "(bytes \<Rightarrow> bytes) \<Rightarrow> Tx \<Rightarrow> hash256" where
  "txid sha tx = double_sha256 sha (encode_tx_base tx)"

definition wtxid :: "(bytes \<Rightarrow> bytes) \<Rightarrow> Tx \<Rightarrow> hash256" where
  "wtxid sha tx = double_sha256 sha (encode_tx tx)"

definition compute_hash :: "(bytes \<Rightarrow> bytes) \<Rightarrow> Header \<Rightarrow> hash256" where
  "compute_hash sha h = double_sha256 sha (header_to_bytes h)"

section \<open>Sizes\<close>

definition sat_sum :: "nat list \<Rightarrow> nat" where
  "sat_sum ns = foldl sat_add64 0 ns"

definition script_size :: "bytes \<Rightarrow> nat" where
  "script_size script = sat_add64 (encoded_len (length script)) (length script)"

definition txin_size :: "TxIn \<Rightarrow> nat" where
  "txin_size inp = sat_add64 (sat_add64 36 (script_size (in_script_sig inp))) 4"

definition txout_size :: "TxOut \<Rightarrow> nat" where
  "txout_size out = sat_add64 8 (script_size (out_script_pubkey out))"

definition witness_stack_size :: "bytes list \<Rightarrow> nat" where
  "witness_stack_size w = sat_add64 (encoded_len (length w)) (sat_sum (map script_size w))"

definition tx_base_size :: "Tx \<Rightarrow> nat" where
  "tx_base_size tx =
     sat_add64 (sat_add64 (sat_add64 (sat_add64 (sat_add64 4 (encoded_len (length (tx_inputs tx))))
       (sat_sum (map txin_size (tx_inputs tx))))
       (encoded_len (length (tx_outputs tx))))
       (sat_sum (map txout_size (tx_outputs tx)))) 4"

definition tx_witness_size :: "Tx \<Rightarrow> nat" where
  "tx_witness_size tx =
     (if \<not> has_witness tx then 0
      else sat_add64 2 (sat_sum (map (\<lambda>input. witness_stack_size (in_witness input)) (tx_inputs tx))))"

definition tx_consensus_size :: "Tx \<Rightarrow> nat" where
  "tx_consensus_size tx = sat_add64 (tx_base_size tx) (tx_witness_size tx)"

definition tx_weight :: "Tx \<Rightarrow> nat" where
  "tx_weight tx = sat_add64 (sat_mul64 (tx_base_size tx) 3) (tx_consensus_size tx)"

definition vsize_from_weight :: "nat \<Rightarrow> nat" where
  "vsize_from_weight weight = (weight + 3) div 4"

definition tx_vsize :: "Tx \<Rightarrow> nat" where
  "tx_vsize tx = vsize_from_weight (tx_weight tx)"

definition block_consensus_size :: "Block \<Rightarrow> nat" where
  "block_consensus_size b =
     sat_add64 (sat_add64 80 (encoded_len (length (b_txs b)))) (sat_sum (map tx_consensus_size (b_txs b)))"

text \<open>
  \<open>stripped_size\<close> adds the base sizes with a plain \<open>sum\<close>; the definition follows it for
  blocks that fit into memory, whose sizes add up to less than \<open>2 ^ 64\<close>.
\<close>

definition block_stripped_size :: "Block \<Rightarrow> nat" where
  "block_stripped_size b =
     sat_add64 (sat_add64 80 (encoded_len (length (b_txs b)))) (sum_list (map tx_base_size (b_txs b)))"

definition block_weight :: "Block \<Rightarrow> nat" where
  "block_weight b = sat_add64 (sat_mul64 (block_stripped_size b) 3) (block_consensus_size b)"

section \<open>The computed sizes are the lengths of the encodings\<close>

lemma sat_add_min: "sat_add m (min m a) (min m b) = min m (a + b)"
  by (simp add: sat_add_def)

lemma sat_add_min_left: "sat_add m (min m a) b = min m (a + b)"
  by (simp add: sat_add_def)

lemma sat_add_min_right: "sat_add m a (min m b) = min m (a + b)"
  by (simp add: sat_add_def)

lemma min_add_min: "min (m :: nat) (min m a + b) = min m (a + b)" "min (m :: nat) (a + min m b) = min m (a + b)"
  by (simp_all add: min_def)

lemmas sat_add_mins = sat_add_min sat_add_min_left sat_add_min_right

lemma sat_sum_min: "sat_sum (map (\<lambda>x. min u64_max (f x)) xs) = min u64_max (sum_list (map f xs))"
proof -
  have "foldl sat_add64 (min u64_max a) (map (\<lambda>x. min u64_max (f x)) xs) = min u64_max (a + sum_list (map f xs))" for a
    by (induction xs arbitrary: a) (simp_all add: sat_add_min add.assoc)
  from this [of 0] show ?thesis by (simp add: sat_sum_def)
qed

lemma length_write_compact [simp, len_simps]: "length (write_compact v) = encoded_len v"
  by (simp add: write_compact_def)

lemma length_write_script [simp, len_simps]: "length (write_script s) = encoded_len (length s) + length s"
  by (simp add: write_script_def)

lemma script_size_eq: "script_size s = min u64_max (length (write_script s))"
  by (simp add: script_size_def sat_add_def)

lemma length_encode_txin: "length (op_txid (in_prevout i)) = 32 \<Longrightarrow> length (encode_txin i) = 36 + length (write_script (in_script_sig i)) + 4"
  by (simp add: encode_txin_def encode_outpoint_def)

lemma txin_size_eq: "length (op_txid (in_prevout i)) = 32 \<Longrightarrow> txin_size i = min u64_max (length (encode_txin i))"
  by (simp add: txin_size_def script_size_eq sat_add_mins length_encode_txin del: length_write_script)

lemma txout_size_eq: "txout_size out = min u64_max (length (encode_txout out))"
  by (simp add: txout_size_def script_size_eq sat_add_mins encode_txout_def del: length_write_script)

lemma witness_stack_size_eq: "witness_stack_size w = min u64_max (length (encode_witness w))"
proof -
  have "witness_stack_size w = min u64_max (encoded_len (length w) + sum_list (map (\<lambda>s. length (write_script s)) w))"
    by (simp add: witness_stack_size_def script_size_eq [abs_def] sat_sum_min sat_add_mins del: length_write_script)
  then show ?thesis
    by (simp add: encode_witness_def length_concat comp_def)
qed

definition tx_hashes_wf :: "Tx \<Rightarrow> bool" where
  "tx_hashes_wf tx \<longleftrightarrow> list_all (\<lambda>i. length (op_txid (in_prevout i)) = 32) (tx_inputs tx)"

lemma map_cong_list_all: "list_all P xs \<Longrightarrow> (\<And>x. P x \<Longrightarrow> f x = g x) \<Longrightarrow> map f xs = map g xs"
  by (induction xs) auto

lemma tx_base_size_eq: "tx_hashes_wf tx \<Longrightarrow> tx_base_size tx = min u64_max (length (encode_tx_base tx))"
proof -
  assume wf: "tx_hashes_wf tx"
  have ins: "map txin_size (tx_inputs tx) = map (\<lambda>i. min u64_max (length (encode_txin i))) (tx_inputs tx)"
    using wf unfolding tx_hashes_wf_def by (rule map_cong_list_all) (rule txin_size_eq)
  show ?thesis
    unfolding tx_base_size_def ins sat_sum_min txout_size_eq [abs_def] sat_add_def min_add_min
    by (simp add: encode_tx_base_def encode_tx_inputs_and_outputs_def length_concat comp_def add.assoc)
qed

lemma length_encode_tx_witness:
  "has_witness tx \<Longrightarrow> length (encode_tx tx) =
     length (encode_tx_base tx) + (2 + sum_list (map (\<lambda>i. length (encode_witness (in_witness i))) (tx_inputs tx)))"
  by (simp add: encode_tx_def encode_tx_base_def length_concat comp_def)

lemma tx_consensus_size_eq: "tx_hashes_wf tx \<Longrightarrow> tx_consensus_size tx = min u64_max (length (encode_tx tx))"
proof (cases "has_witness tx")
  case False
  assume "tx_hashes_wf tx"
  then show ?thesis
    using False by (simp add: tx_consensus_size_def tx_base_size_eq tx_witness_size_def encode_tx_def sat_add_def)
next
  case True
  assume wf: "tx_hashes_wf tx"
  show ?thesis
    unfolding tx_consensus_size_def tx_base_size_eq [OF wf] length_encode_tx_witness [OF True]
    using True by (simp add: tx_witness_size_def witness_stack_size_eq [abs_def] sat_sum_min sat_add_mins)
qed

section \<open>Headers\<close>

lemma length_header_to_bytes:
  "length (h_prev_blockhash h) = 32 \<Longrightarrow> length (h_merkle_root h) = 32 \<Longrightarrow> length (header_to_bytes h) = 80"
  by (simp add: header_to_bytes_def)

lemma header_from_to_bytes:
  assumes "length (h_prev_blockhash h) = 32" "length (h_merkle_root h) = 32"
  shows "header_from_bytes (header_to_bytes h) = h"
  using assms by (simp add: header_from_bytes_def header_to_bytes_def slice_def)

lemma slice_append: "i \<le> j \<Longrightarrow> j \<le> k \<Longrightarrow> slice xs i j @ slice xs j k = slice xs i k"
proof -
  assume "i \<le> j" "j \<le> k"
  then obtain a b where e: "j = i + a" "k = i + a + b" by (metis le_Suc_ex)
  show ?thesis by (simp add: e slice_def take_add add.commute)
qed

lemma header_to_from_bytes:
  assumes "length bs = 80"
  shows "header_to_bytes (header_from_bytes bs) = bs"
proof -
  have "slice bs 0 4 @ slice bs 4 36 @ slice bs 36 68 @ slice bs 68 72 @ slice bs 72 76 @ slice bs 76 80 = slice bs 0 80"
    by (simp add: slice_append)
  moreover have "slice bs 0 80 = bs" using assms by (simp add: slice_def)
  moreover have "u32_le (u32_of_le (slice bs i (i + 4))) = slice bs i (i + 4)" if "i \<le> 76" for i
    using assms that by (intro u32_le_of_le) simp
  from this [of 0] this [of 68] this [of 72] this [of 76]
  have "u32_le (u32_of_le (slice bs 0 4)) = slice bs 0 4" "u32_le (u32_of_le (slice bs 68 72)) = slice bs 68 72"
    "u32_le (u32_of_le (slice bs 72 76)) = slice bs 72 76" "u32_le (u32_of_le (slice bs 76 80)) = slice bs 76 80"
    by simp_all
  ultimately show ?thesis by (simp add: header_from_bytes_def header_to_bytes_def)
qed

end
