(* ===== verification/Sighash.thy ===== *)
theory Sighash
  imports Tx
begin

text \<open>
  Signature hashes (\<open>src/crates/primitives/src/sighash.rs\<close>): the legacy, segwit
  v0 and taproot messages.  The \<open>SighashCache\<close> keeps each intermediate digest in
  a write-once cell; since every cell holds a function of the transaction (and of
  the prevouts, which one cache is always called with), the model computes the
  digest where the source reads the cell.
\<close>

section \<open>Types\<close>

datatype Sighash = SH_All | SH_None | SH_Single | SH_AllAnyoneCanPay | SH_NoneAnyoneCanPay | SH_SingleAnyoneCanPay | SH_Default

datatype AnnexError = AnnexEmpty | AnnexInvalidFirstByte

datatype SighashError =
    InputOutOfRange nat nat
  | DefaultOnlyTaproot
  | InvalidAnnex AnnexError
  | SingleMissingOutput nat nat
  | PrevoutsLength nat nat
  | PrevoutsIndex nat
  | UnknownType byte

datatype EcdsaType = EAll | ENone | ESingle | EAllAnyoneCanPay | ENoneAnyoneCanPay | ESingleAnyoneCanPay

definition ecdsa_from_consensus :: "u32 \<Rightarrow> EcdsaType" where
  "ecdsa_from_consensus n =
     (let masked = (n AND 0x1f) OR (n AND 0x80) in
      if masked = 0x01 then EAll
      else if masked = 0x02 then ENone
      else if masked = 0x03 then ESingle
      else if masked = 0x81 then EAllAnyoneCanPay
      else if masked = 0x82 then ENoneAnyoneCanPay
      else if masked = 0x83 then ESingleAnyoneCanPay
      else if n AND 0x80 = 0x80 then EAllAnyoneCanPay
      else EAll)"

definition is_anyone_can_pay :: "EcdsaType \<Rightarrow> bool" where
  "is_anyone_can_pay ty = (case ty of
     EAllAnyoneCanPay \<Rightarrow> True | ENoneAnyoneCanPay \<Rightarrow> True | ESingleAnyoneCanPay \<Rightarrow> True | _ \<Rightarrow> False)"

definition is_single :: "EcdsaType \<Rightarrow> bool" where
  "is_single ty = (case ty of ESingle \<Rightarrow> True | ESingleAnyoneCanPay \<Rightarrow> True | _ \<Rightarrow> False)"

definition is_none_type :: "EcdsaType \<Rightarrow> bool" where
  "is_none_type ty = (case ty of ENone \<Rightarrow> True | ENoneAnyoneCanPay \<Rightarrow> True | _ \<Rightarrow> False)"

definition ecdsa_to_u32 :: "EcdsaType \<Rightarrow> u32" where
  "ecdsa_to_u32 ty = (case ty of
     EAll \<Rightarrow> 0x01 | ENone \<Rightarrow> 0x02 | ESingle \<Rightarrow> 0x03
   | EAllAnyoneCanPay \<Rightarrow> 0x81 | ENoneAnyoneCanPay \<Rightarrow> 0x82 | ESingleAnyoneCanPay \<Rightarrow> 0x83)"

definition sighash_to_u8 :: "Sighash \<Rightarrow> byte" where
  "sighash_to_u8 ty = (case ty of
     SH_Default \<Rightarrow> 0x00 | SH_All \<Rightarrow> 0x01 | SH_None \<Rightarrow> 0x02 | SH_Single \<Rightarrow> 0x03
   | SH_AllAnyoneCanPay \<Rightarrow> 0x81 | SH_NoneAnyoneCanPay \<Rightarrow> 0x82 | SH_SingleAnyoneCanPay \<Rightarrow> 0x83)"

definition sighash_from_consensus_u8 :: "byte \<Rightarrow> SighashError + Sighash" where
  "sighash_from_consensus_u8 b =
     (if b = 0x00 then Inr SH_Default
      else if b = 0x01 then Inr SH_All
      else if b = 0x02 then Inr SH_None
      else if b = 0x03 then Inr SH_Single
      else if b = 0x81 then Inr SH_AllAnyoneCanPay
      else if b = 0x82 then Inr SH_NoneAnyoneCanPay
      else if b = 0x83 then Inr SH_SingleAnyoneCanPay
      else Inl (UnknownType b))"

definition sighash_to_ecdsa :: "Sighash \<Rightarrow> SighashError + EcdsaType" where
  "sighash_to_ecdsa ty = (case ty of
     SH_All \<Rightarrow> Inr EAll | SH_None \<Rightarrow> Inr ENone | SH_Single \<Rightarrow> Inr ESingle
   | SH_AllAnyoneCanPay \<Rightarrow> Inr EAllAnyoneCanPay | SH_NoneAnyoneCanPay \<Rightarrow> Inr ENoneAnyoneCanPay
   | SH_SingleAnyoneCanPay \<Rightarrow> Inr ESingleAnyoneCanPay
   | SH_Default \<Rightarrow> Inl DefaultOnlyTaproot)"

section \<open>The legacy hash\<close>

definition uint256_one :: hash256 where
  "uint256_one = 1 # replicate 31 0"

definition encode_legacy_input :: "TxIn \<Rightarrow> bytes \<Rightarrow> u32 \<Rightarrow> bytes" where
  "encode_legacy_input inp script seqn = encode_outpoint (in_prevout inp) @ write_script script @ u32_le seqn"

text \<open>The inputs with their positions, as \<open>iter().enumerate()\<close> yields them.\<close>

definition legacy_inputs :: "Tx \<Rightarrow> nat \<Rightarrow> bytes \<Rightarrow> EcdsaType \<Rightarrow> bytes" where
  "legacy_inputs tx input_index script_code ty =
     (if is_anyone_can_pay ty then
        (let inp = tx_inputs tx ! input_index in
         write_compact 1 @ encode_legacy_input inp script_code (in_sequence inp))
      else
        write_compact (length (tx_inputs tx))
        @ concat (map (\<lambda>(n, txin).
            encode_legacy_input txin
              (if n = input_index then script_code else [])
              (if n \<noteq> input_index \<and> (is_single ty \<or> is_none_type ty) then 0 else in_sequence txin))
          (List.enumerate 0 (tx_inputs tx))))"

definition legacy_outputs :: "Tx \<Rightarrow> nat \<Rightarrow> EcdsaType \<Rightarrow> bytes" where
  "legacy_outputs tx input_index ty =
     (if ty = EAll \<or> ty = EAllAnyoneCanPay then
        write_compact (length (tx_outputs tx)) @ concat (map encode_txout (tx_outputs tx))
      else if ty = ESingle \<or> ty = ESingleAnyoneCanPay then
        write_compact (input_index + 1)
        @ concat (map (\<lambda>(n, out).
            if n = input_index then encode_txout out else u64_le (- 1) @ write_compact 0)
          (take (input_index + 1) (List.enumerate 0 (tx_outputs tx))))
      else write_compact 0)"

definition legacy_preimage :: "Tx \<Rightarrow> nat \<Rightarrow> bytes \<Rightarrow> u32 \<Rightarrow> bytes" where
  "legacy_preimage tx input_index script_code sighash_type =
     (let ty = ecdsa_from_consensus sighash_type in
      u32_le (tx_version tx)
      @ legacy_inputs tx input_index script_code ty
      @ legacy_outputs tx input_index ty
      @ u32_le (tx_lock_time tx)
      @ u32_le sighash_type)"

definition legacy_signature_hash ::
    "(bytes \<Rightarrow> bytes) \<Rightarrow> Tx \<Rightarrow> nat \<Rightarrow> bytes \<Rightarrow> u32 \<Rightarrow> SighashError + hash256" where
  "legacy_signature_hash sha tx input_index script_code sighash_type =
     (if length (tx_inputs tx) \<le> input_index then Inl (InputOutOfRange input_index (length (tx_inputs tx)))
      else if is_single (ecdsa_from_consensus sighash_type) \<and> input_index \<ge> length (tx_outputs tx)
        then Inr uint256_one
      else Inr (double_sha256 sha (legacy_preimage tx input_index script_code sighash_type)))"

section \<open>Digests shared by the segwit and taproot hashes\<close>

definition cached_prevouts :: "(bytes \<Rightarrow> bytes) \<Rightarrow> Tx \<Rightarrow> hash256" where
  "cached_prevouts sha tx = sha (concat (map (\<lambda>i. encode_outpoint (in_prevout i)) (tx_inputs tx)))"

definition cached_sequences :: "(bytes \<Rightarrow> bytes) \<Rightarrow> Tx \<Rightarrow> hash256" where
  "cached_sequences sha tx = sha (concat (map (\<lambda>i. u32_le (in_sequence i)) (tx_inputs tx)))"

definition cached_outputs :: "(bytes \<Rightarrow> bytes) \<Rightarrow> Tx \<Rightarrow> hash256" where
  "cached_outputs sha tx = sha (concat (map encode_txout (tx_outputs tx)))"

definition taproot_amounts :: "(bytes \<Rightarrow> bytes) \<Rightarrow> TxOut list \<Rightarrow> hash256" where
  "taproot_amounts sha prevouts = sha (concat (map (\<lambda>p. u64_le (out_value p)) prevouts))"

definition taproot_scriptpubkeys :: "(bytes \<Rightarrow> bytes) \<Rightarrow> TxOut list \<Rightarrow> hash256" where
  "taproot_scriptpubkeys sha prevouts = sha (concat (map (\<lambda>p. write_script (out_script_pubkey p)) prevouts))"

section \<open>The segwit v0 hash\<close>

definition zero_hash :: hash256 where
  "zero_hash = replicate 32 0"

definition segwit_preimage :: "(bytes \<Rightarrow> bytes) \<Rightarrow> Tx \<Rightarrow> nat \<Rightarrow> bytes \<Rightarrow> u64 \<Rightarrow> u32 \<Rightarrow> bytes" where
  "segwit_preimage sha tx input_index script_code amount sighash_type =
     (let ty = ecdsa_from_consensus sighash_type;
          inp = tx_inputs tx ! input_index;
          prevouts_hash = (if is_anyone_can_pay ty then zero_hash else sha (cached_prevouts sha tx));
          sequences_hash = (if is_anyone_can_pay ty \<or> is_single ty \<or> is_none_type ty then zero_hash
                            else sha (cached_sequences sha tx));
          outputs_hash = (if \<not> is_single ty \<and> \<not> is_none_type ty then sha (cached_outputs sha tx)
                          else if is_single ty then
                            (case get_at (tx_outputs tx) input_index of
                               Some out \<Rightarrow> double_sha256 sha (encode_txout out)
                             | None \<Rightarrow> zero_hash)
                          else zero_hash)
      in u32_le (tx_version tx) @ prevouts_hash @ sequences_hash
         @ encode_outpoint (in_prevout inp) @ write_script script_code @ u64_le amount
         @ u32_le (in_sequence inp) @ outputs_hash @ u32_le (tx_lock_time tx) @ u32_le sighash_type)"

definition segwit_v0_signature_hash_raw ::
    "(bytes \<Rightarrow> bytes) \<Rightarrow> Tx \<Rightarrow> nat \<Rightarrow> bytes \<Rightarrow> u64 \<Rightarrow> u32 \<Rightarrow> SighashError + hash256" where
  "segwit_v0_signature_hash_raw sha tx input_index script_code amount sighash_type =
     (if length (tx_inputs tx) \<le> input_index then Inl (InputOutOfRange input_index (length (tx_inputs tx)))
      else Inr (double_sha256 sha (segwit_preimage sha tx input_index script_code amount sighash_type)))"

definition segwit_v0_signature_hash ::
    "(bytes \<Rightarrow> bytes) \<Rightarrow> Tx \<Rightarrow> nat \<Rightarrow> bytes \<Rightarrow> u64 \<Rightarrow> Sighash \<Rightarrow> SighashError + hash256" where
  "segwit_v0_signature_hash sha tx input_index script_code amount sighash_type =
     bindE (sighash_to_ecdsa sighash_type) (\<lambda>ty.
     segwit_v0_signature_hash_raw sha tx input_index script_code amount (ecdsa_to_u32 ty))"

section \<open>The taproot hash\<close>

definition ascii_bytes :: "string \<Rightarrow> bytes" where
  "ascii_bytes s = map of_char s"

definition tagged_hash :: "(bytes \<Rightarrow> bytes) \<Rightarrow> string \<Rightarrow> bytes \<Rightarrow> hash256" where
  "tagged_hash sha tag msg = (let tag_hash = sha (ascii_bytes tag) in sha (tag_hash @ tag_hash @ msg))"

definition tapleaf_hash :: "(bytes \<Rightarrow> bytes) \<Rightarrow> byte \<Rightarrow> bytes \<Rightarrow> hash256" where
  "tapleaf_hash sha leaf_version script =
     tagged_hash sha ''TapLeaf'' (leaf_version # varint_encode (length script) @ script)"

definition validate_annex :: "bytes \<Rightarrow> SighashError + bytes" where
  "validate_annex bs = (case bs of
     [] \<Rightarrow> Inl (InvalidAnnex AnnexEmpty)
   | first # _ \<Rightarrow> if first \<noteq> 0x50 then Inl (InvalidAnnex AnnexInvalidFirstByte) else Inr bs)"

definition validate_annex_opt :: "bytes option \<Rightarrow> SighashError + bytes option" where
  "validate_annex_opt annex = (case annex of
     None \<Rightarrow> Inr None
   | Some bs \<Rightarrow> bindE (validate_annex bs) (\<lambda>a. Inr (Some a)))"

definition taproot_message ::
    "(bytes \<Rightarrow> bytes) \<Rightarrow> Tx \<Rightarrow> nat \<Rightarrow> TxOut list \<Rightarrow> bytes option \<Rightarrow> (hash256 \<times> nat) option \<Rightarrow> byte \<Rightarrow> bytes" where
  "taproot_message sha tx input_index prevouts annex leaf ty_byte =
     (let base = ty_byte AND 0x03;
          acp = (ty_byte AND 0x80 \<noteq> 0);
          inp = tx_inputs tx ! input_index;
          spend_type = (if annex \<noteq> None then 1 else 0) OR (if leaf \<noteq> None then 2 else 0)
      in [0x00, ty_byte] @ u32_le (tx_version tx) @ u32_le (tx_lock_time tx)
         @ (if \<not> acp then
              cached_prevouts sha tx @ taproot_amounts sha prevouts @ taproot_scriptpubkeys sha prevouts
              @ cached_sequences sha tx
            else [])
         @ (if base \<noteq> 0x02 \<and> base \<noteq> 0x03 then cached_outputs sha tx else [])
         @ [spend_type]
         @ (if acp then
              (let prevout = prevouts ! input_index in
               encode_outpoint (in_prevout inp) @ u64_le (out_value prevout)
               @ write_script (out_script_pubkey prevout) @ u32_le (in_sequence inp))
            else le_bytes 4 input_index)
         @ (case annex of Some a \<Rightarrow> sha (varint_encode (length a) @ a) | None \<Rightarrow> [])
         @ (if base = 0x03 then sha (encode_txout (tx_outputs tx ! input_index)) else [])
         @ (case leaf of
              Some (leaf_hash, code_separator_position) \<Rightarrow> leaf_hash @ [0x00] @ le_bytes 4 code_separator_position
            | None \<Rightarrow> []))"

definition taproot_signature_hash ::
    "(bytes \<Rightarrow> bytes) \<Rightarrow> Tx \<Rightarrow> nat \<Rightarrow> TxOut list \<Rightarrow> bytes option \<Rightarrow> (hash256 \<times> nat) option \<Rightarrow> Sighash
      \<Rightarrow> SighashError + hash256" where
  "taproot_signature_hash sha tx input_index prevouts annex leaf sighash_type =
     bindE (validate_annex_opt annex) (\<lambda>annex.
     let ty_byte = sighash_to_u8 sighash_type; n_inputs = length (tx_inputs tx) in
     if n_inputs \<le> input_index then Inl (InputOutOfRange input_index n_inputs)
     else if length prevouts \<noteq> n_inputs then Inl (PrevoutsLength (length prevouts) n_inputs)
     else if ty_byte AND 0x03 = 0x03 \<and> input_index \<ge> length (tx_outputs tx)
       then Inl (SingleMissingOutput input_index (length (tx_outputs tx)))
     else Inr (tagged_hash sha ''TapSighash'' (taproot_message sha tx input_index prevouts annex leaf ty_byte)))"

section \<open>Error messages\<close>

fun nat_digits :: "nat \<Rightarrow> string" where
  "nat_digits n = (if n < 10 then [char_of (48 + n)] else nat_digits (n div 10) @ [char_of (48 + n mod 10)])"

declare nat_digits.simps [simp del]

definition hex_digit :: "nat \<Rightarrow> char" where
  "hex_digit n = char_of (if n < 10 then 48 + n else 87 + n)"

definition hex_byte :: "byte \<Rightarrow> string" where
  "hex_byte b = ''0x'' @ [hex_digit (unat b div 16), hex_digit (unat b mod 16)]"

definition annex_error_text :: "AnnexError \<Rightarrow> string" where
  "annex_error_text e = (case e of
     AnnexEmpty \<Rightarrow> ''annex is empty''
   | AnnexInvalidFirstByte \<Rightarrow> ''annex must start with the 0x50 prefix byte'')"

definition sighash_error_text :: "SighashError \<Rightarrow> string" where
  "sighash_error_text e = (case e of
     InputOutOfRange index n_inputs \<Rightarrow>
       ''input index '' @ nat_digits index @ '' out of range for '' @ nat_digits n_inputs @ '' inputs''
   | DefaultOnlyTaproot \<Rightarrow> ''SIGHASH_DEFAULT is valid only for taproot''
   | InvalidAnnex a \<Rightarrow> ''invalid taproot annex: '' @ annex_error_text a
   | SingleMissingOutput index len \<Rightarrow>
       ''sighash single requires output at input index '' @ nat_digits index @ ''; outputs length '' @ nat_digits len
   | PrevoutsLength provided expected \<Rightarrow>
       ''taproot prevouts length '' @ nat_digits provided @ '' does not match input count '' @ nat_digits expected
   | PrevoutsIndex index \<Rightarrow> ''taproot prevout at index '' @ nat_digits index @ '' unavailable''
   | UnknownType b \<Rightarrow> ''unknown sighash type byte '' @ hex_byte b)"

section \<open>The hash type of a legacy signature\<close>

lemma unat_and_1f: "unat (n AND 0x1f :: u32) = unat n mod 32"
proof -
  have "n AND 0x1f = take_bit 5 n" by (simp add: take_bit_eq_mask mask_eq_exp_minus_1)
  moreover have "unat (take_bit 5 n) = take_bit 5 (unat n)" by (rule unsigned_take_bit_eq)
  ultimately show ?thesis by (simp only: take_bit_eq_mod) simp
qed

lemma and_80_cases: "(n AND 0x80 :: u32) = 0 \<or> n AND 0x80 = 0x80"
proof -
  have "n AND 2 ^ 7 = 0 \<or> n AND 2 ^ 7 = 2 ^ 7"
  proof (cases "bit n 7")
    case True
    then show ?thesis
      by (intro disjI2 bit_word_eqI) (simp only: bit_and_iff bit_exp_iff, blast)
  next
    case False
    then show ?thesis by (simp only: and_exp_eq_0_iff_not_bit) simp
  qed
  then show ?thesis by simp
qed

lemma unat_masked: "unat ((n AND 0x1f) OR (n AND 0x80) :: u32) = unat n mod 32 + unat (n AND 0x80 :: u32)"
proof -
  from and_80_cases [of n] show ?thesis
  proof
    assume z: "n AND 0x80 = 0"
    then show ?thesis by (simp only: z or.right_neutral unat_0 unat_and_1f)
  next
    assume e: "n AND 0x80 = 0x80"
    have "unat (n AND 0x1f) OR push_bit 7 1 = unat (n AND 0x1f) + 2 ^ 7 * 1"
      by (rule nat_or_push_bit) (simp add: unat_and_1f less_le_trans [OF mod_less_divisor])
    then have "unat ((n AND 0x1f) OR 0x80) = unat (n AND 0x1f) + 128"
      by (simp add: unsigned_or_eq)
    then show ?thesis by (simp add: e unat_and_1f)
  qed
qed

text \<open>The decoded type answers as the two masks of the reference implementation do.\<close>

lemma ecdsa_type_masks:
  shows "is_single (ecdsa_from_consensus n) \<longleftrightarrow> unat n mod 32 = 3"
    and "is_none_type (ecdsa_from_consensus n) \<longleftrightarrow> unat n mod 32 = 2"
    and "is_anyone_can_pay (ecdsa_from_consensus n) \<longleftrightarrow> n AND 0x80 \<noteq> 0"
proof -
  define m where "m = (n AND 0x1f) OR (n AND 0x80)"
  have m: "unat m = unat n mod 32 + unat (n AND 0x80)" by (simp only: m_def unat_masked)
  have eqs: "m = k \<longleftrightarrow> unat m = unat k" for k by (rule word_unat_eq_iff)
  have lt: "unat n mod 32 < 32" by simp
  have e: "ecdsa_from_consensus n =
     (if unat m = 1 then EAll else if unat m = 2 then ENone else if unat m = 3 then ESingle
      else if unat m = 129 then EAllAnyoneCanPay else if unat m = 130 then ENoneAnyoneCanPay
      else if unat m = 131 then ESingleAnyoneCanPay
      else if n AND 0x80 = 0x80 then EAllAnyoneCanPay else EAll)"
    unfolding ecdsa_from_consensus_def Let_def m_def [symmetric] eqs by simp
  show "is_single (ecdsa_from_consensus n) \<longleftrightarrow> unat n mod 32 = 3"
    using and_80_cases [of n] m lt unfolding e by (elim disjE) (auto simp: is_single_def)
  show "is_none_type (ecdsa_from_consensus n) \<longleftrightarrow> unat n mod 32 = 2"
    using and_80_cases [of n] m lt unfolding e by (elim disjE) (auto simp: is_none_type_def)
  show "is_anyone_can_pay (ecdsa_from_consensus n) \<longleftrightarrow> n AND 0x80 \<noteq> 0"
    using and_80_cases [of n] m lt unfolding e by (elim disjE) (auto simp: is_anyone_can_pay_def)
qed

section \<open>The encodings are prefix codes\<close>

lemma varint_prefix:
  assumes "varint_encode a @ x = varint_encode b @ y" "a < 2 ^ 64" "b < 2 ^ 64"
  shows "a = b \<and> x = y"
proof -
  have "varint_decode (varint_encode a @ x) = varint_decode (varint_encode b @ y)" using assms(1) by simp
  then have "a = b" using assms(2,3) by simp
  then show ?thesis using assms(1) by simp
qed

lemma write_script_prefix:
  assumes "write_script a @ x = write_script b @ y" "length a < 2 ^ 64" "length b < 2 ^ 64"
  shows "a = b \<and> x = y"
proof -
  have "length a = length b \<and> a @ x = b @ y"
    using assms varint_prefix [of "length a" "a @ x" "length b" "b @ y"]
    by (simp add: write_script_def write_compact_def)
  then show ?thesis by auto
qed

definition outpoint_wf :: "OutPoint \<Rightarrow> bool" where
  "outpoint_wf p \<longleftrightarrow> length (op_txid p) = 32"

definition out_wf :: "TxOut \<Rightarrow> bool" where
  "out_wf out \<longleftrightarrow> length (out_script_pubkey out) < 2 ^ 64"

lemma encode_outpoint_prefix:
  assumes "encode_outpoint p @ x = encode_outpoint q @ y" "outpoint_wf p" "outpoint_wf q"
  shows "p = q \<and> x = y"
  using assms by (auto simp: encode_outpoint_def outpoint_wf_def)

lemma encode_txout_prefix:
  assumes "encode_txout p @ x = encode_txout q @ y" "out_wf p" "out_wf q"
  shows "p = q \<and> x = y"
proof -
  have e: "u64_le (out_value p) = u64_le (out_value q)"
    "write_script (out_script_pubkey p) @ x = write_script (out_script_pubkey q) @ y"
    using assms(1) by (auto simp: encode_txout_def)
  then show ?thesis
    using write_script_prefix [OF e(2)] assms(2,3) by (auto simp: out_wf_def)
qed

text \<open>A sequence of as many elements, each under a prefix code.\<close>

lemma concat_prefix:
  assumes code: "\<And>a b x y. f a @ x = f b @ y \<Longrightarrow> P a \<Longrightarrow> P b \<Longrightarrow> a = b \<and> x = y"
  shows "length xs = length ys \<Longrightarrow> list_all P xs \<Longrightarrow> list_all P ys \<Longrightarrow>
    concat (map f xs) @ u = concat (map f ys) @ v \<Longrightarrow> xs = ys \<and> u = v"
proof (induction xs ys rule: list_induct2)
  case (Cons a xs b ys)
  then have "a = b \<and> concat (map f xs) @ u = concat (map f ys) @ v"
    using code [of a "concat (map f xs) @ u" b "concat (map f ys) @ v"] by simp
  then show ?case using Cons by simp
qed simp

lemma encode_outputs_prefix:
  assumes "write_compact (length xs) @ concat (map encode_txout xs) @ u =
      write_compact (length ys) @ concat (map encode_txout ys) @ v"
    and "length xs < 2 ^ 64" "length ys < 2 ^ 64" "list_all out_wf xs" "list_all out_wf ys"
  shows "xs = ys \<and> u = v"
proof -
  have "length xs = length ys" "concat (map encode_txout xs) @ u = concat (map encode_txout ys) @ v"
    using varint_prefix [OF assms(1) [unfolded write_compact_def]] assms(2,3) by auto
  then show ?thesis
    using concat_prefix [of encode_txout out_wf xs ys u v, OF encode_txout_prefix] assms(4,5) by blast
qed

section \<open>What a legacy signature commits to\<close>

definition sig_input :: "OutPoint \<times> bytes \<times> u32 \<Rightarrow> bytes" where
  "sig_input t = (case t of (p, script, seqn) \<Rightarrow> encode_outpoint p @ write_script script @ u32_le seqn)"

definition sig_input_wf :: "OutPoint \<times> bytes \<times> u32 \<Rightarrow> bool" where
  "sig_input_wf t = (case t of (p, script, _) \<Rightarrow> outpoint_wf p \<and> length script < 2 ^ 64)"

lemma sig_input_prefix:
  assumes "sig_input a @ x = sig_input b @ y" "sig_input_wf a" "sig_input_wf b"
  shows "a = b \<and> x = y"
proof -
  obtain p s n q t m where ab: "a = (p, s, n)" "b = (q, t, m)" by (cases a, cases b) auto
  have 1: "p = q \<and> write_script s @ u32_le n @ x = write_script t @ u32_le m @ y"
    using assms unfolding ab by (intro encode_outpoint_prefix) (auto simp: sig_input_def sig_input_wf_def)
  then have "s = t \<and> u32_le n @ x = u32_le m @ y"
    using assms(2,3) write_script_prefix [of s "u32_le n @ x" t "u32_le m @ y"] by (auto simp: ab sig_input_wf_def)
  then show ?thesis using 1 by (auto simp: ab)
qed

text \<open>The signed view of the inputs when all of them are signed.\<close>

definition signed_inputs :: "Tx \<Rightarrow> nat \<Rightarrow> bytes \<Rightarrow> (OutPoint \<times> bytes \<times> u32) list" where
  "signed_inputs tx i code =
     map (\<lambda>(n, inp). (in_prevout inp, if n = i then code else [], in_sequence inp)) (List.enumerate 0 (tx_inputs tx))"

definition tx_wf :: "Tx \<Rightarrow> bool" where
  "tx_wf tx \<longleftrightarrow> length (tx_inputs tx) < 2 ^ 64 \<and> length (tx_outputs tx) < 2 ^ 64
     \<and> list_all (\<lambda>i. outpoint_wf (in_prevout i) \<and> length (in_script_sig i) < 2 ^ 64
         \<and> length (in_witness i) < 2 ^ 64 \<and> list_all (\<lambda>w. length w < 2 ^ 64) (in_witness i)) (tx_inputs tx)
     \<and> list_all out_wf (tx_outputs tx)"

lemma legacy_inputs_all:
  "legacy_inputs tx i code EAll = write_compact (length (tx_inputs tx)) @ concat (map sig_input (signed_inputs tx i code))"
  by (auto simp: legacy_inputs_def signed_inputs_def sig_input_def encode_legacy_input_def is_anyone_can_pay_def
      is_single_def is_none_type_def intro!: arg_cong [of _ _ concat] map_cong)

lemma length_signed_inputs [simp]: "length (signed_inputs tx i code) = length (tx_inputs tx)"
  by (simp add: signed_inputs_def)

lemma nth_signed_inputs:
  "k < length (tx_inputs tx) \<Longrightarrow> signed_inputs tx i code ! k =
     (in_prevout (tx_inputs tx ! k), if k = i then code else [], in_sequence (tx_inputs tx ! k))"
  by (simp add: signed_inputs_def nth_enumerate_eq)

lemma signed_inputs_wf:
  "tx_wf tx \<Longrightarrow> length code < 2 ^ 64 \<Longrightarrow> list_all sig_input_wf (signed_inputs tx i code)"
  by (auto simp: list_all_length nth_signed_inputs sig_input_wf_def tx_wf_def)

lemma signed_inputs_eq:
  assumes "signed_inputs tx i code = signed_inputs tx' j code'"
  shows "map in_prevout (tx_inputs tx) = map in_prevout (tx_inputs tx')"
    and "map in_sequence (tx_inputs tx) = map in_sequence (tx_inputs tx')"
    and "code \<noteq> [] \<Longrightarrow> i < length (tx_inputs tx) \<Longrightarrow> i = j \<and> code = code'"
proof -
  have len: "length (tx_inputs tx) = length (tx_inputs tx')" using assms by (metis length_signed_inputs)
  have nth: "in_prevout (tx_inputs tx ! k) = in_prevout (tx_inputs tx' ! k)
      \<and> (if k = i then code else []) = (if k = j then code' else [])
      \<and> in_sequence (tx_inputs tx ! k) = in_sequence (tx_inputs tx' ! k)" if "k < length (tx_inputs tx)" for k
    using that len assms nth_signed_inputs [of k tx i code] nth_signed_inputs [of k tx' j code'] by simp
  show "map in_prevout (tx_inputs tx) = map in_prevout (tx_inputs tx')"
    using len nth by (auto simp: list_eq_iff_nth_eq)
  show "map in_sequence (tx_inputs tx) = map in_sequence (tx_inputs tx')"
    using len nth by (auto simp: list_eq_iff_nth_eq)
  show "code \<noteq> [] \<Longrightarrow> i < length (tx_inputs tx) \<Longrightarrow> i = j \<and> code = code'"
    using nth [of i] by (auto split: if_splits)
qed

lemma legacy_all_commits:
  assumes eq: "legacy_preimage tx i code n = legacy_preimage tx' j code' m"
    and ty: "ecdsa_from_consensus n = EAll" "ecdsa_from_consensus m = EAll"
    and wf: "tx_wf tx" "tx_wf tx'" "length code < 2 ^ 64" "length code' < 2 ^ 64"
    and i: "i < length (tx_inputs tx)"
  shows "tx_version tx = tx_version tx' \<and> map in_prevout (tx_inputs tx) = map in_prevout (tx_inputs tx')
    \<and> map in_sequence (tx_inputs tx) = map in_sequence (tx_inputs tx') \<and> tx_outputs tx = tx_outputs tx'
    \<and> tx_lock_time tx = tx_lock_time tx' \<and> n = m \<and> (code \<noteq> [] \<longrightarrow> i = j \<and> code = code')"
proof -
  define out where "out t = write_compact (length (tx_outputs t)) @ concat (map encode_txout (tx_outputs t))" for t :: Tx
  have outs: "legacy_outputs t k EAll = out t" for t k by (simp add: legacy_outputs_def out_def)
  have e: "u32_le (tx_version tx) = u32_le (tx_version tx')"
    "legacy_inputs tx i code EAll @ out tx @ u32_le (tx_lock_time tx) @ u32_le n =
     legacy_inputs tx' j code' EAll @ out tx' @ u32_le (tx_lock_time tx') @ u32_le m"
    using eq by (auto simp: legacy_preimage_def ty outs Let_def)
  have len: "length (tx_inputs tx) = length (tx_inputs tx')"
    and ins: "concat (map sig_input (signed_inputs tx i code)) @ out tx @ u32_le (tx_lock_time tx) @ u32_le n =
      concat (map sig_input (signed_inputs tx' j code')) @ out tx' @ u32_le (tx_lock_time tx') @ u32_le m"
    using varint_prefix [OF e(2) [unfolded legacy_inputs_all write_compact_def append_assoc]] wf
    by (auto simp: tx_wf_def)
  have "signed_inputs tx i code = signed_inputs tx' j code' \<and>
      out tx @ u32_le (tx_lock_time tx) @ u32_le n = out tx' @ u32_le (tx_lock_time tx') @ u32_le m"
    using concat_prefix [of sig_input sig_input_wf, OF sig_input_prefix _ signed_inputs_wf [OF wf(1,3)] signed_inputs_wf [OF wf(2,4)] ins] len
    by simp
  moreover from this have "tx_outputs tx = tx_outputs tx' \<and> u32_le (tx_lock_time tx) @ u32_le n = u32_le (tx_lock_time tx') @ u32_le m"
    using encode_outputs_prefix [of "tx_outputs tx" "u32_le (tx_lock_time tx) @ u32_le n" "tx_outputs tx'" "u32_le (tx_lock_time tx') @ u32_le m"] wf
    by (simp add: out_def tx_wf_def)
  ultimately show ?thesis
    using e(1) signed_inputs_eq [of tx i code tx' j code'] i by auto
qed

text \<open>With \<open>ANYONECANPAY\<close> the other inputs are not signed.\<close>

lemma legacy_anyone_can_pay_local:
  assumes "is_anyone_can_pay (ecdsa_from_consensus n)"
    and "tx_inputs tx ! i = tx_inputs tx' ! i" "tx_outputs tx = tx_outputs tx'"
    and "tx_version tx = tx_version tx'" "tx_lock_time tx = tx_lock_time tx'"
  shows "legacy_preimage tx i code n = legacy_preimage tx' i code n"
  using assms by (simp add: legacy_preimage_def legacy_inputs_def legacy_outputs_def Let_def)

end
