(* ===== verification/Checker.thy ===== *)
theory Checker
  imports Eval_Sim Eval_Log Sighash
begin

text \<open>
  The transaction signature checker (\<open>src/crates/script/src/checker.rs\<close>) and the
  signature cache (\<open>src/crates/script/src/signature_cache.rs\<close>).  The elliptic-curve
  library is the record \<open>crypto\<close>: its parsed keys and signatures are opaque byte
  strings, and a parser that can fail returns an option (or the error text the
  source formats).  The cache, a shared hash set that is never iterated, is a list
  of keys; \<open>None\<close> is a checker without a cache.
\<close>

record crypto =
  hs :: hashes
  pubkey_from_slice :: "bytes \<Rightarrow> bytes option"
  ecdsa_from_der_lax :: "bytes \<Rightarrow> bytes option"
  normalize_s :: "bytes \<Rightarrow> bytes"
  verify_ecdsa :: "hash256 \<Rightarrow> bytes \<Rightarrow> bytes \<Rightarrow> bool"
  xonly_from_slice :: "bytes \<Rightarrow> string + bytes"
  schnorr_from_slice :: "bytes \<Rightarrow> bytes option"
  verify_schnorr :: "bytes \<Rightarrow> hash256 \<Rightarrow> bytes \<Rightarrow> bool"
  scalar_from_be_bytes :: "bytes \<Rightarrow> bytes option"
  xonly_serialize :: "bytes \<Rightarrow> bytes"
  tweak_add_check :: "bytes \<Rightarrow> bytes \<Rightarrow> bool \<Rightarrow> bytes \<Rightarrow> bool"

abbreviation sha :: "crypto \<Rightarrow> bytes \<Rightarrow> bytes" where
  "sha cr \<equiv> sha256 (hs cr)"

section \<open>The signature cache\<close>

type_synonym sig_cache = "bytes list"

abbreviation MAX_ENTRIES :: nat where "MAX_ENTRIES \<equiv> 64"

definition cache_contains :: "sig_cache \<Rightarrow> bytes \<Rightarrow> bool" where
  "cache_contains cache key \<longleftrightarrow> key \<in> set cache"

definition cache_insert :: "sig_cache \<Rightarrow> bytes \<Rightarrow> sig_cache" where
  "cache_insert cache key =
     (if key \<in> set cache then cache
      else if length cache \<ge> MAX_ENTRIES then cache
      else key # cache)"

definition DOMAIN :: bytes where "DOMAIN = ascii_bytes ''btcrs-sigcache-v1'' @ [0]"
definition TAG_ECDSA :: bytes where "TAG_ECDSA = ascii_bytes ''ecdsa-v1'' @ [0]"
definition TAG_SCHNORR :: bytes where "TAG_SCHNORR = ascii_bytes ''schnorr-v1'' @ [0]"

text \<open>What the hasher is fed.\<close>

definition cache_key_preimage :: "bytes \<Rightarrow> hash256 \<Rightarrow> bytes \<Rightarrow> bytes \<Rightarrow> bytes" where
  "cache_key_preimage tag message sig pubkey =
     DOMAIN @ tag @ message @ le_bytes 8 (length sig) @ sig @ le_bytes 8 (length pubkey) @ pubkey"

definition cache_key :: "crypto \<Rightarrow> bytes \<Rightarrow> hash256 \<Rightarrow> bytes \<Rightarrow> bytes \<Rightarrow> bytes" where
  "cache_key cr tag message sig pubkey = sha cr (cache_key_preimage tag message sig pubkey)"

definition ecdsa_key :: "crypto \<Rightarrow> hash256 \<Rightarrow> bytes \<Rightarrow> bytes \<Rightarrow> bytes" where
  "ecdsa_key cr message sig pubkey = cache_key cr TAG_ECDSA message sig pubkey"

definition schnorr_key :: "crypto \<Rightarrow> hash256 \<Rightarrow> bytes \<Rightarrow> bytes \<Rightarrow> bytes" where
  "schnorr_key cr message sig pubkey = cache_key cr TAG_SCHNORR message sig pubkey"

section \<open>Encoding rules\<close>

definition is_valid_der_encoding :: "bytes \<Rightarrow> bool" where
  "is_valid_der_encoding sig =
     (if length sig < 9 \<or> length sig > 73 then False
      else if sig ! 0 \<noteq> 0x30 then False
      else if unat (sig ! 1) \<noteq> length sig - 3 then False
      else let len_r = unat (sig ! 3) in
        if 5 + len_r \<ge> length sig then False
        else let len_s = unat (sig ! (5 + len_r)) in
          if len_r + len_s + 7 \<noteq> length sig then False
          else if sig ! 2 \<noteq> 0x02 then False
          else if len_r = 0 then False
          else if sig ! 4 AND 0x80 \<noteq> 0 then False
          else if len_r > 1 \<and> sig ! 4 = 0x00 \<and> sig ! 5 AND 0x80 = 0 then False
          else if sig ! (len_r + 4) \<noteq> 0x02 then False
          else if len_s = 0 then False
          else if sig ! (len_r + 6) AND 0x80 \<noteq> 0 then False
          else if len_s > 1 \<and> sig ! (len_r + 6) = 0x00 \<and> sig ! (len_r + 7) AND 0x80 = 0 then False
          else True)"

definition HALF_ORDER :: bytes where
  "HALF_ORDER =
    [0x7f, 0xff, 0xff, 0xff, 0xff, 0xff, 0xff, 0xff, 0xff, 0xff, 0xff, 0xff, 0xff, 0xff, 0xff,
     0xff, 0x5d, 0x57, 0x6e, 0x73, 0x57, 0xa4, 0x50, 0x1d, 0xdf, 0xe9, 0x2f, 0x46, 0x68, 0x1b,
     0x20, 0xa0]"

text \<open>The lexicographic order of byte slices.\<close>

fun bytes_le :: "bytes \<Rightarrow> bytes \<Rightarrow> bool" where
  "bytes_le [] ys = True"
| "bytes_le (x # xs) [] = False"
| "bytes_le (x # xs) (y # ys) = (x < y \<or> x = y \<and> bytes_le xs ys)"

definition is_low_der_signature :: "bytes \<Rightarrow> bool" where
  "is_low_der_signature sig =
     (if \<not> is_valid_der_encoding sig then False
      else let der = butlast sig;
               len_r = unat (der ! 3);
               s_stripped = dropWhile (\<lambda>b. b = 0x00) (drop (6 + len_r) der)
           in if s_stripped = [] then True
              else if length s_stripped > 32 then False
              else if length s_stripped < 32 then True
              else bytes_le s_stripped HALF_ORDER)"

definition is_defined_hashtype :: "bytes \<Rightarrow> bool" where
  "is_defined_hashtype sig =
     (let hashtype = (case last_opt sig of Some b \<Rightarrow> b | None \<Rightarrow> 0xff);
          masked = hashtype AND NOT 0x80
      in 0x01 \<le> masked \<and> masked \<le> 0x03)"

definition is_compressed_pubkey :: "bytes \<Rightarrow> bool" where
  "is_compressed_pubkey pubkey \<longleftrightarrow> length pubkey = 33 \<and> (pubkey ! 0 = 0x02 \<or> pubkey ! 0 = 0x03)"

definition is_compressed_or_uncompressed_pubkey :: "bytes \<Rightarrow> bool" where
  "is_compressed_or_uncompressed_pubkey pubkey \<longleftrightarrow>
     is_compressed_pubkey pubkey \<or> (length pubkey = 65 \<and> pubkey ! 0 = 0x04)"

definition check_signature_encoding :: "bytes \<Rightarrow> VerifyFlags \<Rightarrow> ScriptError + unit" where
  "check_signature_encoding sig flags =
     (if sig = [] then Inr ()
      else if (contains flags DERSIG \<or> contains flags LOW_S \<or> contains flags STRICTENC)
          \<and> \<not> is_valid_der_encoding sig then invalid SigDer
      else if contains flags LOW_S \<and> \<not> is_low_der_signature sig then invalid SigHighS
      else if contains flags STRICTENC \<and> \<not> is_defined_hashtype sig then invalid SigHashtype
      else Inr ())"

definition check_pubkey_encoding :: "bytes \<Rightarrow> VerifyFlags \<Rightarrow> SigVersion \<Rightarrow> ScriptError + unit" where
  "check_pubkey_encoding pubkey flags sigversion =
     (if contains flags STRICTENC \<and> \<not> is_compressed_or_uncompressed_pubkey pubkey then invalid PubkeyType
      else if contains flags WITNESS_PUBKEYTYPE \<and> sigversion = WitnessV0 \<and> \<not> is_compressed_pubkey pubkey
        then invalid WitnessPubkeyType
      else Inr ())"

section \<open>The checker\<close>

text \<open>The fields of \<open>TxSignatureChecker\<close> besides the two caches; \<open>set_annex\<close> updates the last one.\<close>

record TxSignatureChecker =
  ck_tx :: Tx
  ck_input_index :: nat
  ck_amount :: u64
  ck_prevouts :: "TxOut list"
  ck_annex :: "bytes option"

definition set_annex :: "TxSignatureChecker \<Rightarrow> bytes option \<Rightarrow> TxSignatureChecker" where
  "set_annex chk annex = chk\<lparr>ck_annex := annex\<rparr>"

text \<open>
  The lookup, verification and insertion with the cache: \<open>bad\<close> is the result of a
  failed verification.
\<close>

definition cached_verify ::
    "bytes \<Rightarrow> bool \<Rightarrow> ScriptError + bool \<Rightarrow> (sig_cache option, ScriptError, bool) sresult" where
  "cached_verify key verified bad c = (case c of
     Some cache \<Rightarrow>
       if cache_contains cache key then (Inr True, c)
       else if verified then (Inr True, Some (cache_insert cache key))
       else (bad, c)
   | None \<Rightarrow> (if verified then Inr True else bad, c))"

definition ecdsa_sighash ::
    "crypto \<Rightarrow> TxSignatureChecker \<Rightarrow> bytes \<Rightarrow> SigVersion \<Rightarrow> byte \<Rightarrow> ScriptError + hash256" where
  "ecdsa_sighash cr chk code sigversion hashtype_byte = (case sigversion of
     Base \<Rightarrow>
       map_err (\<lambda>e. Verification (sighash_error_text e))
         (legacy_signature_hash (sha cr) (ck_tx chk) (ck_input_index chk)
            (fst (remove_all code [OP_CODESEPARATOR])) (ucast hashtype_byte))
   | WitnessV0 \<Rightarrow>
       map_err (\<lambda>e. Verification (sighash_error_text e))
         (segwit_v0_signature_hash_raw (sha cr) (ck_tx chk) (ck_input_index chk) code (ck_amount chk)
            (ucast hashtype_byte))
   | Tapscript \<Rightarrow> Inl (Verification ''ECDSA signature check requested for tapscript''))"

definition check_ecdsa_signature ::
    "crypto \<Rightarrow> TxSignatureChecker \<Rightarrow> bytes \<Rightarrow> bytes \<Rightarrow> bytes \<Rightarrow> SigVersion \<Rightarrow> VerifyFlags
      \<Rightarrow> (sig_cache option, ScriptError, bool) sresult" where
  "check_ecdsa_signature cr chk sig pubkey code sigversion flags =
     bindS (liftS (check_signature_encoding sig flags)) (\<lambda>_.
     bindS (liftS (check_pubkey_encoding pubkey flags sigversion)) (\<lambda>_.
     if sig = [] then liftS (Inr False)
     else (case pubkey_from_slice cr pubkey of
         None \<Rightarrow> liftS (Inr False)
       | Some secp_pubkey \<Rightarrow>
           (case ecdsa_from_der_lax cr (butlast sig) of
              None \<Rightarrow> liftS (Inr False)
            | Some parsed \<Rightarrow>
                let ecdsa_sig = normalize_s cr parsed in
                bindS (liftS (ecdsa_sighash cr chk code sigversion (last sig))) (\<lambda>sighash.
                cached_verify (ecdsa_key cr sighash sig pubkey)
                  (verify_ecdsa cr sighash ecdsa_sig secp_pubkey) (Inr False))))))"

definition check_schnorr_signature ::
    "crypto \<Rightarrow> TxSignatureChecker \<Rightarrow> bytes \<Rightarrow> bytes \<Rightarrow> hash256 option \<Rightarrow> nat
      \<Rightarrow> (sig_cache option, ScriptError, bool) sresult" where
  "check_schnorr_signature cr chk sig pubkey leaf_hash codesep_pos =
     (if sig = [] then liftS (Inr False)
      else if length sig \<noteq> 64 \<and> length sig \<noteq> 65 then liftS (invalid SchnorrSigSize)
      else let sig_bytes = (if length sig = 65 then take 64 sig else sig);
               hashtype_byte = (if length sig = 65 then sig ! 64 else 0x00) in
        if length sig = 65 \<and> hashtype_byte = 0x00 then liftS (invalid SchnorrSigHashtype)
        else
          bindS (liftS (map_err (\<lambda>_. Invalid SchnorrSigHashtype) (sighash_from_consensus_u8 hashtype_byte))) (\<lambda>sighash_type.
          if length pubkey \<noteq> 32 then liftS (Inl (Verification ''Schnorr public key must be 32 bytes''))
          else
            bindS (liftS (map_err (\<lambda>e. Verification (''invalid Schnorr public key: '' @ e)) (xonly_from_slice cr pubkey))) (\<lambda>xonly.
            bindS (liftS (ok_or (Invalid SchnorrSig) (schnorr_from_slice cr sig_bytes))) (\<lambda>schnorr_sig.
            bindS (liftS (map_err (\<lambda>e. Verification (sighash_error_text e))
              (taproot_signature_hash (sha cr) (ck_tx chk) (ck_input_index chk) (ck_prevouts chk) (ck_annex chk)
                (map_option (\<lambda>lh. (lh, codesep_pos)) leaf_hash) sighash_type))) (\<lambda>sighash.
            cached_verify (schnorr_key cr sighash sig pubkey)
              (verify_schnorr cr schnorr_sig sighash xonly) (invalid SchnorrSig))))))"

definition check_locktime :: "TxSignatureChecker \<Rightarrow> int \<Rightarrow> bool" where
  "check_locktime chk locktime =
     (let tx_locktime = uint (tx_lock_time (ck_tx chk));
          same_type = ((tx_locktime < int LOCKTIME_THRESHOLD) = (locktime < int LOCKTIME_THRESHOLD)) in
      if \<not> same_type then False
      else if locktime > tx_locktime then False
      else (case get_at (tx_inputs (ck_tx chk)) (ck_input_index chk) of
          None \<Rightarrow> False
        | Some inp \<Rightarrow> in_sequence inp \<noteq> SEQUENCE_FINAL))"

definition check_sequence :: "TxSignatureChecker \<Rightarrow> int \<Rightarrow> bool" where
  "check_sequence chk seqn =
     (case get_at (tx_inputs (ck_tx chk)) (ck_input_index chk) of
        None \<Rightarrow> False
      | Some inp \<Rightarrow>
          if tx_version (ck_tx chk) < 2 then False
          else if in_sequence inp AND SEQUENCE_LOCKTIME_DISABLE_FLAG \<noteq> 0 then False
          else let mask = uint (SEQUENCE_LOCKTIME_TYPE_FLAG OR SEQUENCE_LOCKTIME_MASK);
                   tx_masked = uint (in_sequence inp) AND mask;
                   seq_masked = seqn AND mask;
                   same_type = ((tx_masked < uint SEQUENCE_LOCKTIME_TYPE_FLAG) = (seq_masked < uint SEQUENCE_LOCKTIME_TYPE_FLAG))
               in if \<not> same_type then False else \<not> seq_masked > tx_masked)"

definition tx_checker_ops :: "crypto \<Rightarrow> TxSignatureChecker \<Rightarrow> sig_cache option checker_ops" where
  "tx_checker_ops cr chk =
     \<lparr> ck_ecdsa = check_ecdsa_signature cr chk,
       ck_schnorr = check_schnorr_signature cr chk,
       ck_locktime = check_locktime chk,
       ck_sequence = check_sequence chk \<rparr>"

section \<open>The cache\<close>

definition cache_wf :: "sig_cache \<Rightarrow> bool" where
  "cache_wf cache \<longleftrightarrow> distinct cache \<and> length cache \<le> MAX_ENTRIES"

lemma cache_insert_wf: "cache_wf cache \<Longrightarrow> cache_wf (cache_insert cache key)"
  by (auto simp: cache_wf_def cache_insert_def)

lemma cache_insert_set: "set (cache_insert cache key) \<subseteq> insert key (set cache)"
  by (auto simp: cache_insert_def)

text \<open>The fields fed to the hasher can be read back from what it is fed.\<close>

lemma preimage_inj:
  assumes "cache_key_preimage t m s p = cache_key_preimage t' m' s' p'"
    and "t \<in> {TAG_ECDSA, TAG_SCHNORR}" "t' \<in> {TAG_ECDSA, TAG_SCHNORR}"
    and "length m = 32" "length m' = 32" "length s < 2 ^ 64" "length s' < 2 ^ 64"
  shows "t = t' \<and> m = m' \<and> s = s' \<and> p = p'"
proof -
  have e: "t @ m @ le_bytes 8 (length s) @ s @ le_bytes 8 (length p) @ p =
      t' @ m' @ le_bytes 8 (length s') @ s' @ le_bytes 8 (length p') @ p'"
    using assms(1) by (simp add: cache_key_preimage_def)
  have "hd (TAG_ECDSA) \<noteq> hd TAG_SCHNORR"
    by (simp add: TAG_ECDSA_def TAG_SCHNORR_def ascii_bytes_def of_char_def)
  moreover have "TAG_ECDSA \<noteq> []" "TAG_SCHNORR \<noteq> []" by (simp_all add: TAG_ECDSA_def TAG_SCHNORR_def)
  ultimately have t: "t = t'"
    using e assms(2,3) by (metis hd_append2 insertE singletonD)
  then have "m = m' \<and> le_bytes 8 (length s) = le_bytes 8 (length s') \<and>
      s @ le_bytes 8 (length p) @ p = s' @ le_bytes 8 (length p') @ p'"
    using e assms(4,5) by simp
  moreover from this have "length s = length s'"
    using assms(6,7) le_bytes_inj [of "length s" 8 "length s'"] by simp
  ultimately show ?thesis using t by simp
qed

text \<open>The questions put to the cache: what each one's key is and whether its signature verifies.\<close>

datatype sig_kind = KEcdsa | KSchnorr

type_synonym sig_query = "sig_kind \<times> hash256 \<times> bytes \<times> bytes"

fun query_key :: "crypto \<Rightarrow> sig_query \<Rightarrow> bytes" where
  "query_key cr (KEcdsa, message, sig, pubkey) = ecdsa_key cr message sig pubkey"
| "query_key cr (KSchnorr, message, sig, pubkey) = schnorr_key cr message sig pubkey"

fun query_valid :: "crypto \<Rightarrow> sig_query \<Rightarrow> bool" where
  "query_valid cr (KEcdsa, message, sig, pubkey) =
     (case (pubkey_from_slice cr pubkey, ecdsa_from_der_lax cr (butlast sig)) of
        (Some pk, Some es) \<Rightarrow> verify_ecdsa cr message (normalize_s cr es) pk
      | _ \<Rightarrow> False)"
| "query_valid cr (KSchnorr, message, sig, pubkey) =
     (case (xonly_from_slice cr pubkey, schnorr_from_slice cr (if length sig = 65 then take 64 sig else sig)) of
        (Inr xo, Some ss) \<Rightarrow> verify_schnorr cr ss message xo
      | _ \<Rightarrow> False)"

text \<open>
  A cache that grew out of the queries \<open>U\<close>: each entry is the key of one that verified.
  Where no two queries of \<open>U\<close> share a key, a hit answers as the verification would.
\<close>

definition cache_from :: "crypto \<Rightarrow> sig_query set \<Rightarrow> sig_cache option \<Rightarrow> bool" where
  "cache_from cr U c = (case c of
     None \<Rightarrow> True
   | Some cache \<Rightarrow> cache_wf cache \<and> (\<forall>k \<in> set cache. \<exists>q \<in> U. query_key cr q = k \<and> query_valid cr q))"

lemma cache_from_None [simp]: "cache_from cr U None"
  by (simp add: cache_from_def)

lemma cache_from_hit:
  "cache_from cr U (Some cache) \<Longrightarrow> inj_on (query_key cr) U \<Longrightarrow> q \<in> U \<Longrightarrow> query_key cr q \<in> set cache \<Longrightarrow> query_valid cr q"
  unfolding cache_from_def by (auto dest: inj_onD)

lemma cache_from_insert:
  "cache_from cr U (Some cache) \<Longrightarrow> q \<in> U \<Longrightarrow> query_valid cr q \<Longrightarrow> cache_from cr U (Some (cache_insert cache (query_key cr q)))"
  using cache_insert_set [of cache "query_key cr q"] by (auto simp: cache_from_def cache_insert_wf)

lemma cached_verify_from:
  assumes "inj_on (query_key cr) U" "q \<in> U" "cache_from cr U c"
  shows "fst (cached_verify (query_key cr q) (query_valid cr q) bad c) = (if query_valid cr q then Inr True else bad)"
    and "cache_from cr U (snd (cached_verify (query_key cr q) (query_valid cr q) bad c))"
  using assms cache_from_hit [OF _ assms(1,2)] cache_from_insert [OF _ assms(2)]
  by (auto simp: cached_verify_def cache_contains_def split: option.split)

section \<open>The queries a check asks\<close>

definition ecdsa_asks ::
    "crypto \<Rightarrow> TxSignatureChecker \<Rightarrow> bytes \<Rightarrow> bytes \<Rightarrow> bytes \<Rightarrow> SigVersion \<Rightarrow> VerifyFlags \<Rightarrow> sig_query list" where
  "ecdsa_asks cr chk sig pubkey code sigversion flags =
     (if is_ok (check_signature_encoding sig flags) \<and> is_ok (check_pubkey_encoding pubkey flags sigversion)
         \<and> sig \<noteq> [] \<and> pubkey_from_slice cr pubkey \<noteq> None \<and> ecdsa_from_der_lax cr (butlast sig) \<noteq> None
      then (case ecdsa_sighash cr chk code sigversion (last sig) of
              Inl _ \<Rightarrow> []
            | Inr sighash \<Rightarrow> [(KEcdsa, sighash, sig, pubkey)])
      else [])"

definition schnorr_asks ::
    "crypto \<Rightarrow> TxSignatureChecker \<Rightarrow> bytes \<Rightarrow> bytes \<Rightarrow> hash256 option \<Rightarrow> nat \<Rightarrow> sig_query list" where
  "schnorr_asks cr chk sig pubkey leaf_hash codesep_pos =
     (if (length sig = 64 \<or> length sig = 65 \<and> sig ! 64 \<noteq> 0) \<and> length pubkey = 32
         \<and> is_ok (xonly_from_slice cr pubkey)
         \<and> schnorr_from_slice cr (if length sig = 65 then take 64 sig else sig) \<noteq> None
      then (case bindE (map_err (\<lambda>_. Invalid SchnorrSigHashtype)
                (sighash_from_consensus_u8 (if length sig = 65 then sig ! 64 else 0)))
              (\<lambda>ty. map_err (\<lambda>e. Verification (sighash_error_text e))
                (taproot_signature_hash (sha cr) (ck_tx chk) (ck_input_index chk) (ck_prevouts chk) (ck_annex chk)
                  (map_option (\<lambda>lh. (lh, codesep_pos)) leaf_hash) ty)) of
              Inl _ \<Rightarrow> []
            | Inr sighash \<Rightarrow> [(KSchnorr, sighash, sig, pubkey)])
      else [])"

text \<open>The checker without a cache that logs what it asks.\<close>

definition log_ops :: "crypto \<Rightarrow> TxSignatureChecker \<Rightarrow> sig_query list checker_ops" where
  "log_ops cr chk =
     \<lparr> ck_ecdsa = (\<lambda>sig pk code sv fl log.
         (fst (check_ecdsa_signature cr chk sig pk code sv fl None), log @ ecdsa_asks cr chk sig pk code sv fl)),
       ck_schnorr = (\<lambda>sig pk leaf pos log.
         (fst (check_schnorr_signature cr chk sig pk leaf pos None), log @ schnorr_asks cr chk sig pk leaf pos)),
       ck_locktime = check_locktime chk,
       ck_sequence = check_sequence chk \<rparr>"

text \<open>A check either does not touch the cache or is one cached verification of the query it asks.\<close>

lemma check_ecdsa_asks:
  "(ecdsa_asks cr chk sig pk code sv fl = [] \<and>
      (\<exists>r. check_ecdsa_signature cr chk sig pk code sv fl = liftS r)) \<or>
   (\<exists>q. ecdsa_asks cr chk sig pk code sv fl = [q] \<and>
      check_ecdsa_signature cr chk sig pk code sv fl = cached_verify (query_key cr q) (query_valid cr q) (Inr False))"
proof (cases "is_ok (check_signature_encoding sig fl) \<and> is_ok (check_pubkey_encoding pk fl sv)")
  case True
  then obtain u v where uv: "check_signature_encoding sig fl = Inr u" "check_pubkey_encoding pk fl sv = Inr v"
    by (auto simp: is_ok_iff)
  show ?thesis
  proof (cases "sig = [] \<or> pubkey_from_slice cr pk = None \<or> ecdsa_from_der_lax cr (butlast sig) = None")
    case True
    then show ?thesis
      using uv by (auto simp: ecdsa_asks_def check_ecdsa_signature_def split: option.split)
  next
    case False
    then show ?thesis
      using uv by (cases "ecdsa_sighash cr chk code sv (last sig)")
        (auto simp: ecdsa_asks_def check_ecdsa_signature_def Let_def)
  qed
next
  case False
  then show ?thesis
    by (cases "check_signature_encoding sig fl"; cases "check_pubkey_encoding pk fl sv")
      (auto simp: ecdsa_asks_def check_ecdsa_signature_def)
qed

section \<open>Flags and caches as simulations\<close>

lemma check_encodings_sim:
  assumes "flags_le fl2 fl1"
  shows "okle (check_signature_encoding sig fl1) (check_signature_encoding sig fl2)"
    and "okle (check_pubkey_encoding pk fl1 sv) (check_pubkey_encoding pk fl2 sv)"
proof -
  note mono = contains_mono [OF assms]
  show "okle (check_signature_encoding sig fl1) (check_signature_encoding sig fl2)"
    unfolding check_signature_encoding_def by (intro sim_intros) (auto dest: mono)
  show "okle (check_pubkey_encoding pk fl1 sv) (check_pubkey_encoding pk fl2 sv)"
    unfolding check_pubkey_encoding_def by (intro sim_intros) (auto dest: mono)
qed

lemma simS_refl_eq: "simS (=) m m"
  by (simp add: simS_def)

lemma tx_checker_flags_sim:
  assumes "flags_le fl2 fl1"
  shows "checker_sim (=) (tx_checker_ops cr chk) (tx_checker_ops cr chk) fl1 fl2"
proof unfold_locales
  fix sig pk code sv
  show "simS (=) (ck_ecdsa (tx_checker_ops cr chk) sig pk code sv fl1) (ck_ecdsa (tx_checker_ops cr chk) sig pk code sv fl2)"
    unfolding tx_checker_ops_def checker_ops.simps check_ecdsa_signature_def
    by (intro simS_bindS simS_liftS check_encodings_sim assms simS_refl_eq)
qed (use assms in \<open>simp_all add: simS_refl_eq\<close>)

lemma check_schnorr_asks:
  "(schnorr_asks cr chk sig pk leaf pos = [] \<and> (\<exists>r. check_schnorr_signature cr chk sig pk leaf pos = liftS r)) \<or>
   (\<exists>q. schnorr_asks cr chk sig pk leaf pos = [q] \<and>
      check_schnorr_signature cr chk sig pk leaf pos = cached_verify (query_key cr q) (query_valid cr q) (invalid SchnorrSig))"
proof (cases "(length sig = 64 \<or> length sig = 65 \<and> sig ! 64 \<noteq> 0) \<and> length pk = 32")
  case True
  then have "sig \<noteq> []" by auto
  define sb where "sb = (if length sig = 65 then take 64 sig else sig)"
  define hb where "hb = (if length sig = 65 then sig ! 64 else 0)"
  show ?thesis
    using True \<open>sig \<noteq> []\<close> unfolding schnorr_asks_def check_schnorr_signature_def Let_def
      sb_def [symmetric] hb_def [symmetric] query_valid.simps
    by (cases "sighash_from_consensus_u8 hb"; cases "xonly_from_slice cr pk"; cases "schnorr_from_slice cr sb")
      (auto split: sum.split simp: sb_def hb_def)
next
  case False
  then have "schnorr_asks cr chk sig pk leaf pos = []" by (auto simp: schnorr_asks_def)
  moreover have "\<exists>r. bindS (liftS m) (\<lambda>_. liftS (Inl e)) = (liftS r :: ('c, ScriptError, bool) sresult)" for m :: "ScriptError + Sighash" and e
    by (cases m) auto
  ultimately show ?thesis using False by (auto simp: check_schnorr_signature_def Let_def)
qed

lemma log_ops_eq:
  assumes "(asks = [] \<and> (\<exists>r. m = liftS r)) \<or> (\<exists>q. asks = [q] \<and> m = cached_verify (query_key cr q) (query_valid cr q) bad)"
    and "inj_on (query_key cr) U"
  shows "simE (\<lambda>log. set log \<subseteq> U) (cache_from cr U) (\<lambda>log. (fst (m None), log @ asks)) m"
  using assms(1)
proof (elim disjE conjE exE)
  fix q assume q: "asks = [q]" "m = cached_verify (query_key cr q) (query_valid cr q) bad"
  show ?thesis
    unfolding simE_def q using cached_verify_from [OF assms(2)] by (simp add: cached_verify_def [of _ _ _ None])
qed (simp add: simE_def liftS_def)

lemma tx_checker_log:
  assumes "inj_on (query_key cr) U"
  shows "checker_log (\<lambda>log. set log \<subseteq> U) (cache_from cr U) (log_ops cr chk) (tx_checker_ops cr chk)"
  using log_ops_eq [OF check_ecdsa_asks assms] log_ops_eq [OF check_schnorr_asks assms]
  by unfold_locales (simp_all add: log_ops_def tx_checker_ops_def)

interpretation one_query: checker_log "\<lambda>log. set log \<subseteq> {q}" "cache_from cr {q}" "log_ops cr chk" "tx_checker_ops cr chk"
  for q cr chk
  by (rule tx_checker_log) simp

interpretation std: checker_sim "(=)" "tx_checker_ops cr chk" "tx_checker_ops cr chk" "filled STANDARD" "filled MANDATORY"
  for cr chk
  by (rule tx_checker_flags_sim [OF filled_mono [OF MANDATORY_le_STANDARD]])

end
