(* ===== verification/Interpreter.thy ===== *)
theory Interpreter
  imports Checker
begin

text \<open>
  Script verification (\<open>src/crates/script/src/interpreter.rs\<close> and
  \<open>taproot.rs\<close>): the base, pay-to-script-hash, segwit v0 and taproot rules on top
  of the evaluator.  The checker is the record \<open>TxSignatureChecker\<close>, whose annex
  the taproot rules set before they use it; the shared signature cache is the
  state of the computations.
\<close>

section \<open>Taproot commitments\<close>

abbreviation ANNEX_TAG :: byte where "ANNEX_TAG \<equiv> 0x50"
abbreviation TAPROOT_CONTROL_BASE_SIZE :: nat where "TAPROOT_CONTROL_BASE_SIZE \<equiv> 33"
abbreviation TAPROOT_CONTROL_NODE_SIZE :: nat where "TAPROOT_CONTROL_NODE_SIZE \<equiv> 32"
abbreviation TAPROOT_CONTROL_MAX_NODE_COUNT :: nat where "TAPROOT_CONTROL_MAX_NODE_COUNT \<equiv> 128"
abbreviation TAPROOT_CONTROL_MAX_SIZE :: nat where
  "TAPROOT_CONTROL_MAX_SIZE \<equiv> TAPROOT_CONTROL_BASE_SIZE + TAPROOT_CONTROL_NODE_SIZE * TAPROOT_CONTROL_MAX_NODE_COUNT"
abbreviation TAPROOT_LEAF_MASK :: byte where "TAPROOT_LEAF_MASK \<equiv> 0xfe"
abbreviation TAPROOT_LEAF_TAPSCRIPT :: byte where "TAPROOT_LEAF_TAPSCRIPT \<equiv> 0xc0"

definition compute_tapbranch_hash :: "(bytes \<Rightarrow> bytes) \<Rightarrow> bytes \<Rightarrow> bytes \<Rightarrow> bytes" where
  "compute_tapbranch_hash sh a b =
     (case (if bytes_le a b then (a, b) else (b, a)) of (first, second) \<Rightarrow>
        tagged_hash sh ''TapBranch'' (first @ second))"

text \<open>\<open>as_chunks\<close>: the full chunks of \<open>n\<close> bytes, a shorter rest is dropped.\<close>

function chunks_of :: "nat \<Rightarrow> bytes \<Rightarrow> bytes list" where
  "chunks_of n bs = (if n = 0 \<or> length bs < n then [] else take n bs # chunks_of n (drop n bs))"
  by pat_completeness auto

termination
  by (relation "measure (\<lambda>(_, bs). length bs)") auto

declare chunks_of.simps [simp del]

definition compute_taproot_merkle_root :: "(bytes \<Rightarrow> bytes) \<Rightarrow> bytes \<Rightarrow> hash256 \<Rightarrow> hash256" where
  "compute_taproot_merkle_root sh control leaf =
     foldl (compute_tapbranch_hash sh) leaf
       (chunks_of TAPROOT_CONTROL_NODE_SIZE
         (case get_from control TAPROOT_CONTROL_BASE_SIZE of Some path \<Rightarrow> path | None \<Rightarrow> []))"

definition verify_taproot_commitment :: "crypto \<Rightarrow> bytes \<Rightarrow> bytes \<Rightarrow> hash256 \<Rightarrow> bool" where
  "verify_taproot_commitment cr control program leaf =
     (case get_range control 1 TAPROOT_CONTROL_BASE_SIZE of
        None \<Rightarrow> False
      | Some internal_bytes \<Rightarrow>
          (case xonly_from_slice cr internal_bytes of
             Inl _ \<Rightarrow> False
           | Inr internal \<Rightarrow>
               (case xonly_from_slice cr program of
                  Inl _ \<Rightarrow> False
                | Inr output \<Rightarrow>
                    let merkle_root = compute_taproot_merkle_root (sha cr) control leaf;
                        tweak_bytes = tagged_hash (sha cr) ''TapTweak'' (xonly_serialize cr internal @ merkle_root)
                    in (case scalar_from_be_bytes cr tweak_bytes of
                          None \<Rightarrow> False
                        | Some tweak \<Rightarrow> tweak_add_check cr internal output (control ! 0 AND 1 \<noteq> 0) tweak))))"

section \<open>Helpers\<close>

definition p2wpkh_script_code :: "bytes \<Rightarrow> bytes" where
  "p2wpkh_script_code program = [OP_DUP, OP_HASH160, 0x14] @ program @ [OP_EQUALVERIFY, OP_CHECKSIG]"

definition item_bytes_owned :: "ScriptItem \<Rightarrow> bytes" where
  "item_bytes_owned item = (case item of Num n \<Rightarrow> push_int n | Bytes bs \<Rightarrow> bs)"

definition require_true_top :: "Stack \<Rightarrow> ScriptError + unit" where
  "require_true_top s =
     bindE (map_err (\<lambda>_. Invalid EvalFalse) (stack_peek s)) (\<lambda>top.
     if item_is_true top then Inr () else invalid EvalFalse)"

definition strip_annex :: "bytes list \<Rightarrow> bytes option \<times> bytes list" where
  "strip_annex st =
     (if length st < 2 then (None, st)
      else case last_opt st of
        Some lst \<Rightarrow> if lst \<noteq> [] \<and> lst ! 0 = ANNEX_TAG then (Some lst, butlast st) else (None, st)
      | None \<Rightarrow> (None, st))"

fun push_witness :: "bytes list \<Rightarrow> Stack \<Rightarrow> ScriptError + Stack" where
  "push_witness [] s = Inr s"
| "push_witness (element # elements) s =
     (if length element > MAX_SCRIPT_ELEMENT_SIZE then invalid PushSize
      else bindE (map_err (\<lambda>_. Invalid StackSize) (stack_push s (Bytes element))) (push_witness elements))"

text \<open>Clearing the stack and pushing a single \<open>Num(1)\<close>.\<close>

definition single_true :: "Stack \<Rightarrow> ScriptError + Stack" where
  "single_true s = map_err (\<lambda>_. Invalid StackSize) (stack_push (stack_clear s) (Num 1))"

text \<open>
  The rules are written over the checker they call: \<open>ops annex\<close> is the checker after
  \<open>set_annex(annex)\<close>.  \<open>execute_spend\<close> gives them the transaction's own checker.
\<close>

type_synonym 'c checkers = "bytes option \<Rightarrow> 'c checker_ops"

definition mk_env ::
    "crypto \<Rightarrow> 'c checkers \<Rightarrow> bytes option \<Rightarrow> VerifyFlags \<Rightarrow> bytes \<Rightarrow> SigVersion \<Rightarrow> hash256 option \<Rightarrow> 'c EvalEnv" where
  "mk_env cr ops annex flags script sigversion leaf =
     \<lparr> env_script = script, env_flags = flags, env_checker = ops annex,
       env_sigversion = sigversion, env_tapleaf = leaf, env_hashes = hs cr \<rparr>"

section \<open>Witness programs\<close>

definition witness_v0_script :: "crypto \<Rightarrow> bytes list \<Rightarrow> bytes \<Rightarrow> ScriptError + bytes \<times> nat" where
  "witness_v0_script cr witness program =
     (if length program = 32 then
        (case last_opt witness of
           None \<Rightarrow> invalid WitnessProgramWitnessEmpty
         | Some script \<Rightarrow>
             if sha cr script \<noteq> program then invalid WitnessProgramMismatch
             else Inr (script, length witness - 1))
      else if length program = 20 then
        (if length witness \<noteq> 2 then invalid WitnessProgramMismatch
         else Inr (p2wpkh_script_code program, length witness))
      else invalid WitnessProgramWrongLength)"

text \<open>\<open>verify_witness_program\<close> returns the stack it leaves in its \<open>stack\<close> argument.\<close>

definition verify_witness_program ::
    "crypto \<Rightarrow> 'c checkers \<Rightarrow> bytes list \<Rightarrow> byte \<Rightarrow> bytes \<Rightarrow> VerifyFlags \<Rightarrow> Stack
      \<Rightarrow> ('c, ScriptError, Stack) sresult" where
  "verify_witness_program cr ops witness version program flags s =
     (if version \<noteq> 0 then
        (if contains flags DISCOURAGE_UPGRADABLE_WITNESS_PROGRAM then liftS (invalid DiscourageUpgradableWitnessProgram)
         else liftS (single_true s))
      else
        bindS (liftS (witness_v0_script cr witness program)) (\<lambda>(witness_script, element_count).
        bindS (liftS (push_witness (take element_count witness) stack_new)) (\<lambda>ws.
        bindS (eval_script (mk_env cr ops None flags witness_script WitnessV0 None) ws None) (\<lambda>(ws', _).
        if stack_len ws' \<noteq> 1 then liftS (invalid CleanStack)
        else bindS (liftS (require_true_top ws')) (\<lambda>_. liftS (Inr ws'))))))"

section \<open>Taproot\<close>

definition witness_serialized_size :: "bytes list \<Rightarrow> nat" where
  "witness_serialized_size witness =
     encoded_len (length witness) + sum_list (map (\<lambda>elem. encoded_len (length elem) + length elem) witness)"

definition validation_weight :: "bytes list \<Rightarrow> int" where
  "validation_weight witness =
     (let n = int (witness_serialized_size witness) in
      (if n \<le> i64_max then n else i64_max) + VALIDATION_WEIGHT_OFFSET)"

definition verify_taproot_scriptpath ::
    "crypto \<Rightarrow> 'c checkers \<Rightarrow> bytes \<Rightarrow> bytes list \<Rightarrow> bytes list \<Rightarrow> bytes option \<Rightarrow> VerifyFlags
      \<Rightarrow> ('c, ScriptError, unit) sresult" where
  "verify_taproot_scriptpath cr ops program witness st annex_bytes flags =
     (if length st < 2 then liftS (invalid WitnessProgramWitnessEmpty)
      else let control = last st; script = last (butlast st); args = butlast (butlast st) in
        if length control < TAPROOT_CONTROL_BASE_SIZE \<or> length control > TAPROOT_CONTROL_MAX_SIZE
            \<or> (length control - TAPROOT_CONTROL_BASE_SIZE) mod TAPROOT_CONTROL_NODE_SIZE \<noteq> 0
        then liftS (invalid TaprootWrongControlSize)
        else let leaf_version = control ! 0 AND TAPROOT_LEAF_MASK;
                 tapleaf = tapleaf_hash (sha cr) leaf_version script in
        if \<not> verify_taproot_commitment cr control program tapleaf then liftS (invalid WitnessProgramMismatch)
        else if leaf_version \<noteq> TAPROOT_LEAF_TAPSCRIPT then
          (if contains flags DISCOURAGE_UPGRADABLE_TAPROOT_VERSION then liftS (invalid DiscourageUpgradableTaprootVersion)
           else liftS (Inr ()))
        else
          bindS (liftS (tapscript_op_success script flags)) (\<lambda>op_success.
          if op_success then liftS (Inr ())
          else if length args > MAX_STACK_SIZE then liftS (invalid StackSize)
          else
            bindS (liftS (push_witness args stack_new)) (\<lambda>ws.
            bindS (eval_script (mk_env cr ops annex_bytes flags script Tapscript (Some tapleaf)) ws
              (Some (validation_weight witness))) (\<lambda>(ws', _).
            if stack_len ws' \<noteq> 1 then liftS (invalid CleanStack)
            else liftS (require_true_top ws')))))"

definition verify_taproot ::
    "crypto \<Rightarrow> 'c checkers \<Rightarrow> bytes \<Rightarrow> bytes list \<Rightarrow> VerifyFlags \<Rightarrow> ('c, ScriptError, unit) sresult" where
  "verify_taproot cr ops program witness flags =
     (if witness = [] then liftS (invalid WitnessProgramWitnessEmpty)
      else case strip_annex witness of (annex_bytes, st) \<Rightarrow>
        if length st = 1 then
          (if st ! 0 = [] then liftS (invalid SchnorrSigSize)
           else
             bindS (ck_schnorr (ops annex_bytes) (st ! 0) program None u32_max) (\<lambda>valid.
             if valid then liftS (Inr ()) else liftS (invalid SchnorrSig)))
        else verify_taproot_scriptpath cr ops program witness st annex_bytes flags)"

section \<open>The whole spend\<close>

text \<open>The segwit step of \<open>verify_script\<close>: the stack and whether the witness was used.\<close>

definition native_witness ::
    "crypto \<Rightarrow> 'c checkers \<Rightarrow> bytes \<Rightarrow> bytes \<Rightarrow> bytes list \<Rightarrow> VerifyFlags \<Rightarrow> Stack
      \<Rightarrow> ('c, ScriptError, Stack \<times> bool) sresult" where
  "native_witness cr ops ssig spk witness flags s =
     (case witness_program spk of
        None \<Rightarrow> liftS (Inr (s, False))
      | Some (version, program) \<Rightarrow>
          if ssig \<noteq> [] then liftS (invalid WitnessMalleated)
          else if version = 1 \<and> length program = 32 then
            bindS (if contains flags TAPROOT then verify_taproot cr ops program witness flags else liftS (Inr ())) (\<lambda>_.
            bindS (liftS (single_true s)) (\<lambda>s'. liftS (Inr (s', True))))
          else
            bindS (verify_witness_program cr ops witness version program flags s) (\<lambda>s'. liftS (Inr (s', True))))"

definition witness_step ::
    "crypto \<Rightarrow> 'c checkers \<Rightarrow> bytes \<Rightarrow> bytes \<Rightarrow> bytes list \<Rightarrow> VerifyFlags \<Rightarrow> Stack
      \<Rightarrow> ('c, ScriptError, Stack \<times> bool) sresult" where
  "witness_step cr ops ssig spk witness flags s =
     (if contains flags WITNESS then native_witness cr ops ssig spk witness flags s else liftS (Inr (s, False)))"

text \<open>The pay-to-script-hash step: the redeem script is the top of the stack the script signature left.\<close>

definition redeem_witness ::
    "crypto \<Rightarrow> 'c checkers \<Rightarrow> bytes \<Rightarrow> bytes \<Rightarrow> bytes list \<Rightarrow> VerifyFlags \<Rightarrow> Stack \<Rightarrow> bool
      \<Rightarrow> ('c, ScriptError, Stack \<times> bool) sresult" where
  "redeem_witness cr ops ssig redeem witness flags s witness_used =
     (case witness_program redeem of
        None \<Rightarrow> liftS (Inr (s, witness_used))
      | Some (version, program) \<Rightarrow>
          if ssig \<noteq> push_data redeem then liftS (invalid WitnessMalleatedP2sh)
          else bindS (verify_witness_program cr ops witness version program flags s) (\<lambda>s'. liftS (Inr (s', True))))"

definition redeem_step ::
    "crypto \<Rightarrow> 'c checkers \<Rightarrow> bytes \<Rightarrow> bytes list \<Rightarrow> VerifyFlags \<Rightarrow> Stack \<Rightarrow> bool
      \<Rightarrow> ('c, ScriptError, Stack \<times> bool) sresult" where
  "redeem_step cr ops ssig witness flags redeem_stack witness_used =
     (if \<not> is_push_only ssig then liftS (invalid SigPushonly)
      else
        bindS (liftS (map_err (\<lambda>_. Invalid InvalidStackOperation) (stack_pop redeem_stack))) (\<lambda>(item, s1).
        bindS (eval_script (mk_env cr ops None flags (item_bytes_owned item) Base None) s1 None) (\<lambda>(s2, _).
        bindS (liftS (require_true_top s2)) (\<lambda>_.
        if contains flags WITNESS
        then redeem_witness cr ops ssig (item_bytes_owned item) witness flags s2 witness_used
        else liftS (Inr (s2, witness_used))))))"

definition p2sh_step ::
    "crypto \<Rightarrow> 'c checkers \<Rightarrow> bytes \<Rightarrow> bytes \<Rightarrow> bytes list \<Rightarrow> VerifyFlags \<Rightarrow> Stack \<Rightarrow> Stack \<Rightarrow> bool
      \<Rightarrow> ('c, ScriptError, Stack \<times> bool) sresult" where
  "p2sh_step cr ops ssig spk witness flags redeem_stack s witness_used =
     (if contains flags P2SH \<and> is_p2sh spk then redeem_step cr ops ssig witness flags redeem_stack witness_used
      else liftS (Inr (s, witness_used)))"

definition verify_script ::
    "crypto \<Rightarrow> 'c checkers \<Rightarrow> bytes \<Rightarrow> bytes \<Rightarrow> bytes list \<Rightarrow> VerifyFlags \<Rightarrow> ('c, ScriptError, unit) sresult" where
  "verify_script cr ops ssig spk witness flags =
     (if contains flags SIGPUSHONLY \<and> \<not> is_push_only ssig then liftS (invalid SigPushonly)
      else
        bindS (eval_script (mk_env cr ops None flags ssig Base None) stack_new None) (\<lambda>(redeem_stack, _).
        bindS (eval_script (mk_env cr ops None flags spk Base None) redeem_stack None) (\<lambda>(s0, _).
        bindS (liftS (require_true_top s0)) (\<lambda>_.
        bindS (witness_step cr ops ssig spk witness flags s0) (\<lambda>(s1, used1).
        bindS (p2sh_step cr ops ssig spk witness flags redeem_stack s1 used1) (\<lambda>(s2, used2).
        if contains flags WITNESS \<and> \<not> used2 \<and> witness \<noteq> [] then liftS (invalid WitnessUnexpected)
        else if contains flags CLEANSTACK \<and> (contains flags P2SH \<or> contains flags WITNESS) \<and> stack_len s2 \<noteq> 1
          then liftS (invalid CleanStack)
        else liftS (Inr ())))))))"

definition new_checker :: "Tx \<Rightarrow> nat \<Rightarrow> u64 \<Rightarrow> TxOut list \<Rightarrow> TxSignatureChecker" where
  "new_checker tx input_index amount prevouts =
     \<lparr> ck_tx = tx, ck_input_index = input_index, ck_amount = amount, ck_prevouts = prevouts, ck_annex = None \<rparr>"

definition execute_spend ::
    "crypto \<Rightarrow> Tx \<Rightarrow> nat \<Rightarrow> bytes \<Rightarrow> VerifyFlags \<Rightarrow> TxOut list \<Rightarrow> (sig_cache option, ScriptError, bool) sresult" where
  "execute_spend cr spending input_idx spk flags prevouts =
     (let inp = tx_inputs spending ! input_idx;
          chk = new_checker spending input_idx (out_value (prevouts ! input_idx)) prevouts in
      bindS (verify_script cr (\<lambda>annex. tx_checker_ops cr (set_annex chk annex)) (in_script_sig inp) spk (in_witness inp) (filled flags)) (\<lambda>_. liftS (Inr True)))"

datatype PrevoutError = PrevoutCount nat nat | PrevoutMismatch nat

fun prevouts_match :: "nat \<Rightarrow> TxIn list \<Rightarrow> (OutPoint \<times> TxOut) list \<Rightarrow> PrevoutError + unit" where
  "prevouts_match n (inp # inps) ((outpoint, _) # rest) =
     (if in_prevout inp \<noteq> outpoint then Inl (PrevoutMismatch n) else prevouts_match (n + 1) inps rest)"
| "prevouts_match n _ _ = Inr ()"

definition validate_prevouts :: "Tx \<Rightarrow> (OutPoint \<times> TxOut) list \<Rightarrow> PrevoutError + unit" where
  "validate_prevouts tx prevouts =
     (if length prevouts \<noteq> length (tx_inputs tx) then Inl (PrevoutCount (length (tx_inputs tx)) (length prevouts))
      else prevouts_match 0 (tx_inputs tx) prevouts)"

record PreparedTransaction =
  pt_tx :: Tx
  pt_prevouts :: "TxOut list"

definition prepared_new :: "Tx \<Rightarrow> (OutPoint \<times> TxOut) list \<Rightarrow> PrevoutError + PreparedTransaction" where
  "prepared_new tx prevouts =
     bindE (validate_prevouts tx prevouts) (\<lambda>_. Inr \<lparr> pt_tx = tx, pt_prevouts = map snd prevouts \<rparr>)"

definition verify_input ::
    "crypto \<Rightarrow> PreparedTransaction \<Rightarrow> nat \<Rightarrow> VerifyFlags \<Rightarrow> (sig_cache option, ScriptError, bool) sresult" where
  "verify_input cr prepared input_idx flags =
     (if length (tx_inputs (pt_tx prepared)) \<le> input_idx
      then liftS (Inl (InputIndexOutOfRange input_idx (length (tx_inputs (pt_tx prepared)))))
      else execute_spend cr (pt_tx prepared) input_idx
        (out_script_pubkey (pt_prevouts prepared ! input_idx)) flags (pt_prevouts prepared))"

text \<open>\<open>Interpreter::execute_with_prevouts\<close>: the given script signature and witness are grafted into the input.\<close>

definition execute_with_prevouts ::
    "crypto \<Rightarrow> bytes \<Rightarrow> bytes \<Rightarrow> bytes list \<Rightarrow> VerifyFlags \<Rightarrow> TxOut list \<Rightarrow> Tx \<Rightarrow> nat \<Rightarrow> ScriptError + bool" where
  "execute_with_prevouts cr spk ssig witness flags prevouts tx input_idx =
     (if length prevouts \<noteq> length (tx_inputs tx) then Inl TaprootPrevoutsUnavailable
      else if length (tx_inputs tx) \<le> input_idx then Inl (InputIndexOutOfRange input_idx (length (tx_inputs tx)))
      else let inp = tx_inputs tx ! input_idx;
               spending = (if in_script_sig inp = ssig \<and> in_witness inp = witness then tx
                 else tx\<lparr>tx_inputs := (tx_inputs tx)[input_idx := inp\<lparr>in_script_sig := ssig, in_witness := witness\<rparr>]\<rparr>)
           in fst (execute_spend cr spending input_idx spk flags prevouts None))"

end
