(* ===== verification/Spend_Sim.thy ===== *)
theory Spend_Sim
  imports Interpreter
begin

text \<open>
  Simulation of whole spends.  The locale \<open>spend_sim\<close> lifts \<open>checker_sim\<close> through the
  base, pay-to-script-hash, segwit and taproot rules of \<open>verify_script\<close>.  Its instances
  give that removing flags never turns an accepted spend into a rejected one, and
  that the signature cache never changes a verdict.
\<close>

section \<open>Computations with related results\<close>

definition simQ ::
    "('c \<Rightarrow> 'd \<Rightarrow> bool) \<Rightarrow> ('a \<Rightarrow> 'b \<Rightarrow> bool) \<Rightarrow> ('c, 'e, 'a) sresult \<Rightarrow> ('d, 'e, 'b) sresult \<Rightarrow> bool" where
  "simQ R Q m1 m2 \<longleftrightarrow>
     (\<forall>c d x c'. R c d \<longrightarrow> m1 c = (Inr x, c') \<longrightarrow> (\<exists>y d'. m2 d = (Inr y, d') \<and> Q x y \<and> R c' d'))"

lemma simQ_bindS:
  "simQ R P m m' \<Longrightarrow> (\<And>x y. P x y \<Longrightarrow> simQ R Q (f x) (f' y)) \<Longrightarrow> simQ R Q (bindS m f) (bindS m' f')"
  unfolding simQ_def bindS_eq_Inr_iff by metis

lemma simQ_of_simS: "simS R m m' \<Longrightarrow> (\<And>x. Q x x) \<Longrightarrow> simQ R Q m m'"
  unfolding simQ_def simS_def by blast

lemma simS_of_simQ: "simQ R (=) m m' \<Longrightarrow> simS R m m'"
  unfolding simQ_def simS_def by blast

lemma simQ_mono: "simQ R Q m m' \<Longrightarrow> (\<And>x y. Q x y \<Longrightarrow> Q' x y) \<Longrightarrow> simQ R Q' m m'"
  unfolding simQ_def by blast

lemma simQ_lift: "Q x y \<Longrightarrow> simQ R Q (liftS (Inr x)) (liftS (Inr y))"
  by (simp add: simQ_def liftS_def)

lemma simQ_fail: "simQ R Q (liftS (Inl e)) m"
  by (simp add: simQ_def liftS_def)

text \<open>A computation that only the first side performs, where the second state need not follow.\<close>

lemma simQ_absorb:
  assumes "simQ R P m m'" "\<And>c d c' d'. R c d \<Longrightarrow> R c' d' \<Longrightarrow> R c' d" "\<And>x. Q x y"
  shows "simQ R Q m (liftS (Inr y))"
  using assms unfolding simQ_def liftS_def by blast

lemma simS_option:
  "simS R x x' \<Longrightarrow> (\<And>a. simS R (f a) (f' a)) \<Longrightarrow>
   simS R (case p of None \<Rightarrow> x | Some a \<Rightarrow> f a) (case p of None \<Rightarrow> x' | Some a \<Rightarrow> f' a)"
  by (cases p) simp_all

section \<open>Lifting through the spend rules\<close>

locale spend_sim =
  fixes R :: "'c \<Rightarrow> 'd \<Rightarrow> bool"
    and cr :: crypto
    and ops1 :: "'c checkers"
    and ops2 :: "'d checkers"
    and fl1 :: VerifyFlags
    and fl2 :: VerifyFlags
  assumes ops: "\<And>annex. checker_sim R (ops1 annex) (ops2 annex) fl1 fl2"
    and p2sh_of_witness: "contains fl2 WITNESS \<Longrightarrow> contains fl2 P2SH"
    and closed: "contains fl2 CLEANSTACK \<Longrightarrow> contains fl2 WITNESS"
    and absorb: "contains fl1 x \<Longrightarrow> \<not> contains fl2 x \<Longrightarrow> R c d \<Longrightarrow> R c' d' \<Longrightarrow> R c' d"
begin

lemma sub: "contains fl2 x \<Longrightarrow> contains fl1 x"
  by (rule checker_sim.flag [OF ops])

lemma eval_sim:
  "simS R (eval_script (mk_env cr ops1 annex fl1 script sv leaf) s w) (eval_script (mk_env cr ops2 annex fl2 script sv leaf) s w)"
  by (rule checker_sim.eval_script_sim [OF ops [of annex]]) (simp add: checker_sim.envs_def [OF ops [of annex]] mk_env_def)

lemma schnorr: "simS R (ck_schnorr (ops1 annex) sig pk leaf pos) (ck_schnorr (ops2 annex) sig pk leaf pos)"
  by (rule checker_sim.schnorr [OF ops])

lemma op_success_sim: "okle (tapscript_op_success script fl1) (tapscript_op_success script fl2)"
  by (rule checker_sim.tapscript_op_success_sim [OF ops])

lemma witness_program_sim:
  "simS R (verify_witness_program cr ops1 witness v p fl1 s) (verify_witness_program cr ops2 witness v p fl2 s)"
  unfolding verify_witness_program_def
  by (intro sim_intros eval_sim sub)

lemma scriptpath_sim:
  "simS R (verify_taproot_scriptpath cr ops1 p witness st annex fl1) (verify_taproot_scriptpath cr ops2 p witness st annex fl2)"
  unfolding verify_taproot_scriptpath_def
  by (intro sim_intros eval_sim op_success_sim sub)

lemma taproot_sim: "simS R (verify_taproot cr ops1 p witness fl1) (verify_taproot cr ops2 p witness fl2)"
  unfolding verify_taproot_def by (intro sim_intros scriptpath_sim schnorr)

lemma taproot_step_sim:
  "simS R (if contains fl1 TAPROOT then verify_taproot cr ops1 p witness fl1 else liftS (Inr ()))
     (if contains fl2 TAPROOT then verify_taproot cr ops2 p witness fl2 else liftS (Inr ()))"
proof (cases "contains fl2 TAPROOT")
  case True
  then show ?thesis using sub [OF True] taproot_sim by simp
next
  case False
  have t: "simQ R (=) (verify_taproot cr ops1 p witness fl1) (verify_taproot cr ops2 p witness fl2)"
    by (rule simQ_of_simS [OF taproot_sim]) simp
  show ?thesis
  proof (cases "contains fl1 TAPROOT")
    case True
    have "simQ R (=) (verify_taproot cr ops1 p witness fl1) (liftS (Inr ()))"
      by (rule simQ_absorb [OF t absorb [OF True False]]) simp_all
    then show ?thesis unfolding if_P [OF True] if_not_P [OF False] by (rule simS_of_simQ)
  qed (use False in \<open>simp add: simS_liftS\<close>)
qed

lemma native_witness_sim:
  "simS R (native_witness cr ops1 ssig spk witness fl1 s) (native_witness cr ops2 ssig spk witness fl2 s)"
  unfolding native_witness_def
  by (rule simS_option, rule simS_liftS, rule okle_refl)
    (intro simS_prod simS_guard simS_if [OF simS_bindS] taproot_step_sim witness_program_sim simS_bindS simS_liftS okle_refl)

text \<open>Without segwit on the second side only acceptance is compared, with it the whole result.\<close>

definition same :: "'a \<Rightarrow> 'a \<Rightarrow> bool" where
  "same x y \<longleftrightarrow> (contains fl2 WITNESS \<longrightarrow> x = y)"

lemma witness_step_sim: "simQ R same (witness_step cr ops1 ssig spk witness fl1 s) (witness_step cr ops2 ssig spk witness fl2 s)"
proof (cases "contains fl2 WITNESS")
  case True
  then show ?thesis using sub [OF True] native_witness_sim
    by (simp add: witness_step_def same_def simQ_of_simS)
next
  case False
  have native: "simQ R (=) (native_witness cr ops1 ssig spk witness fl1 s) (native_witness cr ops2 ssig spk witness fl2 s)"
    by (rule simQ_of_simS [OF native_witness_sim]) simp
  show ?thesis
  proof (cases "contains fl1 WITNESS")
    case True
    then show ?thesis
      using False simQ_absorb [OF native absorb [OF True False], where Q = same and y = "(s, False)"]
      by (simp add: witness_step_def same_def)
  qed (use False in \<open>simp add: witness_step_def same_def simQ_lift\<close>)
qed

lemma redeem_witness_sim:
  "simS R (redeem_witness cr ops1 ssig r witness fl1 s u) (redeem_witness cr ops2 ssig r witness fl2 s u)"
  unfolding redeem_witness_def by (intro sim_intros simS_option witness_program_sim)

lemma redeem_tail_sim:
  assumes "same u u'"
  shows "simQ R same
     (if contains fl1 WITNESS then redeem_witness cr ops1 ssig r witness fl1 s u else liftS (Inr (s, u)))
     (if contains fl2 WITNESS then redeem_witness cr ops2 ssig r witness fl2 s u' else liftS (Inr (s, u')))"
proof (cases "contains fl2 WITNESS")
  case True
  then show ?thesis using sub [OF True] redeem_witness_sim assms by (simp add: same_def simQ_of_simS)
next
  case False
  have w: "simQ R (=) (redeem_witness cr ops1 ssig r witness fl1 s u) (redeem_witness cr ops2 ssig r witness fl2 s u)"
    by (rule simQ_of_simS [OF redeem_witness_sim]) simp
  show ?thesis
  proof (cases "contains fl1 WITNESS")
    case True
    then show ?thesis
      using False simQ_absorb [OF w absorb [OF True False], where Q = same and y = "(s, u')"] by (simp add: same_def)
  qed (use False in \<open>simp add: same_def simQ_lift\<close>)
qed

lemma redeem_step_sim:
  assumes "same u u'"
  shows "simQ R same (redeem_step cr ops1 ssig witness fl1 rs u) (redeem_step cr ops2 ssig witness fl2 rs u')"
  unfolding redeem_step_def
  by (auto simp: simQ_fail split: prod.split intro!: simQ_bindS [where P = "(=)"] redeem_tail_sim assms
      simQ_of_simS [where Q = "(=)"] eval_sim simS_liftS)

lemma p2sh_step_sim:
  assumes "same (s, u) (s', u')"
  shows "simQ R same (p2sh_step cr ops1 ssig spk witness fl1 rs s u) (p2sh_step cr ops2 ssig spk witness fl2 rs s' u')"
proof -
  have u: "same u u'" using assms by (simp add: same_def)
  note redeem = redeem_step_sim [OF u, of ssig witness rs]
  show ?thesis
  proof (cases "is_p2sh spk \<and> contains fl1 P2SH \<and> \<not> contains fl2 P2SH")
    case True
    then have "\<not> contains fl2 WITNESS" using p2sh_of_witness by blast
    then show ?thesis
      using True simQ_absorb [OF redeem absorb [of P2SH], where Q = same and y = "(s', u')"]
      by (simp add: p2sh_step_def same_def)
  next
    case False
    then show ?thesis using assms redeem sub [of P2SH] by (auto simp: p2sh_step_def simQ_lift)
  qed
qed

lemma verdict_sim:
  assumes "same (s, u) (s', u')"
  shows "simQ R (=)
     (if contains fl1 WITNESS \<and> \<not> u \<and> w \<noteq> [] then liftS (invalid WitnessUnexpected)
      else if contains fl1 CLEANSTACK \<and> (contains fl1 P2SH \<or> contains fl1 WITNESS) \<and> stack_len s \<noteq> 1
        then liftS (invalid CleanStack)
      else liftS (Inr ()))
     (if contains fl2 WITNESS \<and> \<not> u' \<and> w \<noteq> [] then liftS (invalid WitnessUnexpected)
      else if contains fl2 CLEANSTACK \<and> (contains fl2 P2SH \<or> contains fl2 WITNESS) \<and> stack_len s' \<noteq> 1
        then liftS (invalid CleanStack)
      else liftS (Inr ()))"
proof (cases "contains fl2 WITNESS")
  case True
  then have "s = s'" "u = u'" using assms by (auto simp: same_def)
  then show ?thesis using True sub by (auto simp: simQ_fail simQ_lift)
next
  case False
  then show ?thesis using closed by (auto simp: simQ_fail simQ_lift)
qed

lemma verify_script_sim:
  "simS R (verify_script cr ops1 ssig spk witness fl1) (verify_script cr ops2 ssig spk witness fl2)"
proof -
  have tail: "simQ R (=)
      (bindS (witness_step cr ops1 ssig spk witness fl1 s) (\<lambda>(s1, u1).
       bindS (p2sh_step cr ops1 ssig spk witness fl1 rs s1 u1) (\<lambda>(s2, u2). V1 s2 u2)))
      (bindS (witness_step cr ops2 ssig spk witness fl2 s) (\<lambda>(s1, u1).
       bindS (p2sh_step cr ops2 ssig spk witness fl2 rs s1 u1) (\<lambda>(s2, u2). V2 s2 u2)))"
    if "\<And>s u s' u'. same (s, u) (s', u') \<Longrightarrow> simQ R (=) (V1 s u) (V2 s' u')" for V1 :: "Stack \<Rightarrow> bool \<Rightarrow> ('c, ScriptError, unit) sresult" and V2 :: "Stack \<Rightarrow> bool \<Rightarrow> ('d, ScriptError, unit) sresult" and s rs
    by (rule simQ_bindS [OF witness_step_sim]) (auto intro!: simQ_bindS [OF p2sh_step_sim] that)
  show ?thesis
    unfolding verify_script_def
    by (intro simS_guard simS_bindS simS_prod simS_liftS okle_refl eval_sim simS_of_simQ tail verdict_sim)
      (use sub in blast)
qed

end

text \<open>Two verdicts of a spend: accepted with a cache state.\<close>

definition accepts :: "(sig_cache option, ScriptError, 'a) sresult \<Rightarrow> sig_cache option \<Rightarrow> bool" where
  "accepts m c = is_ok (fst (m c))"

lemma accepts_sim: "simS R m m' \<Longrightarrow> R c d \<Longrightarrow> accepts m c \<Longrightarrow> accepts m' d"
  unfolding accepts_def by (cases "m c"; cases "fst (m c)") (auto dest: simS_D)

section \<open>Removing flags\<close>

definition no_cache :: "sig_cache option \<Rightarrow> sig_cache option \<Rightarrow> bool" where
  "no_cache c d \<longleftrightarrow> c = None \<and> d = None"

lemma cached_verify_no_cache: "simS no_cache (cached_verify k v b) (cached_verify k v b)"
  by (auto simp: simS_def no_cache_def cached_verify_def split: if_splits)

lemma schnorr_no_cache: "simS no_cache (check_schnorr_signature cr chk sig pk leaf pos) (check_schnorr_signature cr chk sig pk leaf pos)"
  unfolding check_schnorr_signature_def Let_def
  by (auto simp del: if_split intro!: simS_bindS simS_liftS cached_verify_no_cache split: if_split)

lemma ecdsa_no_cache:
  assumes "flags_le fl2 fl1"
  shows "simS no_cache (check_ecdsa_signature cr chk sig pk code sv fl1) (check_ecdsa_signature cr chk sig pk code sv fl2)"
  unfolding check_ecdsa_signature_def
  by (intro simS_bindS simS_liftS check_encodings_sim assms simS_if simS_option simS_let cached_verify_no_cache okle_refl)

lemma flags_spend_sim:
  assumes "flags_le fl2 fl1"
  shows "spend_sim no_cache (\<lambda>annex. tx_checker_ops cr (set_annex chk annex))
    (\<lambda>annex. tx_checker_ops cr (set_annex chk annex)) (filled fl1) (filled fl2)"
proof unfold_locales
  fix sig pk code sv annex
  show "simS no_cache (ck_ecdsa (tx_checker_ops cr (set_annex chk annex)) sig pk code sv (filled fl1))
      (ck_ecdsa (tx_checker_ops cr (set_annex chk annex)) sig pk code sv (filled fl2))"
    by (simp add: tx_checker_ops_def ecdsa_no_cache filled_mono assms)
qed (auto simp: tx_checker_ops_def schnorr_no_cache filled_mono assms no_cache_def)

interpretation standard: spend_sim no_cache cr "\<lambda>annex. tx_checker_ops cr (set_annex chk annex)"
    "\<lambda>annex. tx_checker_ops cr (set_annex chk annex)" "filled STANDARD" "filled MANDATORY"
  for cr chk
  by (rule flags_spend_sim [OF MANDATORY_le_STANDARD])

lemma accepts_bindS_True: "accepts (bindS m (\<lambda>_. liftS (Inr True))) c = accepts m c"
  by (auto simp: accepts_def bindS_def liftS_def split: prod.split sum.split)

lemma execute_spend_flags:
  assumes "flags_le f' f" "accepts (execute_spend cr tx i spk f prevouts) None"
  shows "accepts (execute_spend cr tx i spk f' prevouts) None"
proof -
  let ?chk = "new_checker tx i (out_value (prevouts ! i)) prevouts"
  have "simS no_cache (verify_script cr (\<lambda>a. tx_checker_ops cr (set_annex ?chk a)) ssig spk w (filled f))
      (verify_script cr (\<lambda>a. tx_checker_ops cr (set_annex ?chk a)) ssig spk w (filled f'))" for ssig w
    by (rule spend_sim.verify_script_sim [OF flags_spend_sim [OF assms(1)]])
  from accepts_sim [OF this, of None None] show ?thesis
    using assms(2) by (simp add: execute_spend_def Let_def accepts_bindS_True no_cache_def)
qed

lemma verify_input_flags:
  "flags_le f' f \<Longrightarrow> accepts (verify_input cr p i f) None \<Longrightarrow> accepts (verify_input cr p i f') None"
  by (auto simp: verify_input_def accepts_def [of "liftS _"] liftS_def intro: execute_spend_flags split: if_splits)

section \<open>The signature cache\<close>

text \<open>The rules of \<open>verify_script\<close> under a checker that logs and one that caches.\<close>

locale spend_log =
  fixes good :: "'l \<Rightarrow> bool"
    and keep :: "'c \<Rightarrow> bool"
    and cr :: crypto
    and ops1 :: "'l checkers"
    and ops2 :: "'c checkers"
  assumes logs: "\<And>annex. checker_log good keep (ops1 annex) (ops2 annex)"
begin

lemma eval_log:
  "simE good keep (eval_script (mk_env cr ops1 annex fl script sv leaf) s w) (eval_script (mk_env cr ops2 annex fl script sv leaf) s w)"
  by (rule checker_log.eval_script_log [OF logs [of annex]]) (simp add: checker_log.same_env_def [OF logs [of annex]] mk_env_def)

lemma schnorr_log: "simE good keep (ck_schnorr (ops1 annex) sig pk leaf pos) (ck_schnorr (ops2 annex) sig pk leaf pos)"
  by (rule checker_log.schnorr [OF logs])

lemma witness_program_log:
  "simE good keep (verify_witness_program cr ops1 witness v p fl s) (verify_witness_program cr ops2 witness v p fl s)"
  unfolding verify_witness_program_def by (intro log_intros eval_log)

lemma taproot_log: "simE good keep (verify_taproot cr ops1 p witness fl) (verify_taproot cr ops2 p witness fl)"
  unfolding verify_taproot_def verify_taproot_scriptpath_def by (intro log_intros eval_log schnorr_log)

lemma witness_step_log:
  "simE good keep (witness_step cr ops1 ssig spk witness fl s) (witness_step cr ops2 ssig spk witness fl s)"
  unfolding witness_step_def native_witness_def by (intro log_intros taproot_log witness_program_log)

lemma p2sh_step_log:
  "simE good keep (p2sh_step cr ops1 ssig spk witness fl rs s u) (p2sh_step cr ops2 ssig spk witness fl rs s u)"
  unfolding p2sh_step_def redeem_step_def redeem_witness_def by (intro log_intros eval_log witness_program_log)

lemma verify_script_log:
  "simE good keep (verify_script cr ops1 ssig spk witness fl) (verify_script cr ops2 ssig spk witness fl)"
  unfolding verify_script_def by (intro log_intros eval_log witness_step_log p2sh_step_log)

end

lemma tx_spend_log:
  "inj_on (query_key cr) U \<Longrightarrow>
   spend_log (\<lambda>log. set log \<subseteq> U) (cache_from cr U) (\<lambda>annex. log_ops cr (set_annex chk annex))
     (\<lambda>annex. tx_checker_ops cr (set_annex chk annex))"
  by (simp add: spend_log_def tx_checker_log)

interpretation one_spend: spend_log "\<lambda>log. set log \<subseteq> {q}" "cache_from cr {q}" cr
    "\<lambda>annex. log_ops cr (set_annex chk annex)" "\<lambda>annex. tx_checker_ops cr (set_annex chk annex)"
  for q cr chk
  by (rule tx_spend_log) simp

text \<open>The signature queries that the uncached verification of an input asks, in order.\<close>

definition spend_queries :: "crypto \<Rightarrow> PreparedTransaction \<Rightarrow> nat \<Rightarrow> VerifyFlags \<Rightarrow> sig_query list" where
  "spend_queries cr p i flags =
     (if length (tx_inputs (pt_tx p)) \<le> i then []
      else let inp = tx_inputs (pt_tx p) ! i;
               chk = new_checker (pt_tx p) i (out_value (pt_prevouts p ! i)) (pt_prevouts p) in
        snd (verify_script cr (\<lambda>annex. log_ops cr (set_annex chk annex)) (in_script_sig inp)
          (out_script_pubkey (pt_prevouts p ! i)) (in_witness inp) (filled flags) []))"

lemma simE_same_keep:
  assumes "simE good keep m m'" "good (snd (m l))" "keep c" "keep d"
  shows "fst (m' c) = fst (m' d) \<and> keep (snd (m' c))"
  using simE_D [OF assms(1,2,3)] simE_D [OF assms(1,2,4)] by simp

lemma fst_bindS_True: "fst (m c) = fst (m d) \<Longrightarrow> fst (bindS m (\<lambda>_. liftS (Inr True)) c) = fst (bindS m (\<lambda>_. liftS (Inr True)) d)"
  by (auto simp: bindS_def liftS_def split: prod.splits sum.splits)

lemma snd_bindS_True: "snd (bindS m (\<lambda>_. liftS (Inr True)) c) = snd (m c)"
  by (auto simp: bindS_def liftS_def split: prod.splits sum.splits)

lemma verify_input_cache:
  assumes "inj_on (query_key cr) U" "set (spend_queries cr p i flags) \<subseteq> U" "cache_from cr U c"
  shows "fst (verify_input cr p i flags c) = fst (verify_input cr p i flags None)"
    and "cache_from cr U (snd (verify_input cr p i flags c))"
proof -
  have "fst (verify_input cr p i flags c) = fst (verify_input cr p i flags None) \<and>
      cache_from cr U (snd (verify_input cr p i flags c))"
  proof (cases "length (tx_inputs (pt_tx p)) \<le> i")
    case False
    let ?inp = "tx_inputs (pt_tx p) ! i"
    let ?chk = "new_checker (pt_tx p) i (out_value (pt_prevouts p ! i)) (pt_prevouts p)"
    define m where "m = verify_script cr (\<lambda>annex. tx_checker_ops cr (set_annex ?chk annex)) (in_script_sig ?inp)
      (out_script_pubkey (pt_prevouts p ! i)) (in_witness ?inp) (filled flags)"
    define l where "l = verify_script cr (\<lambda>annex. log_ops cr (set_annex ?chk annex)) (in_script_sig ?inp)
      (out_script_pubkey (pt_prevouts p ! i)) (in_witness ?inp) (filled flags)"
    have "simE (\<lambda>log. set log \<subseteq> U) (cache_from cr U) l m"
      unfolding l_def m_def by (rule spend_log.verify_script_log [OF tx_spend_log [OF assms(1)]])
    moreover have "set (snd (l [])) \<subseteq> U"
      using assms(2) False by (simp add: spend_queries_def l_def Let_def)
    ultimately have "fst (m c) = fst (m None) \<and> cache_from cr U (snd (m c))"
      by (rule simE_same_keep) (simp_all add: assms(3))
    moreover have "verify_input cr p i flags = bindS m (\<lambda>_. liftS (Inr True))"
      using False by (simp add: verify_input_def execute_spend_def m_def Let_def)
    ultimately show ?thesis by (simp add: fst_bindS_True [of m c None] snd_bindS_True)
  qed (use assms(3) in \<open>simp add: verify_input_def liftS_def\<close>)
  then show "fst (verify_input cr p i flags c) = fst (verify_input cr p i flags None)"
    "cache_from cr U (snd (verify_input cr p i flags c))" by simp_all
qed

end
