(* ===== verification/Samples.thy ===== *)
theory Samples
  imports Spend_Sim "HOL-Library.Code_Target_Nat"
begin

text \<open>
  Concrete inputs on which the development's definitions are evaluated: a stand-in
  for the hash and curve libraries (digests keep the first bytes of their
  argument, and a signature verifies when its first byte is that of the key) and a
  one-input transaction that spends a bare pay-to-public-key output.
\<close>

definition pad :: "nat \<Rightarrow> bytes \<Rightarrow> bytes" where
  "pad n d = take n (d @ replicate n 0)"

definition sample_hashes :: hashes where
  "sample_hashes = \<lparr> sha256 = pad 32, ripemd160 = pad 20, sha1 = pad 20 \<rparr>"

definition first_byte_eq :: "bytes \<Rightarrow> bytes \<Rightarrow> bool" where
  "first_byte_eq a b \<longleftrightarrow> a \<noteq> [] \<and> b \<noteq> [] \<and> hd a = hd b"

definition sample_crypto :: crypto where
  "sample_crypto =
     \<lparr> hs = sample_hashes, pubkey_from_slice = Some, ecdsa_from_der_lax = Some, normalize_s = (\<lambda>s. s),
       verify_ecdsa = (\<lambda>_ s p. first_byte_eq s p), xonly_from_slice = Inr, schnorr_from_slice = Some,
       verify_schnorr = (\<lambda>s _ p. first_byte_eq s p), scalar_from_be_bytes = Some, xonly_serialize = (\<lambda>x. x),
       tweak_add_check = (\<lambda>a b _ _. a = b) \<rparr>"

text \<open>The script signature pushes a two-byte signature, the output script a two-byte key.\<close>

definition sample_spend :: Tx where
  "sample_spend =
     \<lparr> tx_version = 2,
       tx_inputs = [\<lparr> in_prevout = \<lparr> op_txid = replicate 32 7, op_vout = 0 \<rparr>, in_script_sig = [2, 5, 1],
         in_sequence = 0xffffffff, in_witness = [] \<rparr>],
       tx_outputs = [\<lparr> out_value = 1000, out_script_pubkey = [0x51] \<rparr>],
       tx_lock_time = 0 \<rparr>"

definition sample_prevouts :: "TxOut list" where
  "sample_prevouts = [\<lparr> out_value = 2000, out_script_pubkey = [2, 5, 9, 0xac] \<rparr>]"

definition sample_prepared :: PreparedTransaction where
  "sample_prepared = \<lparr> pt_tx = sample_spend, pt_prevouts = sample_prevouts \<rparr>"

lemma sample_hashes_small: "hashes_small sample_hashes"
  by (auto simp: hashes_small_def sample_hashes_def pad_def)

lemma sample_accepted: "accepts (verify_input sample_crypto sample_prepared 0 (flags_union P2SH WITNESS)) None"
  by code_simp

definition sample_query :: sig_query where
  "sample_query = (KEcdsa, [2, 0, 0, 0, 1] @ replicate 27 7, [5, 1], [5, 9])"

lemma sample_queries: "spend_queries sample_crypto sample_prepared 0 P2SH = [sample_query]"
  by code_simp

lemma sample_cache: "cache_from sample_crypto {sample_query} (Some [query_key sample_crypto sample_query])"
  by (simp add: cache_from_def cache_wf_def sample_query_def sample_crypto_def first_byte_eq_def)

definition sample_checks :: "unit checker_ops" where
  "sample_checks = \<lparr> ck_ecdsa = (\<lambda>_ _ _ _ _ c. (Inr True, c)), ck_schnorr = (\<lambda>_ _ _ _ c. (Inr True, c)),
     ck_locktime = (\<lambda>_. True), ck_sequence = (\<lambda>_. True) \<rparr>"

definition sample_env :: "(nat \<times> unit) EvalEnv" where
  "sample_env = \<lparr> env_script = [1, 7], env_flags = P2SH, env_checker = counting sample_checks,
     env_sigversion = Base, env_tapleaf = None, env_hashes = sample_hashes \<rparr>"

lemma sample_push_eval:
  "eval_script sample_env [Bytes [5, 1], Bytes [5, 9]] None (0, ()) =
     (Inr ([Bytes [5, 1], Bytes [5, 9], Bytes [7]], None), (0, ()))"
  by code_simp

lemma sample_wf: "tx_wf sample_spend"
  by (simp add: tx_wf_def sample_spend_def outpoint_wf_def out_wf_def)

end
