(* ===== verification/Sigops.thy ===== *)
theory Sigops
  imports Script_Flags Tx
begin

text \<open>
  Signature operation counting (\<open>src/crates/script/src/sigops.rs\<close>) and the cost of a
  transaction (\<open>src/crates/consensus/src/sigops.rs\<close>).  The counters are \<open>u32\<close> values
  that saturate.
\<close>

section \<open>Counting in one script\<close>

fun count_legacy_from :: "nat \<Rightarrow> (EarlyEndOfScript + Instruction) list \<Rightarrow> nat" where
  "count_legacy_from count [] = count"
| "count_legacy_from count (Inl _ # _) = count"
| "count_legacy_from count (Inr (PushBytes _) # rest) = count_legacy_from count rest"
| "count_legacy_from count (Inr (Op op) # rest) =
     count_legacy_from
       (if op = OP_CHECKSIG \<or> op = OP_CHECKSIGVERIFY then sat_add32 count 1
        else if op = OP_CHECKMULTISIG \<or> op = OP_CHECKMULTISIGVERIFY then sat_add32 count 20
        else count) rest"

definition count_legacy :: "bytes \<Rightarrow> nat" where
  "count_legacy script = count_legacy_from 0 (instr_items (instructions script))"

fun count_accurate_from :: "nat \<Rightarrow> byte option \<Rightarrow> (EarlyEndOfScript + Instruction) list \<Rightarrow> nat" where
  "count_accurate_from count pushnum_cache [] = count"
| "count_accurate_from count pushnum_cache (Inl _ # _) = count"
| "count_accurate_from count pushnum_cache (Inr (PushBytes _) # rest) = count_accurate_from count None rest"
| "count_accurate_from count pushnum_cache (Inr (Op op) # rest) =
     (if op = OP_CHECKSIG \<or> op = OP_CHECKSIGVERIFY then count_accurate_from (sat_add32 count 1) None rest
      else if op = OP_CHECKMULTISIG \<or> op = OP_CHECKMULTISIGVERIFY then
        count_accurate_from
          (sat_add32 count (case pushnum_cache of None \<Rightarrow> 20 | Some keys \<Rightarrow> unat keys)) None rest
      else count_accurate_from count (decode_pushnum op) rest)"

definition count_accurate :: "bytes \<Rightarrow> nat" where
  "count_accurate script = count_accurate_from 0 None (instr_items (instructions script))"

definition count_segwit :: "bytes \<Rightarrow> bytes list \<Rightarrow> nat" where
  "count_segwit script witness =
     (if is_p2wpkh script then 1
      else if \<not> is_p2wsh script then 0
      else case last_opt witness of None \<Rightarrow> 0 | Some s \<Rightarrow> count_accurate s)"

definition count_tx_legacy :: "Tx \<Rightarrow> nat" where
  "count_tx_legacy tx =
     (let count = foldl (\<lambda>count inp. sat_add32 count (count_legacy (in_script_sig inp))) 0 (tx_inputs tx) in
      foldl (\<lambda>count out. sat_add32 count (count_legacy (out_script_pubkey out))) count (tx_outputs tx))"

section \<open>The cost of a transaction\<close>

fun last_push_from :: "bytes option \<Rightarrow> (EarlyEndOfScript + Instruction) list \<Rightarrow> bytes option" where
  "last_push_from lst [] = lst"
| "last_push_from lst (Inl _ # _) = None"
| "last_push_from lst (Inr (PushBytes bs) # rest) = last_push_from (Some bs) rest"
| "last_push_from lst (Inr (Op _) # rest) = last_push_from None rest"

definition last_push :: "bytes \<Rightarrow> bytes option" where
  "last_push script = last_push_from None (instr_items (instructions script))"

text \<open>What one input with a known previous output adds to the cost.\<close>

definition input_sigop_cost :: "VerifyFlags \<Rightarrow> TxIn \<Rightarrow> TxOut \<Rightarrow> nat \<Rightarrow> nat" where
  "input_sigop_cost flags inp prevout cost =
     (let redeem =
            (if contains flags P2SH \<and> is_p2sh (out_script_pubkey prevout) \<and> is_push_only (in_script_sig inp)
             then last_push (in_script_sig inp) else None);
          cost = (case redeem of Some script \<Rightarrow> sat_add32 cost (sat_mul32 (count_accurate script) 4) | None \<Rightarrow> cost) in
      if contains flags WITNESS then
        (let program =
               (if is_witness_program (out_script_pubkey prevout) then Some (out_script_pubkey prevout)
                else case redeem of Some script \<Rightarrow> if is_witness_program script then Some script else None | None \<Rightarrow> None) in
         case program of Some p \<Rightarrow> sat_add32 cost (count_segwit p (in_witness inp)) | None \<Rightarrow> cost)
      else cost)"

text \<open>
  The loop over the inputs.  \<open>cursor\<close> is the next previous output to try; when it is
  not the input's, the outputs are indexed by outpoint, the first of each one kept.
\<close>

fun sigop_inputs :: "VerifyFlags \<Rightarrow> (OutPoint \<times> TxOut) list \<Rightarrow> nat \<Rightarrow> TxIn list \<Rightarrow> nat \<Rightarrow> nat" where
  "sigop_inputs flags prevouts cursor [] cost = cost"
| "sigop_inputs flags prevouts cursor (inp # inps) cost =
     (case get_at prevouts cursor of
        Some (outpoint, out) \<Rightarrow>
          if outpoint = in_prevout inp
          then sigop_inputs flags prevouts (cursor + 1) inps (input_sigop_cost flags inp out cost)
          else (case map_of prevouts (in_prevout inp) of
              None \<Rightarrow> sigop_inputs flags prevouts cursor inps cost
            | Some o2 \<Rightarrow> sigop_inputs flags prevouts cursor inps (input_sigop_cost flags inp o2 cost))
      | None \<Rightarrow> (case map_of prevouts (in_prevout inp) of
              None \<Rightarrow> sigop_inputs flags prevouts cursor inps cost
            | Some o2 \<Rightarrow> sigop_inputs flags prevouts cursor inps (input_sigop_cost flags inp o2 cost)))"

definition transaction_sigop_cost :: "Tx \<Rightarrow> (OutPoint \<times> TxOut) list \<Rightarrow> VerifyFlags \<Rightarrow> nat" where
  "transaction_sigop_cost tx prevouts flags =
     (let flags = filled flags; cost = sat_mul32 (count_tx_legacy tx) 4 in
      if is_coinbase tx then cost else sigop_inputs flags prevouts 0 (tx_inputs tx) cost)"

section \<open>Counts\<close>

lemma decode_pushnum_le:
  assumes "decode_pushnum op = Some k"
  shows "unat k \<le> 16"
proof -
  have "0x51 \<le> op" "op \<le> 0x60" "k = op - 0x50"
    using assms by (auto simp: decode_pushnum_def split: if_splits)
  then show ?thesis by (simp add: unat_sub word_le_nat_alt)
qed

lemma count_accurate_from_le:
  assumes "a \<le> b" "case pre of None \<Rightarrow> True | Some k \<Rightarrow> unat k \<le> 20"
  shows "count_accurate_from a pre items \<le> count_legacy_from b items"
  using assms
proof (induction a pre items arbitrary: b rule: count_accurate_from.induct)
  case (4 count pre op rest)
  have "case decode_pushnum op of None \<Rightarrow> True | Some k \<Rightarrow> unat k \<le> 20"
    using decode_pushnum_le [of op] by (auto split: option.split)
  moreover have "sat_add32 count (case pre of None \<Rightarrow> 20 | Some keys \<Rightarrow> unat keys) \<le> sat_add32 b 20"
    using 4(4,5) by (intro sat_add_mono) (auto split: option.splits)
  ultimately show ?case
    using 4 by (auto simp: sat_add_mono)
qed auto

text \<open>The accurate count never exceeds the legacy count.\<close>

lemma count_accurate_le_legacy: "count_accurate script \<le> count_legacy script"
  by (simp add: count_accurate_def count_legacy_def count_accurate_from_le)

text \<open>The reference: every input's cost with its previous output looked up by outpoint.\<close>

definition sigop_reference :: "VerifyFlags \<Rightarrow> (OutPoint \<times> TxOut) list \<Rightarrow> TxIn list \<Rightarrow> nat \<Rightarrow> nat" where
  "sigop_reference flags prevouts inps cost =
     foldl (\<lambda>cost inp. case map_of prevouts (in_prevout inp) of
       None \<Rightarrow> cost | Some out \<Rightarrow> input_sigop_cost flags inp out cost) cost inps"

lemma sigop_inputs_reference:
  assumes "distinct (map fst prevouts)"
  shows "sigop_inputs flags prevouts cursor inps cost = sigop_reference flags prevouts inps cost"
proof (induction inps arbitrary: cursor cost)
  case Nil
  then show ?case by (simp add: sigop_reference_def)
next
  case (Cons inp inps)
  have "map_of prevouts (in_prevout inp) = Some out"
    if "get_at prevouts cursor = Some (in_prevout inp, out)" for out
    using that assms by (auto simp: get_at_def split: if_splits intro!: map_of_is_SomeI dest: nth_mem)
  then show ?case
    using Cons by (auto simp: sigop_reference_def split: option.split prod.split)
qed

end
