(* ===== verification/Sha256.thy ===== *)
theory Sha256
  imports Prelude
begin

text \<open>
  The eight-lane double SHA-256 of 64-byte messages that Merkle trees use on processors with
  AVX2 (\<open>src/crates/consensus/src/sha256d64.rs\<close>), and the hash function of FIPS 180-4 that
  it must compute on every lane.  A vector register is its eight 32-bit lanes, and
  the intrinsics act lane by lane.
\<close>

section \<open>The standard\<close>

definition Ch :: "u32 \<Rightarrow> u32 \<Rightarrow> u32 \<Rightarrow> u32" where
  "Ch x y z = (x AND y) XOR (NOT x AND z)"

definition Maj :: "u32 \<Rightarrow> u32 \<Rightarrow> u32 \<Rightarrow> u32" where
  "Maj x y z = (x AND y) XOR (x AND z) XOR (y AND z)"

definition Sigma0 :: "u32 \<Rightarrow> u32" where
  "Sigma0 x = word_rotr 2 x XOR word_rotr 13 x XOR word_rotr 22 x"

definition Sigma1 :: "u32 \<Rightarrow> u32" where
  "Sigma1 x = word_rotr 6 x XOR word_rotr 11 x XOR word_rotr 25 x"

definition sigma0 :: "u32 \<Rightarrow> u32" where
  "sigma0 x = word_rotr 7 x XOR word_rotr 18 x XOR drop_bit 3 x"

definition sigma1 :: "u32 \<Rightarrow> u32" where
  "sigma1 x = word_rotr 17 x XOR word_rotr 19 x XOR drop_bit 10 x"

text \<open>
  The constants are the first 32 bits of the fractional parts of square and cube roots of the
  first primes; \<open>root_bits e x b n\<close> raises \<open>n\<close> bit by bit to the integer \<open>e\<close>-th root of \<open>x\<close>.
\<close>

fun root_bits :: "nat \<Rightarrow> nat \<Rightarrow> nat \<Rightarrow> nat \<Rightarrow> nat" where
  "root_bits e x 0 n = n"
| "root_bits e x (Suc b) n = root_bits e x b (if (n + 2 ^ b) ^ e \<le> x then n + 2 ^ b else n)"

definition root_fraction :: "nat \<Rightarrow> nat \<Rightarrow> u32" where
  "root_fraction e p = word_of_nat (root_bits e (p * 2 ^ (32 * e)) 37 0 mod 2 ^ 32)"

definition first_primes :: "nat list" where
  "first_primes = [2, 3, 5, 7, 11, 13, 17, 19, 23, 29, 31, 37, 41, 43, 47, 53, 59, 61, 67, 71, 73, 79, 83, 89, 97, 101,
     103, 107, 109, 113, 127, 131, 137, 139, 149, 151, 157, 163, 167, 173, 179, 181, 191, 193, 197, 199, 211, 223,
     227, 229, 233, 239, 241, 251, 257, 263, 269, 271, 277, 281, 283, 293, 307, 311]"

definition sha_H0 :: "u32 list" where
  "sha_H0 = map (root_fraction 2) (take 8 first_primes)"

definition sha_K :: "u32 list" where
  "sha_K = map (root_fraction 3) first_primes"

definition sha_schedule :: "u32 list \<Rightarrow> u32 list" where
  "sha_schedule M = fold (\<lambda>t W. W @ [sigma1 (W ! (t - 2)) + W ! (t - 7) + sigma0 (W ! (t - 15)) + W ! (t - 16)]) [16..<64] M"

type_synonym 'a eight = "'a \<times> 'a \<times> 'a \<times> 'a \<times> 'a \<times> 'a \<times> 'a \<times> 'a"

fun sha_round :: "u32 \<Rightarrow> u32 \<Rightarrow> u32 eight \<Rightarrow> u32 eight" where
  "sha_round K W (a, b, c, d, e, f, g, h) =
     (let T1 = h + Sigma1 e + Ch e f g + K + W; T2 = Sigma0 a + Maj a b c in (T1 + T2, a, b, c, d + T1, e, f, g))"

fun eight_list :: "'a eight \<Rightarrow> 'a list" where
  "eight_list (a, b, c, d, e, f, g, h) = [a, b, c, d, e, f, g, h]"

definition list_eight :: "'a list \<Rightarrow> 'a eight" where
  "list_eight s = (s ! 0, s ! 1, s ! 2, s ! 3, s ! 4, s ! 5, s ! 6, s ! 7)"

definition sha_compress :: "u32 list \<Rightarrow> u32 list \<Rightarrow> u32 list" where
  "sha_compress H M = map2 (+) H (eight_list
     (fold (\<lambda>t. sha_round (sha_K ! t) (sha_schedule M ! t)) [0..<64] (list_eight H)))"

definition u32_be :: "u32 \<Rightarrow> bytes" where "u32_be w = rev (u32_le w)"
definition u32_of_be :: "bytes \<Rightarrow> u32" where "u32_of_be bs = u32_of_le (rev bs)"

fun be_words :: "bytes \<Rightarrow> u32 list" where
  "be_words (b0 # b1 # b2 # b3 # bs) = u32_of_be [b0, b1, b2, b3] # be_words bs"
| "be_words _ = []"

definition be_bytes :: "u32 list \<Rightarrow> bytes" where
  "be_bytes ws = concat (map u32_be ws)"

definition sha_pad :: "bytes \<Rightarrow> bytes" where
  "sha_pad m = m @ [0x80] @ replicate ((119 - length m mod 64) mod 64) 0 @ rev (u64_le (8 * word_of_nat (length m)))"

fun sha_blocks :: "u32 list \<Rightarrow> bytes \<Rightarrow> u32 list" where
  "sha_blocks H bs = (if length bs < 64 then H else sha_blocks (sha_compress H (be_words (take 64 bs))) (drop 64 bs))"

declare sha_blocks.simps [simp del]

definition sha256 :: "bytes \<Rightarrow> bytes" where
  "sha256 m = be_bytes (sha_blocks sha_H0 (sha_pad m))"

section \<open>The vector code\<close>

datatype m256i = M256 u32 u32 u32 u32 u32 u32 u32 u32

fun lane :: "nat \<Rightarrow> m256i \<Rightarrow> u32" where
  "lane k (M256 w0 w1 w2 w3 w4 w5 w6 w7) = [w0, w1, w2, w3, w4, w5, w6, w7] ! k"

fun lift2 :: "(u32 \<Rightarrow> u32 \<Rightarrow> u32) \<Rightarrow> m256i \<Rightarrow> m256i \<Rightarrow> m256i" where
  "lift2 f (M256 a0 a1 a2 a3 a4 a5 a6 a7) (M256 b0 b1 b2 b3 b4 b5 b6 b7) =
     M256 (f a0 b0) (f a1 b1) (f a2 b2) (f a3 b3) (f a4 b4) (f a5 b5) (f a6 b6) (f a7 b7)"

fun lift1 :: "(u32 \<Rightarrow> u32) \<Rightarrow> m256i \<Rightarrow> m256i" where
  "lift1 f (M256 a0 a1 a2 a3 a4 a5 a6 a7) = M256 (f a0) (f a1) (f a2) (f a3) (f a4) (f a5) (f a6) (f a7)"

abbreviation mm256_set1_epi32 :: "u32 \<Rightarrow> m256i" where "mm256_set1_epi32 w \<equiv> M256 w w w w w w w w"
abbreviation mm256_setzero_si256 :: m256i where "mm256_setzero_si256 \<equiv> mm256_set1_epi32 0"
abbreviation mm256_add_epi32 :: "m256i \<Rightarrow> m256i \<Rightarrow> m256i" where "mm256_add_epi32 \<equiv> lift2 (+)"
abbreviation mm256_xor_si256 :: "m256i \<Rightarrow> m256i \<Rightarrow> m256i" where "mm256_xor_si256 \<equiv> lift2 (XOR)"
abbreviation mm256_and_si256 :: "m256i \<Rightarrow> m256i \<Rightarrow> m256i" where "mm256_and_si256 \<equiv> lift2 (AND)"
abbreviation mm256_or_si256 :: "m256i \<Rightarrow> m256i \<Rightarrow> m256i" where "mm256_or_si256 \<equiv> lift2 (OR)"
abbreviation mm256_srli_epi32 :: "nat \<Rightarrow> m256i \<Rightarrow> m256i" where "mm256_srli_epi32 n \<equiv> lift1 (drop_bit n)"
abbreviation mm256_slli_epi32 :: "nat \<Rightarrow> m256i \<Rightarrow> m256i" where "mm256_slli_epi32 n \<equiv> lift1 (push_bit n)"

definition INITIAL_STATE :: "u32 list" where
  "INITIAL_STATE = [0x6a09e667, 0xbb67ae85, 0x3c6ef372, 0xa54ff53a, 0x510e527f, 0x9b05688c, 0x1f83d9ab, 0x5be0cd19]"

definition ROUND_CONSTANTS :: "u32 list" where
  "ROUND_CONSTANTS = concat [
     [0x428a2f98, 0x71374491, 0xb5c0fbcf, 0xe9b5dba5, 0x3956c25b, 0x59f111f1, 0x923f82a4, 0xab1c5ed5],
     [0xd807aa98, 0x12835b01, 0x243185be, 0x550c7dc3, 0x72be5d74, 0x80deb1fe, 0x9bdc06a7, 0xc19bf174],
     [0xe49b69c1, 0xefbe4786, 0x0fc19dc6, 0x240ca1cc, 0x2de92c6f, 0x4a7484aa, 0x5cb0a9dc, 0x76f988da],
     [0x983e5152, 0xa831c66d, 0xb00327c8, 0xbf597fc7, 0xc6e00bf3, 0xd5a79147, 0x06ca6351, 0x14292967],
     [0x27b70a85, 0x2e1b2138, 0x4d2c6dfc, 0x53380d13, 0x650a7354, 0x766a0abb, 0x81c2c92e, 0x92722c85],
     [0xa2bfe8a1, 0xa81a664b, 0xc24b8b70, 0xc76c51a3, 0xd192e819, 0xd6990624, 0xf40e3585, 0x106aa070],
     [0x19a4c116, 0x1e376c08, 0x2748774c, 0x34b0bcb5, 0x391c0cb3, 0x4ed8aa4a, 0x5b9cca4f, 0x682e6ff3],
     [0x748f82ee, 0x78a5636f, 0x84c87814, 0x8cc70208, 0x90befffa, 0xa4506ceb, 0xbef9a3f7, 0xc67178f2]]"

definition add2 :: "m256i \<Rightarrow> m256i \<Rightarrow> m256i" where
  "add2 a b = mm256_add_epi32 a b"

definition add4 :: "m256i \<Rightarrow> m256i \<Rightarrow> m256i \<Rightarrow> m256i \<Rightarrow> m256i" where
  "add4 a b c d = add2 (add2 a b) (add2 c d)"

definition add5 :: "m256i \<Rightarrow> m256i \<Rightarrow> m256i \<Rightarrow> m256i \<Rightarrow> m256i \<Rightarrow> m256i" where
  "add5 a b c d e = add2 (add4 a b c d) e"

definition choose_lanes :: "m256i \<Rightarrow> m256i \<Rightarrow> m256i \<Rightarrow> m256i" where
  "choose_lanes x y z = mm256_xor_si256 z (mm256_and_si256 x (mm256_xor_si256 y z))"

definition majority :: "m256i \<Rightarrow> m256i \<Rightarrow> m256i \<Rightarrow> m256i" where
  "majority x y z = mm256_or_si256 (mm256_and_si256 x y) (mm256_and_si256 z (mm256_or_si256 x y))"

definition big_sigma0 :: "m256i \<Rightarrow> m256i" where
  "big_sigma0 x = mm256_xor_si256 (mm256_xor_si256
     (mm256_or_si256 (mm256_srli_epi32 2 x) (mm256_slli_epi32 30 x))
     (mm256_or_si256 (mm256_srli_epi32 13 x) (mm256_slli_epi32 19 x)))
     (mm256_or_si256 (mm256_srli_epi32 22 x) (mm256_slli_epi32 10 x))"

definition big_sigma1 :: "m256i \<Rightarrow> m256i" where
  "big_sigma1 x = mm256_xor_si256 (mm256_xor_si256
     (mm256_or_si256 (mm256_srli_epi32 6 x) (mm256_slli_epi32 26 x))
     (mm256_or_si256 (mm256_srli_epi32 11 x) (mm256_slli_epi32 21 x)))
     (mm256_or_si256 (mm256_srli_epi32 25 x) (mm256_slli_epi32 7 x))"

definition small_sigma0 :: "m256i \<Rightarrow> m256i" where
  "small_sigma0 x = mm256_xor_si256 (mm256_xor_si256
     (mm256_or_si256 (mm256_srli_epi32 7 x) (mm256_slli_epi32 25 x))
     (mm256_or_si256 (mm256_srli_epi32 18 x) (mm256_slli_epi32 14 x)))
     (mm256_srli_epi32 3 x)"

definition small_sigma1 :: "m256i \<Rightarrow> m256i" where
  "small_sigma1 x = mm256_xor_si256 (mm256_xor_si256
     (mm256_or_si256 (mm256_srli_epi32 17 x) (mm256_slli_epi32 15 x))
     (mm256_or_si256 (mm256_srli_epi32 19 x) (mm256_slli_epi32 13 x)))
     (mm256_srli_epi32 10 x)"

definition read_word :: "bytes \<Rightarrow> nat \<Rightarrow> u32" where
  "read_word message offset =
     u32_of_be [message ! offset, message ! (offset + 1), message ! (offset + 2), message ! (offset + 3)]"

definition initial_state_8way :: "m256i list" where
  "initial_state_8way = map mm256_set1_epi32 INITIAL_STATE"

definition expand_schedule :: "m256i list \<Rightarrow> m256i list" where
  "expand_schedule block = fold (\<lambda>index schedule. schedule[index :=
       add4 (small_sigma1 (schedule ! (index - 2))) (schedule ! (index - 7))
         (small_sigma0 (schedule ! (index - 15))) (schedule ! (index - 16))])
     [16..<64] (block @ replicate 48 mm256_setzero_si256)"

fun compress_round :: "u32 \<Rightarrow> m256i \<Rightarrow> m256i eight \<Rightarrow> m256i eight" where
  "compress_round constant word (a, b, c, d, e, f, g, h) =
     (let round_1 = add5 h (big_sigma1 e) (choose_lanes e f g) (mm256_set1_epi32 constant) word;
          round_2 = add2 (big_sigma0 a) (majority a b c) in
      (add2 round_1 round_2, a, b, c, add2 d round_1, e, f, g))"

definition compress :: "m256i list \<Rightarrow> m256i list \<Rightarrow> m256i list" where
  "compress state block = (let schedule = expand_schedule block in
     map2 add2 state (eight_list
       (fold (\<lambda>index. compress_round (ROUND_CONSTANTS ! index) (schedule ! index)) [0..<64] (list_eight state))))"

definition transform_8way :: "bytes list \<Rightarrow> bytes list" where
  "transform_8way input =
     (let zero = mm256_setzero_si256;
          first_block = map (\<lambda>word. let offset = word * 4 in
            M256 (read_word (input ! 0) offset) (read_word (input ! 1) offset) (read_word (input ! 2) offset)
              (read_word (input ! 3) offset) (read_word (input ! 4) offset) (read_word (input ! 5) offset)
              (read_word (input ! 6) offset) (read_word (input ! 7) offset)) [0..<16];
          state = compress initial_state_8way first_block;
          first_padding = (replicate 16 zero)[0 := mm256_set1_epi32 0x80000000, 15 := mm256_set1_epi32 512];
          state = compress state first_padding;
          second_block = (state @ replicate 8 zero)[8 := mm256_set1_epi32 0x80000000, 15 := mm256_set1_epi32 256];
          state = compress initial_state_8way second_block in
      map (\<lambda>k. concat (map (\<lambda>value. u32_be (lane k value)) state)) [0..<8])"

section \<open>Lane by lane\<close>

lemma root_bits_eq:
  "n0 \<le> n \<Longrightarrow> n < n0 + 2 ^ b \<Longrightarrow> n ^ e \<le> x \<Longrightarrow> x < (n + 1) ^ e \<Longrightarrow> root_bits e x b n0 = n"
proof (induction b arbitrary: n0)
  case (Suc b)
  show ?case
  proof (cases "n0 + 2 ^ b \<le> n")
    case True
    then have "(n0 + 2 ^ b) ^ e \<le> x" using Suc.prems(3) power_mono [of "n0 + 2 ^ b" n e] by linarith
    then show ?thesis using Suc.IH [of "n0 + 2 ^ b"] Suc.prems True by simp
  next
    case False
    then have "x < (n0 + 2 ^ b) ^ e" using Suc.prems(4) power_mono [of "n + 1" "n0 + 2 ^ b" e] by linarith
    then show ?thesis using Suc.IH [of n0] Suc.prems False by simp
  qed
qed simp

definition is_root :: "nat \<Rightarrow> nat \<Rightarrow> nat \<Rightarrow> u32 \<Rightarrow> bool" where
  "is_root e p q k \<longleftrightarrow> q < 32 \<and> (q * 2 ^ 32 + unat k) ^ e \<le> p * 2 ^ (32 * e) \<and> p * 2 ^ (32 * e) < (q * 2 ^ 32 + unat k + 1) ^ e"

lemma root_fraction_eq: "is_root e p q k \<Longrightarrow> root_fraction e p = k"
proof -
  assume root: "is_root e p q k"
  have "unat k < 2 ^ 32" using unsigned_less [of k] by simp
  moreover from this have "root_bits e (p * 2 ^ (32 * e)) 37 0 = q * 2 ^ 32 + unat k"
    using root by (intro root_bits_eq) (auto simp: is_root_def)
  ultimately show ?thesis by (simp add: root_fraction_def)
qed

lemma root_fractions:
  "list_all (\<lambda>(p, q, k). is_root e p q k) triples \<Longrightarrow> map (root_fraction e \<circ> fst) triples = map (snd \<circ> snd) triples"
  by (auto simp: list_all_iff intro!: root_fraction_eq)

text \<open>The tables of the source are the roots of the primes.\<close>

lemma INITIAL_STATE_eq: "sha_H0 = INITIAL_STATE"
  using root_fractions [of 2 "zip (take 8 first_primes) (zip [1, 1, 2, 2, 3, 3, 4, 4] INITIAL_STATE)"]
  by (simp add: sha_H0_def INITIAL_STATE_def first_primes_def is_root_def)

lemma ROUND_CONSTANTS_eq: "sha_K = ROUND_CONSTANTS"
  using root_fractions [of 3 "zip first_primes (zip [1, 1, 1, 1, 2, 2, 2, 2, 2, 3, 3, 3, 3, 3, 3, 3, 3, 3,
      4, 4, 4, 4, 4, 4, 4, 4, 4, 4, 4, 4, 5, 5, 5, 5, 5, 5, 5, 5, 5, 5, 5, 5, 5, 5, 5, 5, 5,
      6, 6, 6, 6, 6, 6, 6, 6, 6, 6, 6, 6, 6, 6, 6, 6, 6] ROUND_CONSTANTS)"]
  by (simp add: sha_K_def ROUND_CONSTANTS_def first_primes_def is_root_def)

lemma lane_lift [simp]:
  "k < 8 \<Longrightarrow> lane k (lift2 f a b) = f (lane k a) (lane k b)"
  "k < 8 \<Longrightarrow> lane k (lift1 g a) = g (lane k a)"
  "k < 8 \<Longrightarrow> lane k (mm256_set1_epi32 w) = w"
  by (cases a; cases b; auto simp: nth_Cons' numeral_eq_Suc less_Suc_eq)+

lemma rotr_or:
  assumes "0 < n" "n < 32"
  shows "(drop_bit n w OR push_bit (32 - n) w :: u32) = word_rotr n w"
  using assms
  by (intro bit_word_eqI) (auto simp: bit_simps bit_word_rotr_iff mod_if add.commute [of n] dest: bit_imp_le_length)

lemmas rotr_ors [simp] =
  rotr_or [of 2, simplified]
  rotr_or [of 13, simplified]
  rotr_or [of 22, simplified]
  rotr_or [of 6, simplified]
  rotr_or [of 11, simplified]
  rotr_or [of 25, simplified]
  rotr_or [of 7, simplified]
  rotr_or [of 18, simplified]
  rotr_or [of 17, simplified]
  rotr_or [of 19, simplified]

lemma lane_functions [simp]:
  assumes "k < 8"
  shows "lane k (add2 a b) = lane k a + lane k b"
    and "lane k (add4 a b c d) = lane k a + lane k b + lane k c + lane k d"
    and "lane k (add5 a b c d e) = lane k a + lane k b + lane k c + lane k d + lane k e"
    and "lane k (choose_lanes a b c) = Ch (lane k a) (lane k b) (lane k c)"
    and "lane k (majority a b c) = Maj (lane k a) (lane k b) (lane k c)"
    and "lane k (big_sigma0 a) = Sigma0 (lane k a)" "lane k (big_sigma1 a) = Sigma1 (lane k a)"
    and "lane k (small_sigma0 a) = sigma0 (lane k a)" "lane k (small_sigma1 a) = sigma1 (lane k a)"
  using assms
  by (auto simp: add2_def add4_def add5_def choose_lanes_def majority_def big_sigma0_def big_sigma1_def small_sigma0_def
      small_sigma1_def Ch_def Maj_def Sigma0_def Sigma1_def sigma0_def sigma1_def bit_simps intro: bit_word_eqI)

fun lanes8 :: "nat \<Rightarrow> m256i eight \<Rightarrow> u32 eight" where
  "lanes8 k (a, b, c, d, e, f, g, h) =
     (lane k a, lane k b, lane k c, lane k d, lane k e, lane k f, lane k g, lane k h)"

lemma compress_round_lane:
  "k < 8 \<Longrightarrow> lanes8 k (compress_round c w s) = sha_round c (lane k w) (lanes8 k s)"
  by (cases s rule: eight_list.cases) (simp add: Let_def del: lane.simps)

lemma compress_rounds_lane:
  assumes "k < 8" "\<And>t. t \<in> set ts \<Longrightarrow> lane k (S ! t) = W ! t"
  shows "lanes8 k (fold (\<lambda>t. compress_round (C ! t) (S ! t)) ts s) = fold (\<lambda>t. sha_round (C ! t) (W ! t)) ts (lanes8 k s)"
  using assms(2) by (induction ts arbitrary: s) (simp_all add: compress_round_lane [OF assms(1)])

lemma eight_list_lanes: "eight_list (lanes8 k s) = map (lane k) (eight_list s)"
  by (cases s rule: eight_list.cases) simp

lemma list_eight_lanes: "length s = 8 \<Longrightarrow> lanes8 k (list_eight s) = list_eight (map (lane k) s)"
  by (simp add: list_eight_def)

lemma schedule_step_lane:
  assumes "k < 8" "map (lane k) S = W @ replicate (64 - n) 0" "length W = n" "16 \<le> n" "n < 64"
  shows "map (lane k) (S[n := add4 (small_sigma1 (S ! (n - 2))) (S ! (n - 7)) (small_sigma0 (S ! (n - 15))) (S ! (n - 16))]) =
    (W @ [sigma1 (W ! (n - 2)) + W ! (n - 7) + sigma0 (W ! (n - 15)) + W ! (n - 16)]) @ replicate (64 - Suc n) 0"
proof -
  have "length (map (lane k) S) = 64" unfolding assms(2) using assms(3,5) by simp
  then have "lane k (S ! i) = W ! i" if "i < n" for i
    using that assms(2,3,5) by (metis length_map nth_append nth_map order_less_trans)
  moreover have "64 - n = Suc (64 - Suc n)" using assms(5) by simp
  ultimately show ?thesis
    using assms(1,3,4) by (simp add: map_update assms(2) list_update_append del: lane.simps)
qed

text \<open>After every step the array holds the schedule so far, and zeros.\<close>

lemma expand_schedule_lane:
  assumes "k < 8" "length block = 16"
  shows "map (lane k) (expand_schedule block) = sha_schedule (map (lane k) block)"
proof -
  define v where "v = (\<lambda>index schedule. schedule[index := add4 (small_sigma1 (schedule ! (index - 2))) (schedule ! (index - 7))
         (small_sigma0 (schedule ! (index - 15))) (schedule ! (index - 16))])"
  define s where "s = (\<lambda>t W. W @ [sigma1 (W ! (t - 2)) + W ! (t - 7) + sigma0 (W ! (t - 15)) + W ! (t - 16)])"
  have "map (lane k) (fold v [16..<n] (block @ replicate 48 mm256_setzero_si256)) =
      fold s [16..<n] (map (lane k) block) @ replicate (64 - n) 0
    \<and> length (fold s [16..<n] (map (lane k) block)) = n" if "16 \<le> n" "n \<le> 64" for n
    using that
  proof (induction n rule: dec_induct)
    case base
    then show ?case using assms by (simp del: lane.simps)
  next
    case (step n)
    then have "map (lane k) (v n (fold v [16..<n] (block @ replicate 48 mm256_setzero_si256))) =
        s n (fold s [16..<n] (map (lane k) block)) @ replicate (64 - Suc n) 0"
      unfolding v_def s_def by (intro schedule_step_lane assms(1)) auto
    then show ?case using step by (simp add: s_def)
  qed
  from this [of 64] show ?thesis
    by (simp add: expand_schedule_def sha_schedule_def v_def s_def del: upt_rec_numeral)
qed

lemma length_sha_schedule: "length (sha_schedule M) = length M + 48"
proof -
  have "length (fold (\<lambda>t W. W @ [f t W]) ts M) = length M + length ts" for f :: "nat \<Rightarrow> u32 list \<Rightarrow> u32" and ts
    by (induction ts arbitrary: M) auto
  from this [of _ "[16..<64]"] show ?thesis by (simp add: sha_schedule_def del: upt_rec_numeral)
qed

lemma length_compress [simp]: "length state = 8 \<Longrightarrow> length (compress state block) = 8"
proof -
  have "length (eight_list s) = 8" for s :: "m256i eight" by (cases s rule: eight_list.cases) simp
  then show "length state = 8 \<Longrightarrow> length (compress state block) = 8" by (simp add: compress_def Let_def)
qed

lemma compress_lane:
  assumes "k < 8" "length state = 8" "length block = 16"
  shows "map (lane k) (compress state block) = sha_compress (map (lane k) state) (map (lane k) block)"
proof -
  let ?S = "expand_schedule block" and ?W = "sha_schedule (map (lane k) block)"
  have map: "map (lane k) ?S = ?W" by (rule expand_schedule_lane [OF assms(1,3)])
  have "length (map (lane k) ?S) = 64" unfolding map using assms(3) by (simp add: length_sha_schedule)
  then have "length ?S = 64" by simp
  then have word: "lane k (?S ! t) = ?W ! t" if "t \<in> set [0..<64]" for t
    using that map by (metis atLeastLessThan_iff nth_map set_upt)
  have map2: "map (lane k) (map2 add2 xs ys) = map2 (+) (map (lane k) xs) (map (lane k) ys)" for xs ys
    using assms(1) by (simp add: zip_map_map split_def del: lane.simps)
  have rounds: "lanes8 k (fold (\<lambda>t. compress_round (C ! t) (?S ! t)) [0..<64] s) =
      fold (\<lambda>t. sha_round (C ! t) (?W ! t)) [0..<64] (lanes8 k s)" for C s
    by (rule compress_rounds_lane [OF assms(1) word])
  have "map (lane k) (eight_list (fold (\<lambda>t. compress_round (ROUND_CONSTANTS ! t) (?S ! t)) [0..<64] (list_eight state))) =
      eight_list (fold (\<lambda>t. sha_round (sha_K ! t) (?W ! t)) [0..<64] (list_eight (map (lane k) state)))"
    unfolding eight_list_lanes [symmetric] rounds list_eight_lanes [OF assms(2)]
      ROUND_CONSTANTS_eq ..
  then show ?thesis
    unfolding compress_def sha_compress_def Let_def map2 by (rule arg_cong)
qed

section \<open>Padding\<close>

lemma u32_of_be_be [simp]: "u32_of_be (u32_be w) = w"
  by (simp add: u32_of_be_def u32_be_def)

lemma length_u32_be [simp]: "length (u32_be w) = 4"
  by (simp add: u32_be_def)

lemma be_words_Cons: "length b = 4 \<Longrightarrow> be_words (b @ bs) = u32_of_be b # be_words bs"
  by (auto simp: numeral_eq_Suc length_Suc_conv)

lemma be_words_be_bytes: "be_words (be_bytes ws @ bs) = ws @ be_words bs"
  by (induction ws) (simp_all add: be_bytes_def be_words_Cons)

lemma four_cases:
  assumes "length bs = 4 * Suc n"
  obtains b0 b1 b2 b3 r where "bs = b0 # b1 # b2 # b3 # r" "length r = 4 * n"
proof -
  have "length bs = Suc (Suc (Suc (Suc (4 * n))))" using assms by simp
  then show thesis using that by (auto simp: length_Suc_conv)
qed

lemma be_words_nth: "length m = 4 * n \<Longrightarrow> be_words m = map (\<lambda>word. read_word m (word * 4)) [0..<n]"
proof (induction n arbitrary: m)
  case (Suc n)
  obtain b0 b1 b2 b3 r where m: "m = b0 # b1 # b2 # b3 # r" "length r = 4 * n"
    using Suc.prems by (rule four_cases)
  have "[0..<Suc n] = 0 # map Suc [0..<n]" by (simp add: upt_conv_Cons map_Suc_upt del: upt_Suc)
  moreover have "read_word m (Suc word * 4) = read_word r (word * 4)" for word
    by (simp add: read_word_def m(1) numeral_eq_Suc)
  ultimately show ?case using Suc.IH [OF m(2)] m(1) by (simp add: read_word_def)
qed simp

lemma length_be_bytes: "length (be_bytes ws) = 4 * length ws"
  by (induction ws) (simp_all add: be_bytes_def)

lemma sha_blocks_Nil [simp]: "sha_blocks H [] = H"
  by (subst sha_blocks.simps) simp

lemma sha_blocks_step: "length b = 64 \<Longrightarrow> sha_blocks H (b @ bs) = sha_blocks (sha_compress H (be_words b)) bs"
  by (subst sha_blocks.simps) simp

abbreviation pad_64 :: "u32 list" where "pad_64 \<equiv> (replicate 16 0)[0 := 0x80000000, 15 := 512]"

abbreviation pad_32 :: "u32 list" where "pad_32 \<equiv> (replicate 8 0)[0 := 0x80000000, 7 := 256]"

lemma le_bytes_numeral:
  "le_bytes (numeral n) v = word_of_nat v # le_bytes (pred_numeral n) (v div 256)"
  by (subst numeral_eq_Suc) simp

lemma be_constants:
  "u32_be 0 = [0, 0, 0, 0]" "u32_be 0x80000000 = [0x80, 0, 0, 0]" "u32_be 512 = [0, 0, 2, 0]" "u32_be 256 = [0, 0, 1, 0]"
  "u64_le 512 = [0, 2, 0, 0, 0, 0, 0, 0]" "u64_le 256 = [0, 1, 0, 0, 0, 0, 0, 0]"
  by (simp_all add: u32_be_def u32_le_def u64_le_def le_bytes_numeral)

lemma sha_pads:
  "0x80 # replicate 55 0 @ rev (u64_le 512) = be_bytes pad_64"
  "0x80 # replicate 23 0 @ rev (u64_le 256) = be_bytes pad_32"
  by (simp_all add: be_bytes_def be_constants numeral_eq_Suc)

lemma sha256_64: "length m = 64 \<Longrightarrow> sha256 m = be_bytes (sha_compress (sha_compress sha_H0 (be_words m)) pad_64)"
proof -
  assume m: "length m = 64"
  then have "sha_pad m = m @ be_bytes pad_64" by (simp add: sha_pad_def flip: sha_pads)
  then show ?thesis
    using sha_blocks_step [OF m] sha_blocks_step [of "be_bytes pad_64" _ "[]"] be_words_be_bytes [of pad_64 "[]"]
    by (simp add: sha256_def length_be_bytes)
qed

lemma sha256_32: "length ws = 8 \<Longrightarrow> sha256 (be_bytes ws) = be_bytes (sha_compress sha_H0 (ws @ pad_32))"
proof -
  assume ws: "length ws = 8"
  have "be_bytes (ws @ pad_32) = be_bytes ws @ be_bytes pad_32" by (simp add: be_bytes_def)
  then have "sha_pad (be_bytes ws) = be_bytes (ws @ pad_32)"
    using ws by (simp add: sha_pad_def length_be_bytes flip: sha_pads)
  then show ?thesis
    using sha_blocks_step [of "be_bytes (ws @ pad_32)" sha_H0 "[]"] be_words_be_bytes [of "ws @ pad_32" "[]"] ws
    by (simp add: sha256_def length_be_bytes)
qed

lemma length_sha_compress [simp]: "length H = 8 \<Longrightarrow> length (sha_compress H M) = 8"
proof -
  have "length (eight_list s) = 8" for s :: "u32 eight" by (cases s rule: eight_list.cases) simp
  then show "length H = 8 \<Longrightarrow> length (sha_compress H M) = 8" by (simp add: sha_compress_def)
qed

lemma length_sha_blocks: "length H = 8 \<Longrightarrow> length (sha_blocks H bs) = 8"
proof (induction H bs rule: sha_blocks.induct)
  case (1 H bs)
  then show ?case by (subst sha_blocks.simps) simp
qed

lemma length_sha256 [simp]: "length (sha256 m) = 32"
  by (simp add: sha256_def length_be_bytes length_sha_blocks INITIAL_STATE_eq INITIAL_STATE_def)

lemma initial_lane: "k < 8 \<Longrightarrow> map (lane k) initial_state_8way = sha_H0"
  by (simp add: initial_state_8way_def INITIAL_STATE_eq o_def del: lane.simps)

text \<open>The vector code computes the double hash of each of its eight messages.\<close>

lemma transform_8way_eq:
  assumes "length input = 8" "list_all (\<lambda>m. length m = 64) input"
  shows "transform_8way input = map (\<lambda>m. sha256 (sha256 m)) input"
proof -
  define block where "block = map (\<lambda>word. let offset = word * 4 in
      M256 (read_word (input ! 0) offset) (read_word (input ! 1) offset) (read_word (input ! 2) offset)
        (read_word (input ! 3) offset) (read_word (input ! 4) offset) (read_word (input ! 5) offset)
        (read_word (input ! 6) offset) (read_word (input ! 7) offset)) [0..<16]"
  define pad where "pad = (replicate 16 mm256_setzero_si256)[0 := mm256_set1_epi32 0x80000000, 15 := mm256_set1_epi32 512]"
  define one where "one = compress (compress initial_state_8way block) pad"
  define block2 where "block2 = (one @ replicate 8 mm256_setzero_si256)[8 := mm256_set1_epi32 0x80000000, 15 := mm256_set1_epi32 256]"
  have len: "length initial_state_8way = 8" "length block = 16" "length pad = 16"
    by (simp_all add: initial_state_8way_def INITIAL_STATE_def block_def pad_def)
  then have len2: "length one = 8" "length block2 = 16" by (simp_all add: one_def block2_def)
  have "concat (map (\<lambda>value. u32_be (lane k value)) (compress initial_state_8way block2)) = sha256 (sha256 (input ! k))"
    if k: "k < 8" for k
  proof -
    have m: "length (input ! k) = 64" using assms k by (simp add: list_all_length)
    have "map (lane k) block = be_words (input ! k)"
      using k be_words_nth [of "input ! k" 16] m
      by (auto simp: block_def Let_def less_Suc_eq numeral_eq_Suc)
    moreover have "map (lane k) pad = pad_64" using k by (simp add: pad_def map_update del: lane.simps)
    ultimately have one: "map (lane k) one = sha_compress (sha_compress sha_H0 (be_words (input ! k))) pad_64"
      using k len by (simp add: one_def compress_lane initial_lane)
    have "map (lane k) block2 = map (lane k) one @ pad_32"
      using k len2 by (simp add: block2_def map_update list_update_append del: lane.simps)
    then have "map (lane k) (compress initial_state_8way block2) = sha_compress sha_H0 (map (lane k) one @ pad_32)"
      using k len len2 by (simp add: compress_lane initial_lane)
    moreover have "sha256 (input ! k) = be_bytes (map (lane k) one)" using sha256_64 [OF m] one by simp
    moreover have "concat (map (\<lambda>value. u32_be (lane k value)) vs) = be_bytes (map (lane k) vs)" for vs
      by (simp add: be_bytes_def o_def)
    ultimately show ?thesis
      using sha256_32 [of "map (lane k) one"] len2(1) by simp
  qed
  moreover have "transform_8way input = map (\<lambda>k. concat (map (\<lambda>value. u32_be (lane k value)) (compress initial_state_8way block2))) [0..<8]"
    unfolding transform_8way_def Let_def block2_def one_def block_def pad_def by simp
  ultimately have "transform_8way input = map (\<lambda>k. sha256 (sha256 (input ! k))) [0..<8]" by simp
  also have "\<dots> = map (\<lambda>m. sha256 (sha256 m)) input" using assms(1) by (intro nth_equalityI) auto
  finally show ?thesis .
qed

end
