(* ===== verification/Merkle.thy ===== *)
theory Merkle
  imports Tx Sha256
begin

text \<open>
  Merkle roots (\<open>src/crates/consensus/src/verify_block.rs\<close>): the streaming computation on a
  spine of subtree roots, the level-by-level one that the vector instructions use,
  and the root without mutation detection.  The pair hash is a parameter of the
  three loops; the code uses \<open>hash_merkle_pair\<close>.
\<close>

definition hash_merkle_pair :: "(bytes \<Rightarrow> bytes) \<Rightarrow> hash256 \<Rightarrow> hash256 \<Rightarrow> hash256" where
  "hash_merkle_pair sh left right = double_sha256 sh (left @ right)"

section \<open>The spine\<close>

text \<open>
  Adding a leaf: while the slot of the current height is taken, merge and go up.
  \<open>None\<close> is the index past the 64 slots.
\<close>

fun spine_add :: "('a \<Rightarrow> 'a \<Rightarrow> 'a) \<Rightarrow> 'a option list \<Rightarrow> 'a \<Rightarrow> bool \<Rightarrow> ('a option list \<times> bool) option" where
  "spine_add h [] current mutated = None"
| "spine_add h (None # slots) current mutated = Some (Some current # slots, mutated)"
| "spine_add h (Some left # slots) current mutated =
     map_option (\<lambda>(slots', mutated'). (None # slots', mutated'))
       (spine_add h slots (h left current) (mutated \<or> left = current))"

fun spine_add_all :: "('a \<Rightarrow> 'a \<Rightarrow> 'a) \<Rightarrow> 'a list \<Rightarrow> 'a option list \<Rightarrow> bool \<Rightarrow> ('a option list \<times> bool) option" where
  "spine_add_all h [] spine mutated = Some (spine, mutated)"
| "spine_add_all h (leaf # leaves) spine mutated =
     Option.bind (spine_add h spine leaf mutated) (\<lambda>(spine', mutated'). spine_add_all h leaves spine' mutated')"

text \<open>A node paired with itself until it is \<open>n\<close> levels higher.\<close>

fun raise_node :: "('a \<Rightarrow> 'a \<Rightarrow> 'a) \<Rightarrow> nat \<Rightarrow> 'a \<Rightarrow> 'a" where
  "raise_node h 0 right = right"
| "raise_node h (Suc n) right = raise_node h n (h right right)"

fun spine_fold :: "('a \<Rightarrow> 'a \<Rightarrow> 'a) \<Rightarrow> nat \<Rightarrow> 'a option list \<Rightarrow> ('a \<times> nat) option \<Rightarrow> bool \<Rightarrow> ('a \<times> nat) option \<times> bool" where
  "spine_fold h height [] carry mutated = (carry, mutated)"
| "spine_fold h height (None # slots) carry mutated = spine_fold h (Suc height) slots carry mutated"
| "spine_fold h height (Some node # slots) carry mutated = (case carry of
     None \<Rightarrow> spine_fold h (Suc height) slots (Some (node, height)) mutated
   | Some (accumulated, accumulated_height) \<Rightarrow>
       let right = raise_node h (height - accumulated_height) accumulated in
       spine_fold h (Suc height) slots (Some (h node right, height + 1)) (mutated \<or> node = right))"

definition merkle_root_spine :: "('a \<Rightarrow> 'a \<Rightarrow> 'a) \<Rightarrow> 'a list \<Rightarrow> ('a \<times> bool) option" where
  "merkle_root_spine h txids =
     (if txids = [] then None
      else Option.bind (spine_add_all h txids (replicate 64 None) False) (\<lambda>(spine, mutated).
        case spine_fold h 0 spine None mutated of
          (None, _) \<Rightarrow> None
        | (Some (root, _), mutated') \<Rightarrow> Some (root, mutated')))"

section \<open>Level by level\<close>

text \<open>
  The parents of a level are written over it from the left; an odd last node is paired with
  itself.  \<open>avx2\<close> is the vector code, when the processor has it: it hashes eight
  pairs at a time.
\<close>

abbreviation LANES :: nat where "LANES \<equiv> 8"
abbreviation AVX2_MERKLE_MIN_LEAVES :: nat where "AVX2_MERKLE_MIN_LEAVES \<equiv> LANES * 2"

type_synonym 'a lanes_hash = "(('a \<times> 'a) list \<Rightarrow> 'a list) option"

function hash_avx2_parent_batches ::
  "(('a \<times> 'a) list \<Rightarrow> 'a list) \<Rightarrow> nat \<Rightarrow> nat \<Rightarrow> 'a list \<Rightarrow> 'a list \<times> nat" where
  "hash_avx2_parent_batches avx2 pair_count idx level =
     (if idx + LANES \<le> pair_count then
        let input = map (\<lambda>lane. (level ! (2 * (idx + lane)), level ! (2 * (idx + lane) + 1))) [0..<LANES];
            output = avx2 input in
        hash_avx2_parent_batches avx2 pair_count (idx + LANES)
          (fold (\<lambda>lane level. level[idx + lane := output ! lane]) [0..<LANES] level)
      else (level, idx))"
  by pat_completeness auto

termination
  by (relation "measure (\<lambda>(_, pair_count, idx, _). pair_count - idx)") auto

declare hash_avx2_parent_batches.simps [simp del]

definition fold_parent_level :: "'a lanes_hash \<Rightarrow> ('a \<Rightarrow> 'a \<Rightarrow> 'a) \<Rightarrow> 'a list \<Rightarrow> 'a list" where
  "fold_parent_level avx2 h level =
     (let original_len = length level; new_len = (original_len + 1) div 2; pair_count = original_len div 2;
          (level, start) = (case avx2 of
            Some k \<Rightarrow> hash_avx2_parent_batches k pair_count 0 level | None \<Rightarrow> (level, 0)) in
      take new_len (fold (\<lambda>pos level.
          level[pos := h (level ! (2 * pos)) (level ! (min (2 * pos + 1) (original_len - 1)))])
        [start..<new_len] level))"

text \<open>Whether one of the full pairs of a level has equal members.\<close>

fun equal_pair :: "'a list \<Rightarrow> bool" where
  "equal_pair (x # y # rest) \<longleftrightarrow> x = y \<or> equal_pair rest"
| "equal_pair _ \<longleftrightarrow> False"

text \<open>The batches and the scalar loop write no node twice: lengths stay.\<close>

lemma length_fold_update: "length (fold (\<lambda>i l. l[f i l := g i l]) is l) = length l"
  by (induction "is" arbitrary: l) simp_all

lemma length_hash_avx2: "length (fst (hash_avx2_parent_batches k n idx level)) = length level"
proof (induction k n idx level rule: hash_avx2_parent_batches.induct)
  case (1 k n idx level)
  show ?case
    by (subst hash_avx2_parent_batches.simps) (simp add: Let_def 1 length_fold_update del: upt_rec_numeral)
qed

lemma length_fold_parent_level [simp]: "length (fold_parent_level avx2 h level) = (length level + 1) div 2"
proof (cases avx2)
  case (Some k)
  obtain l start where "hash_avx2_parent_batches k (length level div 2) 0 level = (l, start)" by force
  moreover from this have "length l = length level" using length_hash_avx2 [of k _ 0 level] by (metis fst_conv)
  ultimately show ?thesis using Some by (simp add: fold_parent_level_def Let_def length_fold_update)
qed (simp add: fold_parent_level_def Let_def length_fold_update)

function merkle_levels :: "'a lanes_hash \<Rightarrow> ('a \<Rightarrow> 'a \<Rightarrow> 'a) \<Rightarrow> 'a list \<Rightarrow> bool \<Rightarrow> 'a list \<times> bool" where
  "merkle_levels avx2 h hashes mutated =
     (if length hashes > 1 then merkle_levels avx2 h (fold_parent_level avx2 h hashes) (mutated \<or> equal_pair hashes)
      else (hashes, mutated))"
  by pat_completeness auto

termination
  by (relation "measure (\<lambda>(_, _, hashes, _). length hashes)") auto

declare merkle_levels.simps [simp del]

definition merkle_root_and_mutation :: "'a lanes_hash \<Rightarrow> ('a \<Rightarrow> 'a \<Rightarrow> 'a) \<Rightarrow> 'a list \<Rightarrow> ('a \<times> bool) option" where
  "merkle_root_and_mutation avx2 h hashes =
     (if hashes = [] then None
      else if length hashes = 1 then Some (hashes ! 0, False)
      else case merkle_levels avx2 h hashes False of (hashes', mutated) \<Rightarrow> Some (hashes' ! 0, mutated))"

definition merkle_root_and_mutation_borrowed :: "'a lanes_hash \<Rightarrow> ('a \<Rightarrow> 'a \<Rightarrow> 'a) \<Rightarrow> 'a list \<Rightarrow> ('a \<times> bool) option" where
  "merkle_root_and_mutation_borrowed avx2 h txids =
     (if length txids \<ge> AVX2_MERKLE_MIN_LEAVES \<and> avx2 \<noteq> None then merkle_root_and_mutation avx2 h txids
      else merkle_root_spine h txids)"

function bytes_levels :: "'a lanes_hash \<Rightarrow> ('a \<Rightarrow> 'a \<Rightarrow> 'a) \<Rightarrow> 'a list \<Rightarrow> 'a list" where
  "bytes_levels avx2 h leaves =
     (if length leaves > 1 then bytes_levels avx2 h (fold_parent_level avx2 h leaves) else leaves)"
  by pat_completeness auto

termination
  by (relation "measure (\<lambda>(_, _, leaves). length leaves)") auto

declare bytes_levels.simps [simp del]

definition compute_merkle_root :: "'a lanes_hash \<Rightarrow> ('a \<Rightarrow> 'a \<Rightarrow> 'a) \<Rightarrow> 'a list \<Rightarrow> 'a option" where
  "compute_merkle_root avx2 h leaves =
     (if leaves = [] then None
      else let avx2 = (if length leaves \<ge> AVX2_MERKLE_MIN_LEAVES then avx2 else None) in
           Some (bytes_levels avx2 h leaves ! 0))"

section \<open>Parents by recursion\<close>

fun parents :: "('a \<Rightarrow> 'a \<Rightarrow> 'a) \<Rightarrow> 'a list \<Rightarrow> 'a list" where
  "parents h [] = []"
| "parents h [x] = [h x x]"
| "parents h (x # y # rest) = h x y # parents h rest"

lemma parents_map:
  "parents h level = map (\<lambda>pos. h (level ! (2 * pos)) (level ! (min (2 * pos + 1) (length level - 1)))) [0..<(length level + 1) div 2]"
proof (induction h level rule: parents.induct)
  case (3 h x y rest)
  let ?l = "x # y # rest"
  have "[0..<(length ?l + 1) div 2] = 0 # map Suc [0..<(length rest + 1) div 2]"
    by (simp add: upt_conv_Cons map_Suc_upt del: upt_Suc)
  moreover have "h (?l ! (2 * Suc p)) (?l ! min (2 * Suc p + 1) (length ?l - 1)) =
      h (rest ! (2 * p)) (rest ! min (2 * p + 1) (length rest - 1))" if "p < (length rest + 1) div 2" for p
  proof -
    have "min (2 * Suc p + 1) (length ?l - 1) = Suc (Suc (min (2 * p + 1) (length rest - 1)))"
      using that by (cases rest) auto
    then show ?thesis by simp
  qed
  ultimately show ?case using 3 by (simp del: upt_Suc)
qed simp_all

text \<open>
  A kernel hashes every pair of a batch of proper nodes, and hashing keeps nodes proper.  A level
  is folded up to \<open>idx\<close> when the nodes below hold the parents and the rest is untouched.
\<close>

definition kernel_ok :: "('a \<Rightarrow> bool) \<Rightarrow> 'a lanes_hash \<Rightarrow> ('a \<Rightarrow> 'a \<Rightarrow> 'a) \<Rightarrow> bool" where
  "kernel_ok node avx2 h \<longleftrightarrow> (\<forall>a b. node a \<and> node b \<longrightarrow> node (h a b))
    \<and> (\<forall>k pairs. avx2 = Some k \<and> length pairs = LANES \<and> list_all (\<lambda>(a, b). node a \<and> node b) pairs
        \<longrightarrow> k pairs = map (case_prod h) pairs)"

lemma parents_node: "kernel_ok node avx2 h \<Longrightarrow> list_all node level \<Longrightarrow> list_all node (parents h level)"
  by (induction h level rule: parents.induct) (auto simp: kernel_ok_def)

definition folded_to :: "('a \<Rightarrow> 'a \<Rightarrow> 'a) \<Rightarrow> 'a list \<Rightarrow> nat \<Rightarrow> 'a list \<Rightarrow> bool" where
  "folded_to h level idx l \<longleftrightarrow> length l = length level \<and> idx \<le> (length level + 1) div 2
    \<and> (\<forall>i < idx. l ! i = parents h level ! i) \<and> (\<forall>i. idx \<le> i \<and> i < length level \<longrightarrow> l ! i = level ! i)"

lemma folded_to_step:
  assumes "folded_to h level pos l" "pos < (length level + 1) div 2"
  shows "folded_to h level (Suc pos) (l[pos := h (l ! (2 * pos)) (l ! (min (2 * pos + 1) (length level - 1)))])"
proof -
  have "pos \<le> min (2 * pos + 1) (length level - 1)" "min (2 * pos + 1) (length level - 1) < length level" "2 * pos < length level"
    using assms(2) by (auto simp: min_def)
  then have "l ! (2 * pos) = level ! (2 * pos)" "l ! (min (2 * pos + 1) (length level - 1)) = level ! (min (2 * pos + 1) (length level - 1))"
    using assms(1) unfolding folded_to_def by simp_all
  moreover have "parents h level ! pos = h (level ! (2 * pos)) (level ! (min (2 * pos + 1) (length level - 1)))"
    using assms(2) by (simp add: parents_map)
  ultimately show ?thesis
    using assms unfolding folded_to_def by (simp add: nth_list_update less_Suc_eq)
qed

lemma folded_to_fold:
  assumes "folded_to h level start l" "start \<le> n" "n \<le> (length level + 1) div 2"
  shows "folded_to h level n (fold (\<lambda>pos l. l[pos := h (l ! (2 * pos)) (l ! (min (2 * pos + 1) (length level - 1)))]) [start..<n] l)"
  using assms(2,3)
proof (induction n rule: dec_induct)
  case (step n)
  then have "folded_to h level n (fold (\<lambda>pos l. l[pos := h (l ! (2 * pos)) (l ! (min (2 * pos + 1) (length level - 1)))]) [start..<n] l)"
    by simp
  from folded_to_step [OF this] step show ?case by simp
qed (use assms(1) in simp)

lemma folded_to_batch:
  assumes "folded_to h level idx l" "idx + n \<le> length level div 2"
    and "\<And>i. i < n \<Longrightarrow> out ! i = h (l ! (2 * (idx + i))) (l ! (2 * (idx + i) + 1))"
  shows "folded_to h level (idx + n) (fold (\<lambda>lane l. l[idx + lane := out ! lane]) [0..<n] l)"
proof -
  have node: "out ! i = parents h level ! (idx + i)" if "i < n" for i
  proof -
    have "l ! (2 * (idx + i)) = level ! (2 * (idx + i))" "l ! (2 * (idx + i) + 1) = level ! (2 * (idx + i) + 1)"
      using assms(1,2) that by (auto simp: folded_to_def)
    moreover have "min (2 * (idx + i) + 1) (length level - 1) = 2 * (idx + i) + 1" using assms(2) that by simp
    ultimately show ?thesis using assms(2) assms(3) [OF that] that by (simp add: parents_map)
  qed
  have "m \<le> n \<Longrightarrow> folded_to h level (idx + m) (fold (\<lambda>lane l. l[idx + lane := out ! lane]) [0..<m] l)" for m
  proof (induction m)
    case (Suc m)
    then show ?case using node [of m] assms(2) by (auto simp: folded_to_def nth_list_update less_Suc_eq)
  qed (use assms(1) in simp)
  then show ?thesis by simp
qed

lemma folded_to_batches:
  assumes "kernel_ok node (Some k) h" "list_all node level"
  shows "folded_to h level idx l \<Longrightarrow> hash_avx2_parent_batches k (length level div 2) idx l = (l', start) \<Longrightarrow>
    folded_to h level start l'"
proof (induction "length level - idx" arbitrary: idx l rule: less_induct)
  case less
  define input where "input = map (\<lambda>lane. (l ! (2 * (idx + lane)), l ! (2 * (idx + lane) + 1))) [0..<LANES]"
  note run = less.prems(2) [unfolded hash_avx2_parent_batches.simps [of k "length level div 2" idx l] Let_def,
      folded input_def]
  show ?case
  proof (cases "idx + LANES \<le> length level div 2")
    case True
    have "l ! i = level ! i" if "idx \<le> i" "i < length level" for i
      using less.prems(1) that by (simp add: folded_to_def)
    then have "list_all (\<lambda>(a, b). node a \<and> node b) input"
      using assms(2) True by (auto simp: input_def list_all_iff simp del: upt_rec_numeral)
    then have "k input = map (case_prod h) input" using assms(1) by (simp add: kernel_ok_def input_def)
    then have "k input ! i = h (l ! (2 * (idx + i))) (l ! (2 * (idx + i) + 1))" if "i < LANES" for i
      using that by (simp add: input_def del: upt_rec_numeral)
    then have "folded_to h level (idx + LANES) (fold (\<lambda>lane l. l[idx + lane := k input ! lane]) [0..<LANES] l)"
      by (rule folded_to_batch [OF less.prems(1) True])
    moreover have "length level - (idx + LANES) < length level - idx" using True by simp
    ultimately show ?thesis
      using less.hyps run True by (simp del: upt_rec_numeral)
  qed (use run less.prems(1) in simp)
qed

lemma parents_eq:
  assumes "kernel_ok node avx2 h" "list_all node level"
  shows "fold_parent_level avx2 h level = parents h level"
proof -
  let ?n = "(length level + 1) div 2"
  have 0: "folded_to h level 0 level" by (simp add: folded_to_def)
  obtain l start where s: "(case avx2 of Some k \<Rightarrow> hash_avx2_parent_batches k (length level div 2) 0 level | None \<Rightarrow> (level, 0)) = (l, start)"
    by force
  then have to: "folded_to h level start l"
    using 0 folded_to_batches [of node _ h] assms by (auto split: option.splits)
  then have "start \<le> ?n" by (simp add: folded_to_def)
  from folded_to_fold [OF to this] have "folded_to h level ?n (fold (\<lambda>pos l. l[pos := h (l ! (2 * pos)) (l ! (min (2 * pos + 1) (length level - 1)))]) [start..<?n] l)"
    by simp
  then have "take ?n (fold (\<lambda>pos l. l[pos := h (l ! (2 * pos)) (l ! (min (2 * pos + 1) (length level - 1)))]) [start..<?n] l) = parents h level"
    by (intro nth_equalityI) (auto simp: folded_to_def parents_map)
  then show ?thesis by (simp add: fold_parent_level_def Let_def s)
qed

lemma length_parents [simp]: "length (parents h xs) = (length xs + 1) div 2"
  by (simp add: parents_map)

lemma parents_append: "even (length xs) \<Longrightarrow> parents h (xs @ ys) = parents h xs @ parents h ys"
  by (induction h xs rule: parents.induct) auto

lemma equal_pair_append: "even (length xs) \<Longrightarrow> equal_pair (xs @ ys) \<longleftrightarrow> equal_pair xs \<or> equal_pair ys"
  by (induction xs rule: equal_pair.induct) auto

lemma parents_Nil_iff [simp]: "parents h xs = [] \<longleftrightarrow> xs = []"
  by (induction h xs rule: parents.induct) auto

text \<open>Root and mutation flag of a level list, as the recursion that the level loop performs.\<close>

function levels :: "('a \<Rightarrow> 'a \<Rightarrow> 'a) \<Rightarrow> 'a list \<Rightarrow> bool \<Rightarrow> 'a list \<times> bool" where
  "levels h hashes mutated =
     (if length hashes > 1 then levels h (parents h hashes) (mutated \<or> equal_pair hashes) else (hashes, mutated))"
  by pat_completeness auto

termination
  by (relation "measure (\<lambda>(_, hashes, _). length hashes)") auto

declare levels.simps [simp del]

lemma levels_step: "length xs > 1 \<Longrightarrow> levels h xs m = levels h (parents h xs) (m \<or> equal_pair xs)"
  by (subst levels.simps) simp

lemma levels_single [simp]: "levels h [x] m = ([x], m)"
  by (simp add: levels.simps)

lemma levels_flag: "levels h xs m = (fst (levels h xs False), m \<or> snd (levels h xs False))"
proof (induction "length xs" arbitrary: xs m rule: less_induct)
  case less
  show ?case
  proof (cases "length xs > 1")
    case True
    note step = levels_step [OF True, of h]
    have "length (parents h xs) < length xs" using True by simp
    from less [OF this, of "m \<or> equal_pair xs"] less [OF this, of "equal_pair xs"] show ?thesis
      by (simp add: step [of m] step [of False])
  qed (simp add: levels.simps)
qed

lemma merkle_levels_eq: "kernel_ok node avx2 h \<Longrightarrow> list_all node xs \<Longrightarrow> merkle_levels avx2 h xs m = levels h xs m"
proof (induction h xs m rule: levels.induct)
  case (1 h xs m)
  then show ?case
    by (subst merkle_levels.simps, subst levels.simps) (simp add: parents_eq parents_node)
qed

lemma bytes_levels_eq: "kernel_ok node avx2 h \<Longrightarrow> list_all node xs \<Longrightarrow> bytes_levels avx2 h xs = fst (levels h xs m)"
proof (induction h xs m rule: levels.induct)
  case (1 h xs m)
  then show ?case
    by (subst bytes_levels.simps, subst levels.simps) (simp add: parents_eq parents_node)
qed

abbreviation lw_root :: "('a \<Rightarrow> 'a \<Rightarrow> 'a) \<Rightarrow> 'a list \<Rightarrow> 'a" where
  "lw_root h xs \<equiv> fst (levels h xs False) ! 0"

abbreviation lw_mut :: "('a \<Rightarrow> 'a \<Rightarrow> 'a) \<Rightarrow> 'a list \<Rightarrow> bool" where
  "lw_mut h xs \<equiv> snd (levels h xs False)"

lemma lw_step:
  assumes "length xs > 1"
  shows "lw_root h xs = lw_root h (parents h xs)" "lw_mut h xs \<longleftrightarrow> equal_pair xs \<or> lw_mut h (parents h xs)"
  using levels_step [OF assms, of h False] levels_flag [of h "parents h xs" "equal_pair xs"] by simp_all

section \<open>What a spine stands for\<close>

text \<open>The slots hold the last node of each level whose number of full nodes is odd.\<close>

fun spine_rep :: "('a \<Rightarrow> 'a \<Rightarrow> 'a) \<Rightarrow> 'a option list \<Rightarrow> 'a list \<Rightarrow> bool" where
  "spine_rep h [] xs \<longleftrightarrow> xs = []"
| "spine_rep h (None # slots) xs \<longleftrightarrow> even (length xs) \<and> spine_rep h slots (parents h xs)"
| "spine_rep h (Some x # slots) xs \<longleftrightarrow>
     (\<exists>ys. xs = ys @ [x] \<and> even (length ys) \<and> spine_rep h slots (parents h ys))"

text \<open>Whether some full pair on one of \<open>n\<close> levels has equal members.\<close>

fun full_mut :: "('a \<Rightarrow> 'a \<Rightarrow> 'a) \<Rightarrow> nat \<Rightarrow> 'a list \<Rightarrow> bool" where
  "full_mut h 0 xs \<longleftrightarrow> False"
| "full_mut h (Suc n) xs \<longleftrightarrow>
     equal_pair xs \<or> full_mut h n (parents h (if even (length xs) then xs else butlast xs))"

lemma equal_pair_snoc: "even (length ys) \<Longrightarrow> equal_pair (ys @ [x]) \<longleftrightarrow> equal_pair ys"
  by (simp add: equal_pair_append)

lemma full_mut_snoc: "full_mut h n xs \<Longrightarrow> full_mut h n (xs @ [c])"
proof (induction n arbitrary: xs c)
  case (Suc n)
  show ?case
  proof (cases "even (length xs)")
    case False
    then obtain ys l where ys: "xs = ys @ [l]" "even (length ys)" by (cases xs rule: rev_cases) auto
    then have "parents h (ys @ [l, c]) = parents h ys @ [h l c]" by (simp add: parents_append)
    then show ?thesis using Suc ys by (auto simp: equal_pair_append equal_pair_snoc)
  qed (use Suc in \<open>auto simp: equal_pair_snoc\<close>)
qed simp

lemma spine_add_rep:
  assumes "spine_rep h slots xs" "spine_add h slots c m = Some (slots', m')"
  shows "spine_rep h slots' (xs @ [c]) \<and> length slots' = length slots \<and> (m \<longrightarrow> m')
    \<and> (m' \<or> full_mut h (length slots) xs \<longleftrightarrow> m \<or> full_mut h (length slots) (xs @ [c]))"
  using assms
proof (induction h slots c m arbitrary: xs slots' m' rule: spine_add.induct)
  case (2 h slots c m)
  then show ?case by (auto simp: equal_pair_snoc)
next
  case (3 h l slots c m)
  from "3.prems"(1) obtain ys where ys: "xs = ys @ [l]" "even (length ys)" "spine_rep h slots (parents h ys)" by auto
  from "3.prems"(2) obtain s1 where s1: "spine_add h slots (h l c) (m \<or> l = c) = Some (s1, m')" "slots' = None # s1"
    by auto
  have p: "parents h (ys @ [l, c]) = parents h ys @ [h l c]" using ys(2) by (simp add: parents_append)
  from "3.IH" [OF ys(3) s1(1)] show ?case
    using ys s1(2) p by (auto simp: equal_pair_append equal_pair_snoc)
qed auto

lemma spine_add_all_rep:
  assumes "spine_rep h slots xs" "spine_add_all h ys slots m = Some (slots', m')"
    and "m \<longleftrightarrow> full_mut h (length slots) xs"
  shows "spine_rep h slots' (xs @ ys) \<and> length slots' = length slots \<and> (m' \<longleftrightarrow> full_mut h (length slots) (xs @ ys))"
  using assms
proof (induction ys arbitrary: slots xs m)
  case (Cons y ys)
  then obtain s1 m1 where s1: "spine_add h slots y m = Some (s1, m1)" "spine_add_all h ys s1 m1 = Some (slots', m')"
    by (auto split: bind_splits)
  note a = spine_add_rep [OF Cons.prems(1) s1(1)]
  then have "m1 \<longleftrightarrow> full_mut h (length s1) (xs @ [y])"
    using Cons.prems(3) full_mut_snoc by metis
  from Cons.IH [OF _ s1(2) this] a show ?case by simp
qed simp

text \<open>The slots are enough for fewer than \<open>2 ^ n\<close> leaves.\<close>

lemma spine_add_room:
  assumes "spine_rep h slots xs" "length xs + 1 < 2 ^ length slots"
  shows "spine_add h slots c m \<noteq> None"
  using assms
proof (induction h slots c m arbitrary: xs rule: spine_add.induct)
  case (3 h l slots c m)
  then obtain ys where ys: "xs = ys @ [l]" "even (length ys)" "spine_rep h slots (parents h ys)" by auto
  then have "length (parents h ys) + 1 < 2 ^ length slots" using "3.prems"(2) by auto
  from "3.IH" [OF ys(3) this] show ?case by auto
qed auto

lemma spine_add_all_room:
  assumes "spine_rep h slots xs" "length xs + length ys < 2 ^ length slots"
  shows "spine_add_all h ys slots m \<noteq> None"
  using assms
proof (induction ys arbitrary: slots xs m)
  case (Cons y ys)
  then obtain s1 m1 where s1: "spine_add h slots y m = Some (s1, m1)"
    using spine_add_room [OF Cons.prems(1), of y m] by auto
  from spine_add_rep [OF Cons.prems(1) s1] Cons.IH [of s1 "xs @ [y]" m1] Cons.prems(2) s1 show ?case by auto
qed simp

lemma spine_rep_empty: "spine_rep h (replicate n None) []"
  by (induction n) simp_all

lemma spine_rep_Nil: "spine_rep h slots [] \<Longrightarrow> spine_fold h k slots carry m = (carry, m)"
proof (induction slots arbitrary: k)
  case (Cons slot slots)
  then show ?case by (cases slot) auto
qed simp

lemma raise_node_Suc: "raise_node h (Suc n) x = h (raise_node h n x) (raise_node h n x)"
  by (induction n arbitrary: x) simp_all

text \<open>The node that the carry contributes to the level of a given height.\<close>

fun carried :: "('a \<Rightarrow> 'a \<Rightarrow> 'a) \<Rightarrow> nat \<Rightarrow> ('a \<times> nat) option \<Rightarrow> 'a list" where
  "carried h k None = []"
| "carried h k (Some (x, j)) = [raise_node h (k - j) x]"

definition carry_below :: "nat \<Rightarrow> ('a \<times> nat) option \<Rightarrow> bool" where
  "carry_below k carry = (case carry of None \<Rightarrow> True | Some (_, j) \<Rightarrow> j \<le> k)"

lemma carried_Suc: "carry_below k carry \<Longrightarrow> parents h (carried h k carry) = carried h (Suc k) carry"
  by (auto simp: carry_below_def Suc_diff_le raise_node_Suc simp del: raise_node.simps(2) split: option.splits)

lemma full_mut_Nil [simp]: "\<not> full_mut h n []"
  by (induction n) auto

lemma spine_fold_levels:
  assumes "spine_rep h slots zs" "carry_below k carry" "zs \<noteq> []"
  shows "\<exists>root j m'. spine_fold h k slots carry m = (Some (root, j), m') \<and> (m \<longrightarrow> m')
    \<and> root = lw_root h (zs @ carried h k carry)
    \<and> (m' \<or> full_mut h (length slots) zs \<longleftrightarrow> m \<or> lw_mut h (zs @ carried h k carry))"
  using assms
proof (induction slots arbitrary: k zs carry m)
  case (Cons slot slots)
  let ?e = "carried h k carry"
  have e: "?e = [] \<or> length ?e = 1" "\<not> equal_pair ?e" by (cases carry; auto)+
  show ?case
  proof (cases slot)
    case None
    then have zs: "even (length zs)" "spine_rep h slots (parents h zs)" using Cons.prems(1) by auto
    have "length zs \<noteq> 1" using zs(1) by auto
    then have len: "length (zs @ ?e) > 1" using Cons.prems(3) by (cases zs) auto
    have next_level: "parents h (zs @ ?e) = parents h zs @ carried h (Suc k) carry"
      using zs(1) Cons.prems(2) by (simp add: parents_append carried_Suc)
    have "carry_below (Suc k) carry" using Cons.prems(2) by (auto simp: carry_below_def split: option.splits)
    from Cons.IH [OF zs(2) this, of m] Cons.prems(3) show ?thesis
      using None zs(1) e(2) lw_step [OF len, of h] by (auto simp: next_level equal_pair_append)
  next
    case (Some x)
    then obtain ys where ys: "zs = ys @ [x]" "even (length ys)" "spine_rep h slots (parents h ys)" using Cons.prems(1) by auto
    define c where "c = (case carry of None \<Rightarrow> (x, k) | Some (a, j) \<Rightarrow> (h x (raise_node h (k - j) a), k + 1))"
    define hit where "hit = (case carry of None \<Rightarrow> False | Some (a, j) \<Rightarrow> x = raise_node h (k - j) a)"
    have run: "spine_fold h k (slot # slots) carry m = spine_fold h (Suc k) slots (Some c) (m \<or> hit)"
      using Some by (auto simp: c_def hit_def Let_def split: option.split)
    have up: "parents h (x # ?e) = carried h (Suc k) (Some c)" and eq: "equal_pair (x # ?e) \<longleftrightarrow> hit"
      by (auto simp: c_def hit_def split: option.split)
    have next_level: "parents h (zs @ ?e) = parents h ys @ carried h (Suc k) (Some c)"
      using ys(1,2) up by (simp add: parents_append)
    show ?thesis
    proof (cases "ys = []")
      case True
      have "lw_root h (x # ?e) = fst c \<and> (lw_mut h (x # ?e) \<longleftrightarrow> hit)"
        using lw_step [of "x # ?e" h] by (auto simp: c_def hit_def split: option.split)
      then show ?thesis
        using True run ys spine_rep_Nil [of h slots "Suc k" "Some c" "m \<or> hit"] by (cases c) auto
    next
      case False
      then have len: "length (zs @ ?e) > 1" using ys(1) by (cases ys) auto
      have "carry_below (Suc k) (Some c)" by (auto simp: carry_below_def c_def split: option.split)
      from Cons.IH [OF ys(3) this, of "m \<or> hit"] False obtain root j m' where
        ih: "spine_fold h (Suc k) slots (Some c) (m \<or> hit) = (Some (root, j), m')" "m \<or> hit \<longrightarrow> m'"
          "root = lw_root h (parents h ys @ carried h (Suc k) (Some c))"
          "m' \<or> full_mut h (length slots) (parents h ys) \<longleftrightarrow> (m \<or> hit) \<or> lw_mut h (parents h ys @ carried h (Suc k) (Some c))"
        by auto
      have "equal_pair (zs @ ?e) \<longleftrightarrow> equal_pair ys \<or> hit"
        using ys(1,2) eq by (simp add: equal_pair_append)
      then have "lw_root h (zs @ ?e) = root" "lw_mut h (zs @ ?e) \<longleftrightarrow>
          (equal_pair ys \<or> hit) \<or> lw_mut h (parents h ys @ carried h (Suc k) (Some c))"
        using lw_step [OF len, of h] unfolding next_level ih(3) by simp_all
      moreover have "full_mut h (length (slot # slots)) zs \<longleftrightarrow> equal_pair ys \<or> full_mut h (length slots) (parents h ys)"
        using ys(1,2) by (simp add: equal_pair_snoc)
      ultimately show ?thesis using ih(1,2,4) unfolding run by blast
    qed
  qed
qed simp

text \<open>The root of a tree, and whether one of its levels has two equal siblings.\<close>

definition tree_root :: "('a \<Rightarrow> 'a \<Rightarrow> 'a) \<Rightarrow> 'a list \<Rightarrow> ('a \<times> bool) option" where
  "tree_root h xs = (if xs = [] then None else Some (lw_root h xs, lw_mut h xs))"

text \<open>The streaming computation and the level-by-level computations all give it.\<close>

lemma merkle_root_spine_eq:
  assumes "length txids < 2 ^ 64"
  shows "merkle_root_spine h txids = tree_root h txids"
proof (cases "txids = []")
  case False
  have rep0: "spine_rep h (replicate 64 None) []" by (rule spine_rep_empty)
  obtain spine m where add: "spine_add_all h txids (replicate 64 None) False = Some (spine, m)"
    using spine_add_all_room [OF rep0, of txids False] assms by auto
  have rep: "spine_rep h spine txids" "m \<longleftrightarrow> full_mut h 64 txids" "length spine = 64"
    using spine_add_all_rep [OF rep0 add] by auto
  obtain root j m' where f: "spine_fold h 0 spine None m = (Some (root, j), m')" "m \<longrightarrow> m'"
      "root = lw_root h txids" "m' \<or> full_mut h 64 txids \<longleftrightarrow> m \<or> lw_mut h txids"
    using spine_fold_levels [OF rep(1), of 0 None m] False rep(3) by (auto simp: carry_below_def)
  have "m \<longrightarrow> lw_mut h txids"
    using spine_fold_levels [OF rep(1), of 0 None False] False rep(2,3) by (auto simp: carry_below_def)
  then have "merkle_root_spine h txids = Some (lw_root h txids, lw_mut h txids)"
    using False add f rep(2) by (auto simp: merkle_root_spine_def)
  then show ?thesis using False by (simp add: tree_root_def)
qed (simp add: merkle_root_spine_def tree_root_def)

lemma merkle_root_and_mutation_eq: "kernel_ok node avx2 h \<Longrightarrow> list_all node xs \<Longrightarrow> merkle_root_and_mutation avx2 h xs = tree_root h xs"
  by (cases "length xs = 1")
    (auto simp: merkle_root_and_mutation_def tree_root_def merkle_levels_eq length_Suc_conv split: prod.split)

lemma merkle_root_borrowed_eq:
  "kernel_ok node avx2 h \<Longrightarrow> list_all node txids \<Longrightarrow> length txids < 2 ^ 64 \<Longrightarrow> merkle_root_and_mutation_borrowed avx2 h txids = tree_root h txids"
  by (simp add: merkle_root_and_mutation_borrowed_def merkle_root_spine_eq merkle_root_and_mutation_eq)

lemma kernel_ok_None: "kernel_ok node avx2 h \<Longrightarrow> kernel_ok node None h"
  by (simp add: kernel_ok_def)

lemma compute_merkle_root_eq: "kernel_ok node avx2 h \<Longrightarrow> list_all node xs \<Longrightarrow> compute_merkle_root avx2 h xs = map_option fst (tree_root h xs)"
  by (auto simp: compute_merkle_root_def tree_root_def Let_def bytes_levels_eq [where m = False]
      bytes_levels_eq [OF kernel_ok_None, where m = False])

text \<open>The vector code of \<open>Sha256\<close> is such a kernel for 32-byte nodes.\<close>

abbreviation hash_node :: "hash256 \<Rightarrow> bool" where "hash_node bs \<equiv> length bs = 32"

definition avx2_pairs :: "(hash256 \<times> hash256) list \<Rightarrow> hash256 list" where
  "avx2_pairs pairs = transform_8way (map (\<lambda>(left, right). left @ right) pairs)"

lemma avx2_kernel_ok: "kernel_ok hash_node (Some avx2_pairs) (hash_merkle_pair sha256)"
proof -
  have "avx2_pairs pairs = map (case_prod (hash_merkle_pair sha256)) pairs"
    if "length pairs = LANES" "list_all (\<lambda>(a, b). hash_node a \<and> hash_node b) pairs" for pairs
  proof -
    have "list_all (\<lambda>m. length m = 64) (map (\<lambda>(left, right). left @ right) pairs)"
      using that(2) by (auto simp: list_all_iff)
    from transform_8way_eq [OF _ this] show ?thesis
      using that(1) by (auto simp: avx2_pairs_def hash_merkle_pair_def double_sha256_def)
  qed
  then show ?thesis by (auto simp: kernel_ok_def hash_merkle_pair_def double_sha256_def)
qed

section \<open>What a root commits to\<close>

fun level_pairs :: "'a list \<Rightarrow> ('a \<times> 'a) list" where
  "level_pairs [] = []"
| "level_pairs [x] = [(x, x)]"
| "level_pairs (x # y # rest) = (x, y) # level_pairs rest"

lemma parents_pairs: "parents h xs = map (case_prod h) (level_pairs xs)"
  by (induction h xs rule: parents.induct) simp_all

text \<open>Every pair hashed on the way to the root.\<close>

function hashed_pairs :: "('a \<Rightarrow> 'a \<Rightarrow> 'a) \<Rightarrow> 'a list \<Rightarrow> ('a \<times> 'a) list" where
  "hashed_pairs h xs = (if length xs > 1 then level_pairs xs @ hashed_pairs h (parents h xs) else [])"
  by pat_completeness auto

termination
  by (relation "measure (\<lambda>(_, xs). length xs)") auto

declare hashed_pairs.simps [simp del]

text \<open>The number of levels above \<open>n\<close> leaves.\<close>

fun tree_depth :: "nat \<Rightarrow> nat" where
  "tree_depth n = (if n \<le> 1 then 0 else Suc (tree_depth ((n + 1) div 2)))"

declare tree_depth.simps [simp del]

lemma tree_depth_step: "n > 1 \<Longrightarrow> tree_depth n = Suc (tree_depth ((n + 1) div 2))"
  by (subst tree_depth.simps) simp

lemma tree_depth_0: "tree_depth n = 0 \<longleftrightarrow> n \<le> 1"
  by (subst tree_depth.simps) simp

lemma level_pairs_unique:
  "level_pairs xs = level_pairs ys \<Longrightarrow> \<not> equal_pair xs \<Longrightarrow> \<not> equal_pair ys \<Longrightarrow> xs = ys"
proof (induction xs arbitrary: ys rule: level_pairs.induct)
  case (1 ys)
  then show ?case by (cases ys rule: level_pairs.cases) auto
next
  case (2 x ys)
  then show ?case by (cases ys rule: level_pairs.cases) (auto elim: level_pairs.elims)
next
  case (3 x y rest ys)
  then show ?case by (cases ys rule: level_pairs.cases) (auto elim: level_pairs.elims)
qed

lemma merkle_root_unique:
  assumes "lw_root h xs = lw_root h ys" "\<not> lw_mut h xs" "\<not> lw_mut h ys" "xs \<noteq> []" "ys \<noteq> []"
    and "tree_depth (length xs) = tree_depth (length ys)"
    and "inj_on (case_prod h) (set (hashed_pairs h xs) \<union> set (hashed_pairs h ys))"
  shows "xs = ys"
  using assms
proof (induction "tree_depth (length xs)" arbitrary: xs ys)
  case 0
  then have "length xs \<le> 1" "length ys \<le> 1" by (metis tree_depth_0)+
  then obtain x y where "xs = [x]" "ys = [y]" using "0.prems"(4,5) by (cases xs; cases ys) auto
  then show ?case using "0.prems"(1) by simp
next
  case (Suc d)
  then have len: "length xs > 1" "length ys > 1" by (metis not_le tree_depth_0 nat.distinct(1))+
  have inj: "inj_on (case_prod h) (set (level_pairs xs @ hashed_pairs h (parents h xs))
      \<union> set (level_pairs ys @ hashed_pairs h (parents h ys)))"
    using Suc.prems(7) len by (simp add: hashed_pairs.simps [of h xs] hashed_pairs.simps [of h ys])
  have "parents h xs = parents h ys"
  proof (rule Suc.hyps(1))
    show "d = tree_depth (length (parents h xs))"
      using Suc.hyps(2) len(1) by (simp add: tree_depth_step)
    show "tree_depth (length (parents h xs)) = tree_depth (length (parents h ys))"
      using Suc.prems(6) len by (simp add: tree_depth_step)
    show "inj_on (case_prod h) (set (hashed_pairs h (parents h xs)) \<union> set (hashed_pairs h (parents h ys)))"
      by (rule inj_on_subset [OF inj]) auto
  qed (use Suc.prems lw_step [OF len(1), of h] lw_step [OF len(2), of h] in auto)
  then have "level_pairs xs = level_pairs ys"
    unfolding parents_pairs by (rule map_inj_on) (rule inj_on_subset [OF inj], auto)
  then show ?case
    using level_pairs_unique Suc.prems(2,3) lw_step [OF len(1), of h] lw_step [OF len(2), of h] by auto
qed

text \<open>With equally many leaves the root alone determines them.\<close>

lemma level_pairs_inj: "level_pairs xs = level_pairs ys \<Longrightarrow> length xs = length ys \<Longrightarrow> xs = ys"
proof (induction xs arbitrary: ys rule: level_pairs.induct)
  case (1 ys)
  then show ?case by simp
next
  case (2 x ys)
  then show ?case by (cases ys rule: level_pairs.cases) auto
next
  case (3 x y rest ys)
  then show ?case by (cases ys rule: level_pairs.cases) auto
qed

lemma merkle_root_inj:
  assumes "lw_root h xs = lw_root h ys" "length xs = length ys" "xs \<noteq> []"
    and "inj_on (case_prod h) (set (hashed_pairs h xs) \<union> set (hashed_pairs h ys))"
  shows "xs = ys"
  using assms
proof (induction "length xs" arbitrary: xs ys rule: less_induct)
  case less
  show ?case
  proof (cases "length xs > 1")
    case True
    then have len: "length ys > 1" using less.prems(2) by simp
    have inj: "inj_on (case_prod h) (set (level_pairs xs @ hashed_pairs h (parents h xs))
        \<union> set (level_pairs ys @ hashed_pairs h (parents h ys)))"
      using less.prems(4) True len by (simp add: hashed_pairs.simps [of h xs] hashed_pairs.simps [of h ys])
    have "parents h xs = parents h ys"
    proof (rule less.hyps)
      show "length (parents h xs) < length xs" using True by simp
      show "lw_root h (parents h xs) = lw_root h (parents h ys)"
        using less.prems(1) lw_step(1) [OF True, of h] lw_step(1) [OF len, of h] by simp
      show "inj_on (case_prod h) (set (hashed_pairs h (parents h xs)) \<union> set (hashed_pairs h (parents h ys)))"
        by (rule inj_on_subset [OF inj]) auto
    qed (use less.prems(2,3) in simp_all)
    then have "level_pairs xs = level_pairs ys"
      unfolding parents_pairs by (rule map_inj_on) (rule inj_on_subset [OF inj], auto)
    then show ?thesis by (rule level_pairs_inj [OF _ less.prems(2)])
  next
    case False
    then obtain x y where "xs = [x]" "ys = [y]" using less.prems(2,3) by (cases xs; cases ys) auto
    then show ?thesis using less.prems(1) by simp
  qed
qed

lemma hashed_pairs_node:
  "(\<And>a b. node a \<Longrightarrow> node b \<Longrightarrow> node (h a b)) \<Longrightarrow> list_all node xs \<Longrightarrow> p \<in> set (hashed_pairs h xs) \<Longrightarrow> node (fst p) \<and> node (snd p)"
proof (induction h xs rule: hashed_pairs.induct)
  case (1 h xs)
  have level: "q \<in> set (level_pairs ys) \<Longrightarrow> list_all node ys \<Longrightarrow> node (fst q) \<and> node (snd q)" for q ys
    by (induction ys rule: level_pairs.induct) auto
  have "list_all node (parents h xs)"
    using 1(2,3) by (intro parents_node [of node None]) (auto simp: kernel_ok_def)
  then show ?case
    using 1 level [OF _ 1(3), of p] by (auto simp: hashed_pairs.simps [of h xs] split: if_splits)
qed

end
