(* ===== verification/Block_View.thy ===== *)
theory Block_View
  imports Merkle
begin

text \<open>
  What block validation computes once per block (\<open>src/crates/consensus/src/block_view.rs\<close>): identifiers,
  weight, Merkle root and whether any input carries a witness, and the view that
  pairs them with the transactions and their resolved previous outputs.
  \<open>sh\<close> is SHA-256 and \<open>avx2\<close> the vector code, when the processor has it.
\<close>

record BlockFacts =
  facts_txids :: "hash256 list"
  facts_wtxids :: "hash256 list option"
  facts_has_witness :: bool
  facts_weight :: nat
  facts_merkle_root :: "hash256 option"
  facts_merkle_mutated :: bool

abbreviation HEADER_LEN :: nat where "HEADER_LEN \<equiv> 80"

definition decoded_block_weight :: "Tx list \<Rightarrow> nat" where
  "decoded_block_weight txs =
     (let count_len = encoded_len (length txs);
          (stripped, total) = foldl (\<lambda>(stripped, total) tx.
              (sat_add64 stripped (tx_base_size tx), sat_add64 total (tx_consensus_size tx)))
            (sat_add64 HEADER_LEN count_len, sat_add64 HEADER_LEN count_len) txs in
      sat_add64 (sat_mul64 stripped 3) total)"

definition facts_merkle :: "hash256 lanes_hash \<Rightarrow> (bytes \<Rightarrow> bytes) \<Rightarrow> hash256 list \<Rightarrow> hash256 option \<times> bool" where
  "facts_merkle avx2 sh txids = (case merkle_root_and_mutation_borrowed avx2 (hash_merkle_pair sh) txids of
     None \<Rightarrow> (None, False) | Some (root, mutated) \<Rightarrow> (Some root, mutated))"

definition from_txids :: "hash256 lanes_hash \<Rightarrow> (bytes \<Rightarrow> bytes) \<Rightarrow> Tx list \<Rightarrow> hash256 list \<Rightarrow> BlockFacts" where
  "from_txids avx2 sh txs txids =
     (case facts_merkle avx2 sh txids of (merkle_root, merkle_mutated) \<Rightarrow>
       \<lparr> facts_txids = txids, facts_wtxids = None, facts_has_witness = list_ex has_witness txs,
         facts_weight = decoded_block_weight txs, facts_merkle_root = merkle_root,
         facts_merkle_mutated = merkle_mutated \<rparr>)"

definition tx_count :: "BlockFacts \<Rightarrow> nat" where
  "tx_count facts = length (facts_txids facts)"

definition or_insert_wtxids_from :: "(bytes \<Rightarrow> bytes) \<Rightarrow> Tx list \<Rightarrow> BlockFacts \<Rightarrow> BlockFacts" where
  "or_insert_wtxids_from sh txs facts = (case facts_wtxids facts of
     Some _ \<Rightarrow> facts
   | None \<Rightarrow> facts\<lparr>facts_wtxids := Some (map (\<lambda>(index, tx).
         case get_at (facts_txids facts) index of
           Some tx_id \<Rightarrow> if has_witness tx then wtxid sh tx else tx_id
         | None \<Rightarrow> wtxid sh tx) (enumerate 0 txs))\<rparr>)"

record BlockView =
  view_txs :: "Tx list"
  view_facts :: BlockFacts
  view_resolved :: "TxOut option list list"

definition from_facts :: "Tx list \<Rightarrow> BlockFacts \<Rightarrow> BlockView" where
  "from_facts txs facts = \<lparr> view_txs = txs, view_facts = facts, view_resolved = [] \<rparr>"

definition witness_ids :: "(bytes \<Rightarrow> bytes) \<Rightarrow> BlockView \<Rightarrow> hash256 list \<times> BlockView" where
  "witness_ids sh view =
     (let view = view\<lparr>view_facts := or_insert_wtxids_from sh (view_txs view) (view_facts view)\<rparr> in
      (case facts_wtxids (view_facts view) of Some ids \<Rightarrow> ids | None \<Rightarrow> [], view))"

definition set_resolved :: "TxOut option list list \<Rightarrow> BlockView \<Rightarrow> BlockView" where
  "set_resolved resolved view = view\<lparr>view_resolved := resolved\<rparr>"

section \<open>The facts are what they stand for\<close>

lemma wtxid_no_witness: "\<not> has_witness tx \<Longrightarrow> wtxid sh tx = txid sh tx"
  by (simp add: wtxid_def txid_def encode_tx_def)

lemma foldl_sizes:
  "foldl (\<lambda>(s, t) tx. (sat_add64 s (f tx), sat_add64 t (g tx))) (min u64_max a, min u64_max b) txs =
    (min u64_max (a + (\<Sum>tx\<leftarrow>txs. f tx)), min u64_max (b + (\<Sum>tx\<leftarrow>txs. g tx)))"
  by (induction txs arbitrary: a b) (simp_all add: sat_add_min_left add.assoc)

text \<open>The witness identifiers filled in from the facts are those of the transactions.\<close>

lemma or_insert_wtxids_eq:
  assumes "facts_wtxids facts = None" "facts_txids facts = map (txid sh) txs"
  shows "facts_wtxids (or_insert_wtxids_from sh txs facts) = Some (map (wtxid sh) txs)"
proof -
  have "(\<lambda>(index, tx). case get_at (map (txid sh) txs) index of
         Some tx_id \<Rightarrow> if has_witness tx then wtxid sh tx else tx_id | None \<Rightarrow> wtxid sh tx) e = wtxid sh (snd e)"
    if "e \<in> set (enumerate 0 txs)" for e
    using that by (auto simp: in_set_enumerate_eq get_at_def wtxid_no_witness split: prod.split)
  then have "map (\<lambda>(index, tx). case get_at (map (txid sh) txs) index of
         Some tx_id \<Rightarrow> if has_witness tx then wtxid sh tx else tx_id | None \<Rightarrow> wtxid sh tx) (enumerate 0 txs) =
      map (wtxid sh) (map snd (enumerate 0 txs))"
    by (simp only: map_map o_def) (rule map_cong [OF refl], simp)
  then show ?thesis
    using assms by (simp add: or_insert_wtxids_from_def)
qed

end
