(* ===== verification/Layout.thy ===== *)
theory Layout
  imports Tx
begin

text \<open>
  Decoding of transactions and blocks (\<open>src/crates/primitives/src\<close>: \<open>layout.rs\<close>, and the readers
  of \<open>encode.rs\<close>).  A parse records where each field lies in the image it was given
  and \<open>materialize\<close> copies the fields out.  An image is a byte slice, a cursor is
  a position in it.  Where the source says \<open>unreachable!\<close> the model has \<open>None\<close>.
  The lemmas show that parsing and encoding are inverse to each other, so a
  transaction or block has one encoding only, that \<open>None\<close> is never reached, and that
  the identifier and the size read off the image are those of the decoded value.
\<close>

section \<open>Readers\<close>

datatype DecodeError =
    EndOfData nat nat
  | DecodeVarint VarintError
  | InvalidSegwitFlag byte
  | SuperfluousWitness
  | TrailingBytes nat

type_synonym 'a reader = "bytes \<Rightarrow> DecodeError + 'a \<times> bytes"

definition take_bytes :: "nat \<Rightarrow> bytes reader" where
  "take_bytes needed reader =
     (if length reader < needed then Inl (EndOfData needed (length reader))
      else Inr (take needed reader, drop needed reader))"

definition read_u32_le :: "u32 reader" where
  "read_u32_le reader = bindE (take_bytes 4 reader) (\<lambda>(bs, reader). Inr (u32_of_le bs, reader))"

definition read_u64_le :: "u64 reader" where
  "read_u64_le reader = bindE (take_bytes 8 reader) (\<lambda>(bs, reader). Inr (u64_of_le bs, reader))"

definition reader_compact :: "nat reader" where
  "reader_compact reader =
     bindE (map_err DecodeVarint (varint_decode reader)) (\<lambda>(value, consumed). Inr (value, drop consumed reader))"

definition read_script :: "bytes reader" where
  "read_script reader = bindE (reader_compact reader) (\<lambda>(len, reader). take_bytes len reader)"

definition decode_outpoint :: "OutPoint reader" where
  "decode_outpoint reader =
     bindE (take_bytes 32 reader) (\<lambda>(txid, reader).
     bindE (read_u32_le reader) (\<lambda>(vout, reader).
     Inr (\<lparr> op_txid = txid, op_vout = vout \<rparr>, reader)))"

definition decode_header :: "Header reader" where
  "decode_header reader = bindE (take_bytes 80 reader) (\<lambda>(bs, reader). Inr (header_from_bytes bs, reader))"

definition decode_txout :: "TxOut reader" where
  "decode_txout reader =
     bindE (read_u64_le reader) (\<lambda>(value, reader).
     bindE (read_script reader) (\<lambda>(script_pubkey, reader).
     Inr (\<lparr> out_value = value, out_script_pubkey = script_pubkey \<rparr>, reader)))"

definition decode_txin :: "TxIn reader" where
  "decode_txin reader =
     bindE (decode_outpoint reader) (\<lambda>(previous_output, reader).
     bindE (read_script reader) (\<lambda>(script_sig, reader).
     bindE (read_u32_le reader) (\<lambda>(sequence, reader).
     Inr (\<lparr> in_prevout = previous_output, in_script_sig = script_sig, in_sequence = sequence, in_witness = [] \<rparr>,
          reader))))"

definition deserialize :: "'a reader \<Rightarrow> bytes \<Rightarrow> DecodeError + 'a" where
  "deserialize decode bs =
     bindE (decode bs) (\<lambda>(value, reader).
     if length reader \<noteq> 0 then Inl (TrailingBytes (length reader)) else Inr value)"

section \<open>Spans and the cursor\<close>

abbreviation MIN_TX_LEN :: nat where "MIN_TX_LEN \<equiv> 10"
abbreviation MIN_INPUT_LEN :: nat where "MIN_INPUT_LEN \<equiv> 41"
abbreviation MIN_OUTPUT_LEN :: nat where "MIN_OUTPUT_LEN \<equiv> 9"
abbreviation MIN_WITNESS_ITEM_LEN :: nat where "MIN_WITNESS_ITEM_LEN \<equiv> 1"
abbreviation OUTPOINT_LEN :: nat where "OUTPOINT_LEN \<equiv> 36"

record ByteSpan =
  span_start :: nat
  span_len :: nat

definition EMPTY_SPAN :: ByteSpan where
  "EMPTY_SPAN = \<lparr> span_start = 0, span_len = 0 \<rparr>"

definition span_end :: "ByteSpan \<Rightarrow> nat" where
  "span_end s = span_start s + span_len s"

definition impossible :: "nat \<Rightarrow> DecodeError" where
  "impossible available = EndOfData u64_max available"

definition checked_span :: "nat \<Rightarrow> nat \<Rightarrow> nat \<Rightarrow> DecodeError + ByteSpan" where
  "checked_span start len limit =
     (let available = limit - start in
      if start + len > u64_max then Inl (impossible available)
      else let end = start + len in
        if end > limit then Inl (EndOfData (end - limit) available)
        else if start > u32_max \<or> len > u32_max then Inl (impossible available)
        else Inr \<lparr> span_start = start, span_len = len \<rparr>)"

text \<open>A cursor operation takes the image and the position and gives its result and the new position.\<close>

type_synonym 'a cursor = "bytes \<Rightarrow> nat \<Rightarrow> DecodeError + 'a \<times> nat"

definition cursor_take :: "nat \<Rightarrow> ByteSpan cursor" where
  "cursor_take len img pos =
     bindE (checked_span pos len (length img)) (\<lambda>span. Inr (span, span_end span))"

definition read_u8 :: "(byte \<times> ByteSpan) cursor" where
  "read_u8 img pos =
     bindE (cursor_take 1 img pos) (\<lambda>(span, pos'). Inr ((img ! span_start span, span), pos'))"

definition read_compact :: "(nat \<times> ByteSpan) cursor" where
  "read_compact img pos =
     bindE (map_err DecodeVarint (varint_decode (drop pos img))) (\<lambda>(value, consumed).
     bindE (checked_span pos consumed (length img)) (\<lambda>span. Inr ((value, span), span_end span)))"

definition require_count :: "bytes \<Rightarrow> nat \<Rightarrow> nat \<Rightarrow> nat \<Rightarrow> DecodeError + unit" where
  "require_count img pos count min_item_len =
     (let min_needed = sat_mul64 min_item_len count; remaining = length img - pos in
      if min_needed > remaining then Inl (EndOfData (min_needed - remaining) remaining) else Inr ())"

definition slice_at :: "bytes \<Rightarrow> ByteSpan \<Rightarrow> bytes option" where
  "slice_at img span = get_range img (span_start span) (span_end span)"

section \<open>Transactions\<close>

record InputLayout =
  il_outpoint :: ByteSpan
  il_script_sig :: ByteSpan
  il_sequence :: ByteSpan
  il_witness :: ByteSpan
  il_witness_items :: nat

record OutputLayout =
  ol_value :: ByteSpan
  ol_script_pubkey :: ByteSpan

record ParsedTransaction =
  pt_bytes :: bytes
  pt_span :: ByteSpan
  pt_version_span :: ByteSpan
  pt_input_count_span :: ByteSpan
  pt_output_count_span :: ByteSpan
  pt_lock_time_span :: ByteSpan
  pt_segwit :: bool
  pt_inputs :: "InputLayout list"
  pt_outputs :: "OutputLayout list"

definition parse_input :: "InputLayout cursor" where
  "parse_input img pos =
     bindE (cursor_take OUTPOINT_LEN img pos) (\<lambda>(outpoint, pos).
     bindE (read_compact img pos) (\<lambda>((script_len, _), pos).
     bindE (cursor_take script_len img pos) (\<lambda>(script_sig, pos).
     bindE (cursor_take 4 img pos) (\<lambda>(sequence, pos).
     Inr (\<lparr> il_outpoint = outpoint, il_script_sig = script_sig, il_sequence = sequence,
            il_witness = EMPTY_SPAN, il_witness_items = 0 \<rparr>, pos)))))"

definition parse_output :: "OutputLayout cursor" where
  "parse_output img pos =
     bindE (cursor_take 8 img pos) (\<lambda>(value, pos).
     bindE (read_compact img pos) (\<lambda>((script_len, _), pos).
     bindE (cursor_take script_len img pos) (\<lambda>(script_pubkey, pos).
     Inr (\<lparr> ol_value = value, ol_script_pubkey = script_pubkey \<rparr>, pos))))"

definition parse_item :: "ByteSpan cursor" where
  "parse_item img pos =
     bindE (read_compact img pos) (\<lambda>((item_len, _), pos). cursor_take item_len img pos)"

text \<open>The loops \<open>for _ in 0..count\<close> that push what each round reads.\<close>

fun repeat_cursor :: "'a cursor \<Rightarrow> nat \<Rightarrow> 'a list cursor" where
  "repeat_cursor p 0 img pos = Inr ([], pos)"
| "repeat_cursor p (Suc n) img pos =
     bindE (p img pos) (\<lambda>(x, pos).
     bindE (repeat_cursor p n img pos) (\<lambda>(xs, pos). Inr (x # xs, pos)))"

definition parse_witness :: "InputLayout \<Rightarrow> InputLayout cursor" where
  "parse_witness input img pos =
     bindE (read_compact img pos) (\<lambda>((item_count, _), pos).
     bindE (require_count img pos item_count MIN_WITNESS_ITEM_LEN) (\<lambda>_.
     bindE (repeat_cursor parse_item item_count img pos) (\<lambda>(_, pos').
     bindE (checked_span pos (pos' - pos) (length img)) (\<lambda>region.
     if item_count > u32_max then Inl (impossible 0)
     else Inr (input\<lparr>il_witness := region, il_witness_items := item_count\<rparr>, pos')))))"

fun parse_witnesses :: "InputLayout list \<Rightarrow> InputLayout list cursor" where
  "parse_witnesses [] img pos = Inr ([], pos)"
| "parse_witnesses (input # inputs) img pos =
     bindE (parse_witness input img pos) (\<lambda>(input, pos).
     bindE (parse_witnesses inputs img pos) (\<lambda>(inputs, pos). Inr (input # inputs, pos)))"

text \<open>The input count, with the marker and flag of BIP 144: count, its span, the output count already read, and whether the flag was there.\<close>

definition parse_input_count :: "(nat \<times> ByteSpan \<times> (nat \<times> ByteSpan) option \<times> bool) cursor" where
  "parse_input_count img pos =
     bindE (read_compact img pos) (\<lambda>((count, span), pos).
     if count = 0 then
       bindE (read_u8 img pos) (\<lambda>((flag, flag_span), pos).
       if flag = 0 then Inr ((count, span, Some (0, flag_span), False), pos)
       else if flag = 0x01 then
         bindE (read_compact img pos) (\<lambda>((count, span), pos). Inr ((count, span, None, True), pos))
       else Inl (InvalidSegwitFlag flag))
     else Inr ((count, span, None, False), pos))"

definition parse_output_count :: "(nat \<times> ByteSpan) option \<Rightarrow> (nat \<times> ByteSpan) cursor" where
  "parse_output_count output_count_override img pos = (case output_count_override of
     Some pair \<Rightarrow> Inr (pair, pos) | None \<Rightarrow> read_compact img pos)"

definition parse_tx_at :: "ParsedTransaction cursor" where
  "parse_tx_at img tx_start =
     bindE (cursor_take 4 img tx_start) (\<lambda>(version_span, pos).
     bindE (parse_input_count img pos) (\<lambda>((input_count, input_count_span, output_count_override, segwit), pos).
     bindE (require_count img pos input_count MIN_INPUT_LEN) (\<lambda>_.
     bindE (repeat_cursor parse_input input_count img pos) (\<lambda>(inputs, pos).
     bindE (parse_output_count output_count_override img pos) (\<lambda>((output_count, output_count_span), pos).
     bindE (require_count img pos output_count MIN_OUTPUT_LEN) (\<lambda>_.
     bindE (repeat_cursor parse_output output_count img pos) (\<lambda>(outputs, pos).
     bindE (if segwit then
              bindE (parse_witnesses inputs img pos) (\<lambda>(inputs, pos).
              if list_all (\<lambda>input. il_witness_items input = 0) inputs then Inl SuperfluousWitness
              else Inr (inputs, pos))
            else Inr (inputs, pos)) (\<lambda>(inputs, pos).
     bindE (cursor_take 4 img pos) (\<lambda>(lock_time_span, pos).
     bindE (checked_span tx_start (pos - tx_start) (length img)) (\<lambda>span.
     Inr (\<lparr> pt_bytes = img, pt_span = span, pt_version_span = version_span,
            pt_input_count_span = input_count_span, pt_output_count_span = output_count_span,
            pt_lock_time_span = lock_time_span, pt_segwit = segwit, pt_inputs = inputs, pt_outputs = outputs \<rparr>,
          pos)))))))))))"

definition parse_tx :: "ParsedTransaction reader" where
  "parse_tx reader = bindE (parse_tx_at reader 0) (\<lambda>(parsed, consumed). Inr (parsed, drop consumed reader))"

definition parse_exact :: "'a cursor \<Rightarrow> bytes \<Rightarrow> DecodeError + 'a" where
  "parse_exact p bs =
     bindE (p bs 0) (\<lambda>(parsed, consumed).
     if consumed \<noteq> length bs then Inl (TrailingBytes (length bs - consumed)) else Inr parsed)"

definition ok :: "'e + 'a \<Rightarrow> 'a option" where
  "ok r = (case r of Inl _ \<Rightarrow> None | Inr x \<Rightarrow> Some x)"

definition witness_item_spans :: "ParsedTransaction \<Rightarrow> nat \<Rightarrow> ByteSpan list option" where
  "witness_item_spans p input =
     (let (region, items) = (case get_at (pt_inputs p) input of
          None \<Rightarrow> (EMPTY_SPAN, 0) | Some layout \<Rightarrow> (il_witness layout, il_witness_items layout)) in
      map_option fst (ok (repeat_cursor parse_item items (pt_bytes p) (span_start region))))"

definition materialize_witness :: "ParsedTransaction \<Rightarrow> nat \<Rightarrow> bytes list option" where
  "materialize_witness p input =
     Option.bind (witness_item_spans p input) (\<lambda>spans. those (map (slice_at (pt_bytes p)) spans))"

definition materialize_input :: "ParsedTransaction \<Rightarrow> nat \<times> InputLayout \<Rightarrow> TxIn option" where
  "materialize_input p entry = (case entry of (index, layout) \<Rightarrow>
     Option.bind (slice_at (pt_bytes p) (il_outpoint layout)) (\<lambda>outpoint_reader.
     Option.bind (ok (take_bytes 32 outpoint_reader)) (\<lambda>(txid, outpoint_reader).
     Option.bind (ok (read_u32_le outpoint_reader)) (\<lambda>(vout, _).
     Option.bind (slice_at (pt_bytes p) (il_sequence layout)) (\<lambda>sequence_reader.
     Option.bind (slice_at (pt_bytes p) (il_script_sig layout)) (\<lambda>script_sig.
     Option.bind (ok (read_u32_le sequence_reader)) (\<lambda>(sequence, _).
     Option.bind (materialize_witness p index) (\<lambda>witness.
     Some \<lparr> in_prevout = \<lparr> op_txid = txid, op_vout = vout \<rparr>, in_script_sig = script_sig,
            in_sequence = sequence, in_witness = witness \<rparr>))))))))"

definition materialize_output :: "ParsedTransaction \<Rightarrow> OutputLayout \<Rightarrow> TxOut option" where
  "materialize_output p layout =
     Option.bind (slice_at (pt_bytes p) (ol_value layout)) (\<lambda>value_reader.
     Option.bind (ok (read_u64_le value_reader)) (\<lambda>(value, _).
     Option.bind (slice_at (pt_bytes p) (ol_script_pubkey layout)) (\<lambda>script_pubkey.
     Some \<lparr> out_value = value, out_script_pubkey = script_pubkey \<rparr>)))"

definition materialize :: "ParsedTransaction \<Rightarrow> Tx option" where
  "materialize p =
     Option.bind (slice_at (pt_bytes p) (pt_version_span p)) (\<lambda>version_reader.
     Option.bind (ok (read_u32_le version_reader)) (\<lambda>(version, _).
     Option.bind (slice_at (pt_bytes p) (pt_lock_time_span p)) (\<lambda>lock_time_reader.
     Option.bind (ok (read_u32_le lock_time_reader)) (\<lambda>(lock_time, _).
     Option.bind (those (map (materialize_input p) (enumerate 0 (pt_inputs p)))) (\<lambda>inputs.
     Option.bind (those (map (materialize_output p) (pt_outputs p))) (\<lambda>outputs.
     Some \<lparr> tx_version = version, tx_inputs = inputs, tx_outputs = outputs, tx_lock_time = lock_time \<rparr>))))))"

definition segwit_base_body :: "ParsedTransaction \<Rightarrow> bytes" where
  "segwit_base_body p =
     (let body_end = (case last_opt (pt_outputs p) of
          None \<Rightarrow> span_end (pt_output_count_span p) | Some output \<Rightarrow> span_end (ol_script_pubkey output)) in
      case get_range (pt_bytes p) (span_start (pt_input_count_span p)) body_end of None \<Rightarrow> [] | Some body \<Rightarrow> body)"

definition stripped_parts :: "ParsedTransaction \<Rightarrow> bytes list option" where
  "stripped_parts p =
     (if \<not> pt_segwit p then map_option (\<lambda>whole. [whole, [], []]) (slice_at (pt_bytes p) (pt_span p))
      else Option.bind (slice_at (pt_bytes p) (pt_version_span p)) (\<lambda>version.
        Option.bind (slice_at (pt_bytes p) (pt_lock_time_span p)) (\<lambda>lock_time.
        Some [version, segwit_base_body p, lock_time])))"

definition parsed_txid :: "(bytes \<Rightarrow> bytes) \<Rightarrow> ParsedTransaction \<Rightarrow> hash256 option" where
  "parsed_txid sh p =
     (if \<not> pt_segwit p then map_option (double_sha256 sh) (slice_at (pt_bytes p) (pt_span p))
      else Option.bind (slice_at (pt_bytes p) (pt_version_span p)) (\<lambda>version.
        Option.bind (slice_at (pt_bytes p) (pt_lock_time_span p)) (\<lambda>lock_time.
        Some (double_sha256 sh (version @ segwit_base_body p @ lock_time)))))"

definition base_size :: "ParsedTransaction \<Rightarrow> nat option" where
  "base_size p =
     (if \<not> pt_segwit p then Some (span_len (pt_span p))
      else Option.bind (slice_at (pt_bytes p) (pt_version_span p)) (\<lambda>version.
        Option.bind (slice_at (pt_bytes p) (pt_lock_time_span p)) (\<lambda>lock_time.
        Some (length version + length (segwit_base_body p) + length lock_time))))"

section \<open>Blocks\<close>

record ParsedBlock =
  pb_bytes :: bytes
  pb_header_span :: ByteSpan
  pb_tx_count_span :: ByteSpan
  pb_tx_spans :: "ByteSpan list"
  pb_txs :: "ParsedTransaction list"
  pb_consumed :: nat

definition parse_block_at :: "ParsedBlock cursor" where
  "parse_block_at img pos =
     bindE (cursor_take 80 img pos) (\<lambda>(header_span, pos).
     bindE (read_compact img pos) (\<lambda>((tx_count, tx_count_span), pos).
     bindE (require_count img pos tx_count MIN_TX_LEN) (\<lambda>_.
     bindE (repeat_cursor parse_tx_at tx_count img pos) (\<lambda>(txs, pos).
     Inr (\<lparr> pb_bytes = img, pb_header_span = header_span, pb_tx_count_span = tx_count_span,
            pb_tx_spans = map pt_span txs, pb_txs = txs, pb_consumed = pos \<rparr>, pos)))))"

definition parse_block :: "ParsedBlock reader" where
  "parse_block reader = bindE (parse_block_at reader 0) (\<lambda>(parsed, consumed). Inr (parsed, drop consumed reader))"

definition materialize_block :: "ParsedBlock \<Rightarrow> Block option" where
  "materialize_block p =
     Option.bind (slice_at (pb_bytes p) (pb_header_span p)) (\<lambda>header_reader.
     Option.bind (ok (decode_header header_reader)) (\<lambda>(header, _).
     Option.bind (those (map materialize (pb_txs p))) (\<lambda>txs.
     Some \<lparr> b_header = header, b_txs = txs \<rparr>)))"

definition decode_tx :: "Tx option reader" where
  "decode_tx reader = bindE (parse_tx reader) (\<lambda>(parsed, reader). Inr (materialize parsed, reader))"

definition decode_block :: "Block option reader" where
  "decode_block reader = bindE (parse_block reader) (\<lambda>(parsed, reader). Inr (materialize_block parsed, reader))"

section \<open>Encodings inside an image\<close>

definition at_pos :: "bytes \<Rightarrow> nat \<Rightarrow> bytes \<Rightarrow> bool" where
  "at_pos img pos e \<longleftrightarrow> pos + length e \<le> length img \<and> take (length e) (drop pos img) = e"

abbreviation span_at :: "nat \<Rightarrow> bytes \<Rightarrow> ByteSpan" where
  "span_at pos e \<equiv> \<lparr> span_start = pos, span_len = length e \<rparr>"

named_theorems at_simps \<open>encodings inside an image\<close>

lemma at_append [at_simps]: "at_pos img pos (a @ b) \<longleftrightarrow> at_pos img pos a \<and> at_pos img (pos + length a) b"
proof -
  have "take (length a + length b) (drop pos img) = take (length a) (drop pos img) @ take (length b) (drop (pos + length a) img)"
    by (simp add: take_add add.commute)
  then show ?thesis
    unfolding at_pos_def by (auto simp: append_eq_append_conv)
qed

lemma at_Nil [at_simps]: "at_pos img pos [] \<longleftrightarrow> pos \<le> length img"
  by (simp add: at_pos_def)

lemma at_whole: "at_pos img 0 e \<Longrightarrow> length e = length img \<Longrightarrow> e = img"
  by (simp add: at_pos_def)

lemma at_bound: "at_pos img pos e \<Longrightarrow> pos + length e \<le> length img"
  by (simp add: at_pos_def)

lemma at_take: "pos + n \<le> length img \<Longrightarrow> at_pos img pos (take n (drop pos img))"
  by (simp add: at_pos_def)

lemma slice_at_span: "at_pos img pos e \<Longrightarrow> slice_at img (span_at pos e) = Some e"
  by (simp add: slice_at_def span_end_def get_range_def at_pos_def)

lemma range_at: "at_pos img pos e \<Longrightarrow> get_range img pos (pos + length e) = Some e"
  by (simp add: get_range_def at_pos_def)

lemma slice_atD: "slice_at img s = Some e \<Longrightarrow> span_start s + length e = span_end s"
  by (auto simp: slice_at_def span_end_def get_range_def split: if_splits)

lemma checked_span_Inr:
  "checked_span start len limit = Inr s \<longleftrightarrow> start + len \<le> limit \<and> start + len \<le> u64_max \<and> start \<le> u32_max \<and> len \<le> u32_max
    \<and> s = \<lparr> span_start = start, span_len = len \<rparr>"
  by (auto simp: checked_span_def Let_def)

lemma u32_le_u64_max: "n \<le> u32_max \<Longrightarrow> n \<le> u64_max"
  by (simp add: u32_max_def u64_max_def)

lemma cursor_take_sound:
  assumes "cursor_take len img pos = Inr (s, pos')"
  obtains e where "at_pos img pos e" "length e = len" "s = span_at pos e" "pos' = pos + length e"
  using assms at_take [of pos len img] by (auto simp: cursor_take_def checked_span_Inr span_end_def)

lemma cursor_take_at:
  "at_pos img pos e \<Longrightarrow> length img \<le> u32_max \<Longrightarrow> n = length e \<Longrightarrow> cursor_take n img pos = Inr (span_at pos e, pos + length e)"
  using at_bound [of img pos e]
  by (auto simp: cursor_take_def checked_span_Inr span_end_def intro!: exI u32_le_u64_max)

lemma read_compact_sound:
  assumes "read_compact img pos = Inr ((v, s), pos')"
  shows "v < 2 ^ 64 \<and> at_pos img pos (write_compact v) \<and> s = span_at pos (write_compact v) \<and> pos' = pos + length (write_compact v)"
proof -
  obtain n where n: "varint_decode (drop pos img) = Inr (v, n)" "checked_span pos n (length img) = Inr s" "pos' = span_end s"
    using assms by (auto simp: read_compact_def)
  show ?thesis
    using varint_decode_sound [OF n(1)] n(2,3)
    by (auto simp: checked_span_Inr at_pos_def span_end_def write_compact_def)
qed

lemma read_compact_at:
  assumes "at_pos img pos (write_compact v)" "length img \<le> u32_max" "v < 2 ^ 64"
  shows "read_compact img pos = Inr ((v, span_at pos (write_compact v)), pos + length (write_compact v))"
proof -
  have "drop pos img = varint_encode v @ drop (length (varint_encode v)) (drop pos img)"
    using assms(1) unfolding at_pos_def write_compact_def by (metis append_take_drop_id)
  then have "varint_decode (drop pos img) = Inr (v, encoded_len v)"
    using varint_decode_encode [OF assms(3)] by metis
  moreover have "checked_span pos (encoded_len v) (length img) = Inr (span_at pos (write_compact v))"
    using at_bound [OF assms(1)] assms(2) by (simp add: checked_span_Inr u32_le_u64_max)
  ultimately show ?thesis
    by (simp add: read_compact_def span_end_def)
qed

section \<open>Parsers of one encoding\<close>

text \<open>
  What a parser of \<open>layout.rs\<close> promises: where it succeeds it has read the encoding
  of a well-formed value, and it succeeds on every such encoding in an image the 32-bit spans
  can address.  \<open>rep\<close> relates the layout found at a position to the value.
\<close>

fun reps :: "(bytes \<Rightarrow> nat \<Rightarrow> 'a \<Rightarrow> 'v \<Rightarrow> bool) \<Rightarrow> ('v \<Rightarrow> bytes) \<Rightarrow> bytes \<Rightarrow> nat \<Rightarrow> 'a list \<Rightarrow> 'v list \<Rightarrow> bool" where
  "reps rep enc img pos [] [] \<longleftrightarrow> True"
| "reps rep enc img pos (x # xs) (v # vs) \<longleftrightarrow> rep img pos x v \<and> reps rep enc img (pos + length (enc v)) xs vs"
| "reps rep enc img pos _ _ \<longleftrightarrow> False"

locale span_codec =
  fixes parse :: "'a cursor" and enc :: "'v \<Rightarrow> bytes" and wf :: "'v \<Rightarrow> bool"
    and rep :: "bytes \<Rightarrow> nat \<Rightarrow> 'a \<Rightarrow> 'v \<Rightarrow> bool"
  assumes sound: "parse img pos = Inr (x, pos') \<Longrightarrow>
      \<exists>v. wf v \<and> at_pos img pos (enc v) \<and> pos' = pos + length (enc v) \<and> rep img pos x v"
    and complete: "at_pos img pos (enc v) \<Longrightarrow> wf v \<Longrightarrow> length img \<le> u32_max \<Longrightarrow>
      \<exists>x. parse img pos = Inr (x, pos + length (enc v)) \<and> rep img pos x v"
begin

lemma repeat_sound:
  "repeat_cursor parse n img pos = Inr (xs, pos') \<Longrightarrow> pos \<le> length img \<Longrightarrow>
    \<exists>vs. length vs = n \<and> list_all wf vs \<and> at_pos img pos (concat (map enc vs))
      \<and> pos' = pos + length (concat (map enc vs)) \<and> reps rep enc img pos xs vs"
proof (induction n arbitrary: pos xs)
  case 0
  then show ?case by (auto simp: at_simps)
next
  case (Suc n)
  then obtain x mid ys where p: "parse img pos = Inr (x, mid)" "repeat_cursor parse n img mid = Inr (ys, pos')" "xs = x # ys"
    by auto
  from sound [OF p(1)] obtain v where v: "wf v" "at_pos img pos (enc v)" "mid = pos + length (enc v)" "rep img pos x v"
    by blast
  then have "mid \<le> length img" using at_bound by blast
  from Suc.IH [OF p(2) this] obtain vs where "length vs = n" "list_all wf vs" "at_pos img mid (concat (map enc vs))"
    "pos' = mid + length (concat (map enc vs))" "reps rep enc img mid ys vs" by blast
  then show ?case
    using v p(3) by (intro exI [of _ "v # vs"]) (simp add: at_simps)
qed

lemma repeat_complete:
  "at_pos img pos (concat (map enc vs)) \<Longrightarrow> list_all wf vs \<Longrightarrow> length img \<le> u32_max \<Longrightarrow>
    \<exists>xs. repeat_cursor parse (length vs) img pos = Inr (xs, pos + length (concat (map enc vs))) \<and> reps rep enc img pos xs vs"
proof (induction vs arbitrary: pos)
  case (Cons v vs)
  then have a: "at_pos img pos (enc v)" "at_pos img (pos + length (enc v)) (concat (map enc vs))"
    by (simp_all add: at_simps)
  obtain x where "parse img pos = Inr (x, pos + length (enc v))" "rep img pos x v"
    using complete [OF a(1)] Cons.prems by auto
  moreover obtain xs where "repeat_cursor parse (length vs) img (pos + length (enc v)) =
      Inr (xs, pos + length (enc v) + length (concat (map enc vs)))" "reps rep enc img (pos + length (enc v)) xs vs"
    using Cons.IH [OF a(2)] Cons.prems by auto
  ultimately show ?case by (auto simp: add.assoc)
qed simp

end

lemma fits_compact: "at_pos img pos (e @ f) \<Longrightarrow> length img \<le> u32_max \<Longrightarrow> n \<le> length f \<Longrightarrow> n < 2 ^ 64"
  using at_bound [of img pos "e @ f"] by (simp add: u32_max_def)

text \<open>A length-prefixed string: script or witness item.\<close>

definition item_rep :: "bytes \<Rightarrow> nat \<Rightarrow> ByteSpan \<Rightarrow> bytes \<Rightarrow> bool" where
  "item_rep img pos s v \<longleftrightarrow> slice_at img s = Some v \<and> span_end s = pos + length (write_script v)"

lemma item_sound:
  assumes "parse_item img pos = Inr (s, pos')"
  shows "\<exists>v. at_pos img pos (write_script v) \<and> pos' = pos + length (write_script v) \<and> item_rep img pos s v"
proof -
  obtain n c mid where r: "read_compact img pos = Inr ((n, c), mid)" and t: "cursor_take n img mid = Inr (s, pos')"
    using assms by (auto simp: parse_item_def)
  note r = read_compact_sound [OF r]
  from t obtain e where "at_pos img mid e" "length e = n" "s = span_at mid e" "pos' = mid + length e"
    by (rule cursor_take_sound)
  then show ?thesis
    using r slice_at_span [of img mid e]
    by (intro exI [of _ e]) (auto simp: write_script_def at_simps item_rep_def span_end_def)
qed

lemma item_complete:
  assumes "at_pos img pos (write_script v)" "length img \<le> u32_max"
  shows "\<exists>s. parse_item img pos = Inr (s, pos + length (write_script v)) \<and> item_rep img pos s v"
proof -
  have a: "at_pos img pos (write_compact (length v))" "at_pos img (pos + length (write_compact (length v))) v"
    using assms(1) by (simp_all add: write_script_def at_append del: length_write_compact)
  have "length v < 2 ^ 64" using fits_compact [OF _ assms(2)] assms(1) unfolding write_script_def by blast
  then show ?thesis
    using read_compact_at [OF a(1) assms(2)] cursor_take_at [OF a(2) assms(2) refl] slice_at_span [OF a(2)]
    by (auto simp: parse_item_def item_rep_def span_end_def write_script_def)
qed

interpretation item: span_codec parse_item write_script "\<lambda>_. True" item_rep
  using item_sound item_complete by unfold_locales auto

text \<open>Inputs, before their witnesses are read, and outputs.\<close>

definition input_rep :: "bytes \<Rightarrow> nat \<Rightarrow> InputLayout \<Rightarrow> TxIn \<Rightarrow> bool" where
  "input_rep img pos l i \<longleftrightarrow> slice_at img (il_outpoint l) = Some (encode_outpoint (in_prevout i))
     \<and> slice_at img (il_script_sig l) = Some (in_script_sig i) \<and> slice_at img (il_sequence l) = Some (u32_le (in_sequence i))
     \<and> il_witness l = EMPTY_SPAN \<and> il_witness_items l = 0"

definition bare_input :: "TxIn \<Rightarrow> bool" where
  "bare_input i \<longleftrightarrow> length (op_txid (in_prevout i)) = 32 \<and> in_witness i = []"

lemma parse_input_item:
  "parse_input img pos =
     bindE (cursor_take OUTPOINT_LEN img pos) (\<lambda>(outpoint, pos).
     bindE (parse_item img pos) (\<lambda>(script_sig, pos).
     bindE (cursor_take 4 img pos) (\<lambda>(sequence, pos).
     Inr (\<lparr> il_outpoint = outpoint, il_script_sig = script_sig, il_sequence = sequence,
            il_witness = EMPTY_SPAN, il_witness_items = 0 \<rparr>, pos))))"
  unfolding parse_input_def parse_item_def by (auto simp: bindE_def split: sum.splits prod.splits)

lemma parse_output_item:
  "parse_output img pos =
     bindE (cursor_take 8 img pos) (\<lambda>(val, pos).
     bindE (parse_item img pos) (\<lambda>(script_pubkey, pos).
     Inr (\<lparr> ol_value = val, ol_script_pubkey = script_pubkey \<rparr>, pos)))"
  unfolding parse_output_def parse_item_def by (auto simp: bindE_def split: sum.splits prod.splits)

lemma outpoint_of_bytes: "length e = 36 \<Longrightarrow> \<exists>p. length (op_txid p) = 32 \<and> encode_outpoint p = e"
  by (rule exI [of _ "\<lparr> op_txid = take 32 e, op_vout = u32_of_le (drop 32 e) \<rparr>"]) (simp add: encode_outpoint_def)

lemma input_sound:
  assumes "parse_input img pos = Inr (l, pos')"
  shows "\<exists>i. bare_input i \<and> at_pos img pos (encode_txin i) \<and> pos' = pos + length (encode_txin i) \<and> input_rep img pos l i"
proof -
  obtain o1 p1 s2 p2 s3 where t: "cursor_take OUTPOINT_LEN img pos = Inr (o1, p1)" "parse_item img p1 = Inr (s2, p2)"
    "cursor_take 4 img p2 = Inr (s3, pos')"
    and l: "l = \<lparr> il_outpoint = o1, il_script_sig = s2, il_sequence = s3, il_witness = EMPTY_SPAN, il_witness_items = 0 \<rparr>"
    using assms by (auto simp: parse_input_item)
  obtain e where e: "at_pos img pos e" "length e = 36" "o1 = span_at pos e" "p1 = pos + length e"
    using t(1) by (rule cursor_take_sound)
  obtain p where p: "length (op_txid p) = 32" "encode_outpoint p = e" using outpoint_of_bytes [OF e(2)] by blast
  obtain v where v: "at_pos img p1 (write_script v)" "p2 = p1 + length (write_script v)" "item_rep img p1 s2 v"
    using item_sound [OF t(2)] by blast
  obtain f where f: "at_pos img p2 f" "length f = 4" "s3 = span_at p2 f" "pos' = p2 + length f"
    using t(3) by (rule cursor_take_sound)
  let ?i = "\<lparr> in_prevout = p, in_script_sig = v, in_sequence = u32_of_le f, in_witness = [] \<rparr>"
  have enc: "encode_txin ?i = e @ write_script v @ f" using p f(2) by (simp add: encode_txin_def)
  have "at_pos img pos (encode_txin ?i)" "pos' = pos + length (encode_txin ?i)"
    unfolding enc using e v f by (simp_all add: at_append del: length_write_script)
  moreover have "input_rep img pos l ?i"
    using slice_at_span [OF e(1)] slice_at_span [OF f(1)] v(3) p e(3) f(2,3) by (simp add: input_rep_def l item_rep_def)
  ultimately show ?thesis using p(1) by (intro exI [of _ ?i]) (simp add: bare_input_def)
qed

lemma input_complete:
  assumes "at_pos img pos (encode_txin i)" "bare_input i" "length img \<le> u32_max"
  shows "\<exists>l. parse_input img pos = Inr (l, pos + length (encode_txin i)) \<and> input_rep img pos l i"
proof -
  let ?o = "encode_outpoint (in_prevout i)" and ?q = "u32_le (in_sequence i)" and ?s = "write_script (in_script_sig i)"
  have len: "length ?o = 36" using assms(2) by (simp add: encode_outpoint_def bare_input_def)
  have a: "at_pos img pos ?o" "at_pos img (pos + length ?o) ?s" "at_pos img (pos + length ?o + length ?s) ?q"
    using assms(1) by (simp_all add: encode_txin_def at_append del: length_write_script length_u32_le)
  obtain s where s: "parse_item img (pos + length ?o) = Inr (s, pos + length ?o + length ?s)" "item_rep img (pos + length ?o) s (in_script_sig i)"
    using item_complete [OF a(2) assms(3)] by blast
  show ?thesis
    using cursor_take_at [OF a(1) assms(3) len [symmetric]] s cursor_take_at [OF a(3) assms(3), of 4]
      slice_at_span [OF a(1)] slice_at_span [OF a(3)]
    by (simp add: parse_input_item encode_txin_def input_rep_def item_rep_def add.assoc del: length_write_script)
qed

interpretation txin: span_codec parse_input encode_txin bare_input input_rep
  using input_sound input_complete by unfold_locales auto

definition output_rep :: "bytes \<Rightarrow> nat \<Rightarrow> OutputLayout \<Rightarrow> TxOut \<Rightarrow> bool" where
  "output_rep img pos l out \<longleftrightarrow> slice_at img (ol_value l) = Some (u64_le (out_value out))
     \<and> slice_at img (ol_script_pubkey l) = Some (out_script_pubkey out)
     \<and> span_end (ol_script_pubkey l) = pos + length (encode_txout out)"

lemma output_sound:
  assumes "parse_output img pos = Inr (l, pos')"
  shows "\<exists>out. at_pos img pos (encode_txout out) \<and> pos' = pos + length (encode_txout out) \<and> output_rep img pos l out"
proof -
  obtain s1 p1 s2 where t: "cursor_take 8 img pos = Inr (s1, p1)" "parse_item img p1 = Inr (s2, pos')"
    and l: "l = \<lparr> ol_value = s1, ol_script_pubkey = s2 \<rparr>"
    using assms by (auto simp: parse_output_item)
  obtain e where e: "at_pos img pos e" "length e = 8" "s1 = span_at pos e" "p1 = pos + length e"
    using t(1) by (rule cursor_take_sound)
  obtain v where v: "at_pos img p1 (write_script v)" "pos' = p1 + length (write_script v)" "item_rep img p1 s2 v"
    using item_sound [OF t(2)] by blast
  let ?o = "\<lparr> out_value = u64_of_le e, out_script_pubkey = v \<rparr>"
  have enc: "encode_txout ?o = e @ write_script v" using e(2) by (simp add: encode_txout_def)
  have "at_pos img pos (encode_txout ?o)" "pos' = pos + length (encode_txout ?o)"
    unfolding enc using e v by (simp_all add: at_append del: length_write_script)
  moreover have "output_rep img pos l ?o"
    using slice_at_span [OF e(1)] v(3) e by (simp add: output_rep_def enc l item_rep_def)
  ultimately show ?thesis by blast
qed

lemma output_complete:
  assumes "at_pos img pos (encode_txout out)" "length img \<le> u32_max"
  shows "\<exists>l. parse_output img pos = Inr (l, pos + length (encode_txout out)) \<and> output_rep img pos l out"
proof -
  let ?v = "u64_le (out_value out)" and ?s = "write_script (out_script_pubkey out)"
  have a: "at_pos img pos ?v" "at_pos img (pos + length ?v) ?s"
    using assms(1) by (simp_all add: encode_txout_def at_append del: length_write_script length_u64_le)
  obtain s where s: "parse_item img (pos + length ?v) = Inr (s, pos + length ?v + length ?s)"
      "item_rep img (pos + length ?v) s (out_script_pubkey out)"
    using item_complete [OF a(2) assms(2)] by blast
  show ?thesis
    using cursor_take_at [OF a(1) assms(2), of 8] s slice_at_span [OF a(1)]
    by (simp add: parse_output_item encode_txout_def output_rep_def item_rep_def add.assoc del: length_write_script)
qed

interpretation txout: span_codec parse_output encode_txout "\<lambda>_. True" output_rep
  using output_sound output_complete by unfold_locales auto

section \<open>Witnesses\<close>

lemma min_len_concat: "list_all (\<lambda>v. k \<le> length (enc v)) vs \<Longrightarrow> k * length vs \<le> length (concat (map enc vs))"
  by (induction vs) auto

lemma require_count_at:
  assumes "at_pos img pos (concat (map enc vs))" "list_all (\<lambda>v. k \<le> length (enc v)) vs"
  shows "require_count img pos (length vs) k = Inr ()"
proof -
  have "k * length vs \<le> length img - pos"
    using min_len_concat [OF assms(2)] at_bound [OF assms(1)] by linarith
  then show ?thesis by (simp add: require_count_def sat_mul_def)
qed

lemma encode_witness_items: "encode_witness w = write_compact (length w) @ concat (map write_script w)"
  by (simp add: encode_witness_def write_script_def [abs_def])

definition witness_rep :: "bytes \<Rightarrow> InputLayout \<Rightarrow> InputLayout \<Rightarrow> bytes list \<Rightarrow> bool" where
  "witness_rep img l l' w \<longleftrightarrow>
     (\<exists>region. l' = l\<lparr>il_witness := region, il_witness_items := length w\<rparr>
       \<and> at_pos img (span_start region) (concat (map write_script w)))"

lemma parse_witness_sound:
  assumes "parse_witness l img pos = Inr (l', pos')"
  shows "\<exists>w. at_pos img pos (encode_witness w) \<and> pos' = pos + length (encode_witness w) \<and> witness_rep img l l' w"
proof -
  obtain n c mid xs region where r: "read_compact img pos = Inr ((n, c), mid)"
    and i: "repeat_cursor parse_item n img mid = Inr (xs, pos')"
    and s: "checked_span mid (pos' - mid) (length img) = Inr region"
    and l': "l' = l\<lparr>il_witness := region, il_witness_items := n\<rparr>"
    using assms by (auto simp: parse_witness_def split: if_splits)
  note r = read_compact_sound [OF r]
  then have "mid \<le> length img" using at_bound by blast
  from item.repeat_sound [OF i this] obtain w where w: "length w = n" "at_pos img mid (concat (map write_script w))"
    "pos' = mid + length (concat (map write_script w))" by blast
  have "span_start region = mid" using s by (simp add: checked_span_Inr)
  then have "witness_rep img l l' w" using w l' by (auto simp: witness_rep_def)
  moreover have "at_pos img pos (encode_witness w)" "pos' = pos + length (encode_witness w)"
    unfolding encode_witness_items using r w by (simp_all add: at_append)
  ultimately show ?thesis by blast
qed

lemma parse_witness_complete:
  assumes "at_pos img pos (encode_witness w)" "length img \<le> u32_max"
  shows "\<exists>l'. parse_witness l img pos = Inr (l', pos + length (encode_witness w)) \<and> witness_rep img l l' w"
proof -
  let ?c = "write_compact (length w)" and ?b = "concat (map write_script w)"
  have a: "at_pos img pos ?c" "at_pos img (pos + length ?c) ?b"
    using assms(1) unfolding encode_witness_items by (simp_all add: at_append del: length_write_compact)
  have one: "list_all (\<lambda>v. 1 \<le> length (write_script v)) w" by (auto simp: list_all_iff Suc_le_eq)
  have w: "length w \<le> length ?b" using min_len_concat [OF one] by simp
  then have "length w < 2 ^ 64" using fits_compact assms unfolding encode_witness_items by blast
  note r = read_compact_at [OF a(1) assms(2) this]
  obtain xs where xs: "repeat_cursor parse_item (length w) img (pos + length ?c) = Inr (xs, pos + length ?c + length ?b)"
    using item.repeat_complete [OF a(2) _ assms(2)] by (auto simp: list_all_iff)
  have "checked_span (pos + length ?c) (length ?b) (length img) = Inr (span_at (pos + length ?c) ?b)"
    using at_bound [OF a(2)] assms(2) by (auto simp: checked_span_Inr intro: u32_le_u64_max)
  moreover have "length w \<le> u32_max" using w at_bound [OF a(2)] assms(2) by simp
  ultimately show ?thesis
    using r xs require_count_at [OF a(2) one] a(2)
    by (auto simp: parse_witness_def encode_witness_items witness_rep_def simp del: length_write_compact length_concat)
qed

lemma parse_witnesses_sound:
  "parse_witnesses ls img pos = Inr (ls', pos') \<Longrightarrow> pos \<le> length img \<Longrightarrow>
    \<exists>ws. length ws = length ls \<and> at_pos img pos (concat (map encode_witness ws))
      \<and> pos' = pos + length (concat (map encode_witness ws)) \<and> list_all2 (\<lambda>l' (l, w). witness_rep img l l' w) ls' (zip ls ws)"
proof (induction ls arbitrary: pos ls')
  case Nil
  then show ?case by (simp add: at_simps)
next
  case (Cons l ls)
  then obtain l' mid ms where p: "parse_witness l img pos = Inr (l', mid)" "parse_witnesses ls img mid = Inr (ms, pos')" "ls' = l' # ms"
    by auto
  from parse_witness_sound [OF p(1)] obtain w where w: "at_pos img pos (encode_witness w)" "mid = pos + length (encode_witness w)"
    "witness_rep img l l' w" by blast
  then have "mid \<le> length img" using at_bound by blast
  from Cons.IH [OF p(2) this] obtain ws where "length ws = length ls" "at_pos img mid (concat (map encode_witness ws))"
    "pos' = mid + length (concat (map encode_witness ws))" "list_all2 (\<lambda>l' (l, w). witness_rep img l l' w) ms (zip ls ws)"
    by blast
  then show ?case
    using w p(3) by (intro exI [of _ "w # ws"]) (simp add: at_append)
qed

lemma parse_witnesses_complete:
  "length ws = length ls \<Longrightarrow> at_pos img pos (concat (map encode_witness ws)) \<Longrightarrow> length img \<le> u32_max \<Longrightarrow>
    \<exists>ls'. parse_witnesses ls img pos = Inr (ls', pos + length (concat (map encode_witness ws)))
      \<and> list_all2 (\<lambda>l' (l, w). witness_rep img l l' w) ls' (zip ls ws)"
proof (induction ws ls arbitrary: pos rule: list_induct2)
  case (Cons w ws l ls)
  then have a: "at_pos img pos (encode_witness w)" "at_pos img (pos + length (encode_witness w)) (concat (map encode_witness ws))"
    by (simp_all add: at_append)
  obtain l' where l': "parse_witness l img pos = Inr (l', pos + length (encode_witness w))" "witness_rep img l l' w"
    using parse_witness_complete [OF a(1) Cons.prems(2)] by blast
  obtain ms where "parse_witnesses ls img (pos + length (encode_witness w)) =
      Inr (ms, pos + length (encode_witness w) + length (concat (map encode_witness ws)))"
    "list_all2 (\<lambda>l' (l, w). witness_rep img l l' w) ms (zip ls ws)"
    using Cons.IH [OF a(2) Cons.prems(2)] by blast
  then show ?case using l' by (simp add: add.assoc)
qed simp

section \<open>Transactions are read back\<close>

lemma reps_all2: "(\<And>pos x v. rep img pos x v \<Longrightarrow> Q x v) \<Longrightarrow> reps rep enc img pos xs vs \<Longrightarrow> list_all2 Q xs vs"
  by (induction rep enc img pos xs vs rule: reps.induct) auto

definition body_end :: "ByteSpan \<Rightarrow> OutputLayout list \<Rightarrow> nat" where
  "body_end count_span os = (case last_opt os of None \<Rightarrow> span_end count_span | Some l \<Rightarrow> span_end (ol_script_pubkey l))"

lemma reps_body_end:
  "reps output_rep encode_txout img pos os outs \<Longrightarrow> span_end s = pos \<Longrightarrow>
    body_end s os = pos + length (concat (map encode_txout outs))"
proof (induction output_rep encode_txout img pos os outs arbitrary: s rule: reps.induct)
  case (2 img pos l os out outs)
  then have "span_end (ol_script_pubkey l) = pos + length (encode_txout out)" by (simp add: output_rep_def)
  from "2.hyps" [OF _ this] "2.prems" show ?case
    by (auto simp: body_end_def last_opt_def split: if_splits)
qed (simp_all add: body_end_def)

text \<open>Inputs, output count and outputs.\<close>

definition parse_ins_outs :: "nat \<Rightarrow> (nat \<times> ByteSpan) option \<Rightarrow> (InputLayout list \<times> ByteSpan \<times> OutputLayout list) cursor" where
  "parse_ins_outs n ov img pos =
     bindE (require_count img pos n MIN_INPUT_LEN) (\<lambda>_.
     bindE (repeat_cursor parse_input n img pos) (\<lambda>(inputs, pos).
     bindE (parse_output_count ov img pos) (\<lambda>((m, count_span), pos).
     bindE (require_count img pos m MIN_OUTPUT_LEN) (\<lambda>_.
     bindE (repeat_cursor parse_output m img pos) (\<lambda>(outputs, pos). Inr ((inputs, count_span, outputs), pos))))))"

definition ins_outs_rep :: "bytes \<Rightarrow> nat \<Rightarrow> InputLayout list \<times> ByteSpan \<times> OutputLayout list \<Rightarrow> TxIn list \<times> TxOut list \<Rightarrow> bool" where
  "ins_outs_rep img pos x v \<longleftrightarrow> (case (x, v) of ((ls, s, os), (ins, outs)) \<Rightarrow>
     list_all2 (input_rep img 0) ls ins \<and> list_all2 (\<lambda>l out. \<exists>p. output_rep img p l out) os outs \<and> body_end s os = pos)"

definition enc_ins_outs :: "TxIn list \<times> TxOut list \<Rightarrow> bytes" where
  "enc_ins_outs v = concat (map encode_txin (fst v)) @ write_compact (length (snd v)) @ concat (map encode_txout (snd v))"

lemma ins_outs_sound:
  assumes "parse_ins_outs n None img pos = Inr (x, pos')" "pos \<le> length img"
  shows "\<exists>v. length (fst v) = n \<and> list_all bare_input (fst v) \<and> at_pos img pos (enc_ins_outs v)
    \<and> pos' = pos + length (enc_ins_outs v) \<and> ins_outs_rep img pos' x v"
proof -
  obtain ls p1 m s p2 os where i: "repeat_cursor parse_input n img pos = Inr (ls, p1)"
    and c: "read_compact img p1 = Inr ((m, s), p2)" and o: "repeat_cursor parse_output m img p2 = Inr (os, pos')"
    and x: "x = (ls, s, os)"
    using assms(1) by (auto simp: parse_ins_outs_def parse_output_count_def)
  from txin.repeat_sound [OF i assms(2)] obtain ins where ins: "length ins = n" "list_all bare_input ins"
    "at_pos img pos (concat (map encode_txin ins))" "p1 = pos + length (concat (map encode_txin ins))"
    "reps input_rep encode_txin img pos ls ins" by blast
  note c = read_compact_sound [OF c]
  then have "p2 \<le> length img" using at_bound by blast
  from txout.repeat_sound [OF o this] obtain outs where outs: "length outs = m"
    "at_pos img p2 (concat (map encode_txout outs))" "pos' = p2 + length (concat (map encode_txout outs))"
    "reps output_rep encode_txout img p2 os outs" by blast
  have "ins_outs_rep img pos' x (ins, outs)"
    using reps_all2 [OF _ ins(5), of "input_rep img 0"] reps_all2 [OF _ outs(4), of "\<lambda>l out. \<exists>p. output_rep img p l out"]
      reps_body_end [OF outs(4), of s] c outs(3)
    by (auto simp: ins_outs_rep_def x input_rep_def span_end_def)
  moreover have "at_pos img pos (enc_ins_outs (ins, outs))" "pos' = pos + length (enc_ins_outs (ins, outs))"
    using ins c outs by (simp_all add: enc_ins_outs_def at_append)
  ultimately show ?thesis using ins by (intro exI [of _ "(ins, outs)"]) simp
qed

lemma txin_min_len: "bare_input i \<Longrightarrow> MIN_INPUT_LEN \<le> length (encode_txin i)"
  by (simp add: bare_input_def length_encode_txin Suc_le_eq)

lemma txout_min_len: "MIN_OUTPUT_LEN \<le> length (encode_txout out)"
  by (simp add: encode_txout_def Suc_le_eq)

lemma ins_outs_complete:
  assumes "at_pos img pos (enc_ins_outs v)" "list_all bare_input (fst v)" "length img \<le> u32_max"
  shows "\<exists>x. parse_ins_outs (length (fst v)) None img pos = Inr (x, pos + length (enc_ins_outs v))
    \<and> ins_outs_rep img (pos + length (enc_ins_outs v)) x v"
proof -
  obtain ins outs where v: "v = (ins, outs)" by (cases v)
  let ?i = "concat (map encode_txin ins)" and ?c = "write_compact (length outs)" and ?o = "concat (map encode_txout outs)"
  have a: "at_pos img pos ?i" "at_pos img (pos + length ?i) ?c" "at_pos img (pos + length ?i + length ?c) ?o"
    using assms(1) by (simp_all add: enc_ins_outs_def v at_append del: length_write_compact length_concat)
  have min: "list_all (\<lambda>i. MIN_INPUT_LEN \<le> length (encode_txin i)) ins" "list_all (\<lambda>out. MIN_OUTPUT_LEN \<le> length (encode_txout out)) outs"
    using assms(2) txin_min_len txout_min_len by (auto simp: list_all_iff v)
  have "length outs < 2 ^ 64"
    using min_len_concat [OF min(2)] at_bound [OF a(3)] assms(3) by (simp add: u32_max_def)
  note c = read_compact_at [OF a(2) assms(3) this]
  obtain ls where ls: "repeat_cursor parse_input (length ins) img pos = Inr (ls, pos + length ?i)" "reps input_rep encode_txin img pos ls ins"
    using txin.repeat_complete [OF a(1) _ assms(3)] assms(2) v by auto
  obtain os where os: "repeat_cursor parse_output (length outs) img (pos + length ?i + length ?c) = Inr (os, pos + length ?i + length ?c + length ?o)"
      "reps output_rep encode_txout img (pos + length ?i + length ?c) os outs"
    using txout.repeat_complete [OF a(3) _ assms(3)] by (auto simp: list_all_iff)
  have "list_all2 (\<lambda>l out. \<exists>p. output_rep img p l out) os outs"
    by (rule reps_all2 [OF _ os(2)]) blast
  then have rep: "ins_outs_rep img (pos + length (enc_ins_outs v)) (ls, span_at (pos + length ?i) ?c, os) v"
    using reps_all2 [OF _ ls(2), of "input_rep img 0"]
      reps_body_end [OF os(2), of "span_at (pos + length ?i) ?c"]
    by (auto simp: ins_outs_rep_def v enc_ins_outs_def input_rep_def span_end_def add.assoc)
  have "parse_ins_outs (length (fst v)) None img pos = Inr ((ls, span_at (pos + length ?i) ?c, os), pos + length (enc_ins_outs v))"
    unfolding parse_ins_outs_def parse_output_count_def v fst_conv require_count_at [OF a(1) min(1)] bindE_simps ls(1) prod.case
      option.case c require_count_at [OF a(3) min(2)] os(1)
    by (simp add: enc_ins_outs_def add.assoc)
  then show ?thesis using rep by blast
qed

text \<open>The count of the inputs with the marker and the flag.\<close>

lemma write_compact_0: "write_compact 0 = [0]"
  by (simp add: write_compact_def varint_encode_def encode_into_def take_1_le_bytes)

lemma write_compact_eq_0: "n < 2 ^ 64 \<Longrightarrow> n \<noteq> 0 \<Longrightarrow> write_compact n \<noteq> 0 # bs"
  by (metis append_Cons append_Nil prod.inject sum.inject(2) varint_decode_encode write_compact_0 write_compact_def zero_less_numeral zero_less_power)

inductive count_rep :: "bytes \<Rightarrow> nat \<Rightarrow> nat \<times> ByteSpan \<times> (nat \<times> ByteSpan) option \<times> bool \<Rightarrow> nat \<Rightarrow> bool" for img pos where
  marker: "n < 2 ^ 64 \<Longrightarrow> at_pos img pos ([0, 1] @ write_compact n) \<Longrightarrow> pos' = pos + 2 + length (write_compact n) \<Longrightarrow>
    count_rep img pos (n, span_at (pos + 2) (write_compact n), None, True) pos'"
| plain: "n < 2 ^ 64 \<Longrightarrow> n \<noteq> 0 \<Longrightarrow> at_pos img pos (write_compact n) \<Longrightarrow> pos' = pos + length (write_compact n) \<Longrightarrow>
    count_rep img pos (n, span_at pos (write_compact n), None, False) pos'"
| empty: "at_pos img pos [0, 0] \<Longrightarrow> pos' = pos + 2 \<Longrightarrow>
    count_rep img pos (0, span_at pos [0], Some (0, span_at (pos + 1) [0]), False) pos'"

lemma read_u8_iff:
  "read_u8 img pos = Inr ((b, s), pos') \<longleftrightarrow> pos \<le> u32_max \<and> at_pos img pos [b] \<and> s = span_at pos [b] \<and> pos' = pos + 1"
  by (auto simp: read_u8_def cursor_take_def checked_span_Inr span_end_def at_pos_def take_Suc_conv_app_nth u32_max_def u64_max_def)

lemma parse_input_count_sound:
  assumes "parse_input_count img pos = Inr (x, pos')"
  shows "count_rep img pos x pos'"
proof -
  obtain n s mid where r: "read_compact img pos = Inr ((n, s), mid)"
    and rest: "(if n = 0 then
       bindE (read_u8 img mid) (\<lambda>((flag, flag_span), pos).
       if flag = 0 then Inr ((n, s, Some (0, flag_span), False), pos)
       else if flag = 0x01 then
         bindE (read_compact img pos) (\<lambda>((count, span), pos). Inr ((count, span, None, True), pos))
       else Inl (InvalidSegwitFlag flag))
     else Inr ((n, s, None, False), mid)) = Inr (x, pos')"
    using assms by (auto simp: parse_input_count_def)
  note r = read_compact_sound [OF r]
  show ?thesis
  proof (cases "n = 0")
    case False
    then show ?thesis using rest r count_rep.plain [of n img pos] by auto
  next
    case True
    then obtain flag fs mid2 where f: "read_u8 img mid = Inr ((flag, fs), mid2)" using rest by auto
    then have f': "at_pos img (pos + 1) [flag]" "fs = span_at (pos + 1) [flag]" "mid2 = pos + 2" "at_pos img pos [0]" "s = span_at pos [0]"
      using r True by (simp_all add: read_u8_iff write_compact_0)
    have two: "at_pos img pos [0, flag]" using at_append [of img pos "[0]" "[flag]"] f' by simp
    show ?thesis
    proof (cases "flag = 0")
      case True
      then have "x = (0, s, Some (0, fs), False)" "pos' = mid2" using \<open>n = 0\<close> rest f by auto
      then show ?thesis using count_rep.empty [of img pos] two f' True by simp
    next
      case False
      then obtain m t where t: "flag = 1" "read_compact img mid2 = Inr ((m, t), pos')" "x = (m, t, None, True)"
        using \<open>n = 0\<close> rest f by (auto split: if_splits)
      note m = read_compact_sound [OF t(2)]
      then have "at_pos img pos ([0, 1] @ write_compact m)"
        using at_append [of img pos "[0, 1]" "write_compact m"] two t(1) f'(3) by simp
      then show ?thesis using count_rep.marker [of m img pos] m t(3) f'(3) by simp
    qed
  qed
qed

lemma parse_input_count_complete:
  assumes "count_rep img pos x pos'" "length img \<le> u32_max"
  shows "parse_input_count img pos = Inr (x, pos')"
  using assms(1)
proof cases
  case (marker n)
  then have a: "at_pos img pos (write_compact 0)" "at_pos img (pos + 1) [1]" "at_pos img (pos + 2) (write_compact n)"
    using at_append [of img pos "[0, 1]" "write_compact n"] at_append [of img pos "[0]" "[1]"] by (simp_all add: write_compact_0)
  have "pos + 1 \<le> u32_max" using at_bound [OF a(2)] assms(2) by simp
  then have "read_u8 img (pos + 1) = Inr ((1, span_at (pos + 1) [1]), pos + 2)" using a(2) by (simp add: read_u8_iff)
  then show ?thesis
    using read_compact_at [OF a(1) assms(2)] read_compact_at [OF a(3) assms(2)] marker
    by (simp add: parse_input_count_def write_compact_0)
next
  case (plain n)
  then show ?thesis
    using read_compact_at [OF _ assms(2), of pos n] by (simp add: parse_input_count_def)
next
  case empty
  then have a: "at_pos img pos (write_compact 0)" "at_pos img (pos + 1) [0]"
    using at_append [of img pos "[0]" "[0]"] by (simp_all add: write_compact_0)
  have "pos + 1 \<le> u32_max" using at_bound [OF a(2)] assms(2) by simp
  then have "read_u8 img (pos + 1) = Inr ((0, span_at (pos + 1) [0]), pos + 2)" using a(2) by (simp add: read_u8_iff)
  then show ?thesis
    using read_compact_at [OF a(1) assms(2)] empty by (simp add: parse_input_count_def write_compact_0)
qed

text \<open>The whole transaction.\<close>

definition decodable :: "Tx \<Rightarrow> bool" where
  "decodable tx \<longleftrightarrow> tx_hashes_wf tx \<and> (tx_inputs tx = [] \<longrightarrow> tx_outputs tx = [])"

definition full_input_rep :: "bytes \<Rightarrow> InputLayout \<Rightarrow> TxIn \<Rightarrow> bool" where
  "full_input_rep img l i \<longleftrightarrow> slice_at img (il_outpoint l) = Some (encode_outpoint (in_prevout i))
     \<and> slice_at img (il_script_sig l) = Some (in_script_sig i) \<and> slice_at img (il_sequence l) = Some (u32_le (in_sequence i))
     \<and> il_witness_items l = length (in_witness i) \<and> at_pos img (span_start (il_witness l)) (concat (map write_script (in_witness i)))"

definition tx_rep :: "bytes \<Rightarrow> nat \<Rightarrow> ParsedTransaction \<Rightarrow> Tx \<Rightarrow> bool" where
  "tx_rep img pos p tx \<longleftrightarrow> pt_bytes p = img \<and> pt_span p = span_at pos (encode_tx tx)
     \<and> slice_at img (pt_span p) = Some (encode_tx tx)
     \<and> slice_at img (pt_version_span p) = Some (u32_le (tx_version tx))
     \<and> slice_at img (pt_lock_time_span p) = Some (u32_le (tx_lock_time tx))
     \<and> pt_segwit p = has_witness tx
     \<and> (has_witness tx \<longrightarrow> segwit_base_body p = encode_tx_inputs_and_outputs tx)
     \<and> list_all2 (full_input_rep img) (pt_inputs p) (tx_inputs tx)
     \<and> list_all2 (\<lambda>l out. \<exists>p. output_rep img p l out) (pt_outputs p) (tx_outputs tx)"

definition parse_end :: "nat \<Rightarrow> ByteSpan \<Rightarrow> ByteSpan \<Rightarrow> ByteSpan \<Rightarrow> bool \<Rightarrow> OutputLayout list \<Rightarrow> InputLayout list \<Rightarrow> ParsedTransaction cursor" where
  "parse_end start v s c segwit os ls img pos =
     bindE (cursor_take 4 img pos) (\<lambda>(lock_time_span, pos).
     bindE (checked_span start (pos - start) (length img)) (\<lambda>span.
     Inr (\<lparr> pt_bytes = img, pt_span = span, pt_version_span = v, pt_input_count_span = s, pt_output_count_span = c,
            pt_lock_time_span = lock_time_span, pt_segwit = segwit, pt_inputs = ls, pt_outputs = os \<rparr>, pos)))"

definition parse_wits :: "bool \<Rightarrow> InputLayout list \<Rightarrow> InputLayout list cursor" where
  "parse_wits segwit ls img pos =
     (if segwit then
        bindE (parse_witnesses ls img pos) (\<lambda>(ls, pos).
        if list_all (\<lambda>l. il_witness_items l = 0) ls then Inl SuperfluousWitness else Inr (ls, pos))
      else Inr (ls, pos))"

lemma parse_tx_at_parts:
  "parse_tx_at img start =
     bindE (cursor_take 4 img start) (\<lambda>(v, pos).
     bindE (parse_input_count img pos) (\<lambda>((n, s, ov, segwit), pos).
     bindE (parse_ins_outs n ov img pos) (\<lambda>((ls, c, os), pos).
     bindE (parse_wits segwit ls img pos) (\<lambda>(ls, pos).
     parse_end start v s c segwit os ls img pos))))"
  unfolding parse_tx_at_def parse_ins_outs_def parse_wits_def parse_end_def
  by (auto simp: bindE_def split: sum.splits prod.splits)

lemma parse_end_sound:
  assumes "parse_end start v s c segwit os ls img pos = Inr (p, pos')" "at_pos img start e" "pos = start + length e"
  shows "\<exists>lt. at_pos img start (e @ u32_le lt) \<and> pos' = start + length (e @ u32_le lt)
    \<and> p = \<lparr> pt_bytes = img, pt_span = span_at start (e @ u32_le lt), pt_version_span = v, pt_input_count_span = s,
        pt_output_count_span = c, pt_lock_time_span = span_at pos (u32_le lt), pt_segwit = segwit, pt_inputs = ls, pt_outputs = os \<rparr>
    \<and> slice_at img (span_at pos (u32_le lt)) = Some (u32_le lt)"
proof -
  obtain l where t: "cursor_take 4 img pos = Inr (l, pos')" using assms(1) by (auto simp: parse_end_def)
  obtain f where f: "at_pos img pos f" "length f = 4" "l = span_at pos f" "pos' = pos + length f"
    using t by (rule cursor_take_sound)
  show ?thesis
    using assms t f slice_at_span [OF f(1)]
    by (intro exI [of _ "u32_of_le f"]) (auto simp: parse_end_def at_append checked_span_Inr)
qed

lemma parse_end_complete:
  assumes "at_pos img start (e @ u32_le lt)" "pos = start + length e" "length img \<le> u32_max"
  shows "parse_end start v s c segwit os ls img pos =
    Inr (\<lparr> pt_bytes = img, pt_span = span_at start (e @ u32_le lt), pt_version_span = v, pt_input_count_span = s,
        pt_output_count_span = c, pt_lock_time_span = span_at pos (u32_le lt), pt_segwit = segwit, pt_inputs = ls, pt_outputs = os \<rparr>,
      start + length (e @ u32_le lt))"
proof -
  have a: "at_pos img pos (u32_le lt)" using assms(1,2) by (simp add: at_append)
  have "checked_span start (length e + 4) (length img) = Inr (span_at start (e @ u32_le lt))"
    using at_bound [OF assms(1)] assms(3) by (auto simp: checked_span_Inr intro: u32_le_u64_max)
  then show ?thesis
    using cursor_take_at [OF a assms(3), of 4] assms(2) by (simp add: parse_end_def add.assoc)
qed

definition with_witness :: "TxIn list \<Rightarrow> bytes list list \<Rightarrow> TxIn list" where
  "with_witness ins ws = map2 (\<lambda>i w. i\<lparr>in_witness := w\<rparr>) ins ws"

lemma with_witness_simps:
  assumes "length ws = length ins"
  shows "length (with_witness ins ws) = length ins" "map encode_txin (with_witness ins ws) = map encode_txin ins"
    "map in_witness (with_witness ins ws) = ws"
  using assms by (induction ws ins rule: list_induct2) (simp_all add: with_witness_def encode_txin_def)

lemma with_witness_hashes: "length ws = length ins \<Longrightarrow> list_all bare_input ins \<Longrightarrow>
    list_all (\<lambda>i. length (op_txid (in_prevout i)) = 32) (with_witness ins ws)"
  by (induction ws ins rule: list_induct2) (auto simp: with_witness_def bare_input_def)

lemma full_plain:
  "list_all2 (input_rep img 0) ls ins \<Longrightarrow> list_all bare_input ins \<Longrightarrow> list_all2 (full_input_rep img) ls ins"
  by (induction ls ins rule: list_all2_induct)
    (auto simp: full_input_rep_def input_rep_def bare_input_def at_simps EMPTY_SPAN_def)

lemma full_witness:
  "list_all2 (input_rep img 0) ls ins \<Longrightarrow> list_all2 (\<lambda>l' (l, w). witness_rep img l l' w) ls' (zip ls ws) \<Longrightarrow> length ws = length ins \<Longrightarrow>
    list_all2 (full_input_rep img) ls' (with_witness ins ws)"
proof (induction ls ins arbitrary: ls' ws rule: list_all2_induct)
  case (Cons l ls i ins)
  then obtain w ws' where ws: "ws = w # ws'" by (cases ws) auto
  then obtain l' ms where ls': "ls' = l' # ms" "witness_rep img l l' w" "list_all2 (\<lambda>l' (l, w). witness_rep img l l' w) ms (zip ls ws')"
    using Cons.prems by (auto simp: list_all2_Cons2)
  then have "full_input_rep img l' (i\<lparr>in_witness := w\<rparr>)"
    using Cons.hyps(1) by (auto simp: full_input_rep_def input_rep_def witness_rep_def)
  then show ?case
    using Cons.IH [OF ls'(3)] Cons.prems ws ls'(1) by (simp add: with_witness_def)
qed (simp add: with_witness_def)

lemma items_zero:
  "list_all2 (full_input_rep img) ls ins \<Longrightarrow> list_all (\<lambda>l. il_witness_items l = 0) ls \<longleftrightarrow> list_all (\<lambda>i. in_witness i = []) ins"
  by (induction ls ins rule: list_all2_induct) (auto simp: full_input_rep_def)

lemma has_witness_iff: "has_witness tx \<longleftrightarrow> \<not> list_all (\<lambda>i. in_witness i = []) (tx_inputs tx)"
  by (auto simp: has_witness_def list_ex_iff list_all_iff)

lemma ins_outs_enc:
  "map encode_txin (tx_inputs tx) = map encode_txin ins \<Longrightarrow>
    encode_tx_inputs_and_outputs tx = write_compact (length ins) @ enc_ins_outs (ins, tx_outputs tx)"
  by (metis (no_types) append_assoc encode_tx_inputs_and_outputs_def enc_ins_outs_def fst_conv length_map snd_conv)

lemma segwit_base_body_at:
  assumes "at_pos (pt_bytes p) (span_start (pt_input_count_span p)) e"
    and "body_end (pt_output_count_span p) (pt_outputs p) = span_start (pt_input_count_span p) + length e"
  shows "segwit_base_body p = e"
  using range_at [OF assms(1)] assms(2) by (simp add: segwit_base_body_def Let_def body_end_def)

lemma bare_no_witness: "list_all bare_input ins \<Longrightarrow> list_all (\<lambda>i. in_witness i = []) ins"
  by (auto simp: list_all_iff bare_input_def)

lemma bare_hashes: "list_all bare_input ins \<Longrightarrow> list_all (\<lambda>i. length (op_txid (in_prevout i)) = 32) ins"
  by (auto simp: list_all_iff bare_input_def)

text \<open>The three forms of the encoding: with the marker, without it, and without inputs and outputs.\<close>

definition marker_bytes :: "u32 \<Rightarrow> TxIn list \<Rightarrow> TxOut list \<Rightarrow> bytes list list \<Rightarrow> bytes" where
  "marker_bytes ver ins outs ws =
     u32_le ver @ [0, 1] @ write_compact (length ins) @ enc_ins_outs (ins, outs) @ concat (map encode_witness ws)"

lemma at_marker:
  "at_pos img pos (marker_bytes ver ins outs ws) \<longleftrightarrow>
    at_pos img pos (u32_le ver) \<and> at_pos img (pos + 4) ([0, 1] @ write_compact (length ins))
    \<and> at_pos img (pos + (6 + encoded_len (length ins))) (enc_ins_outs (ins, outs))
    \<and> at_pos img (pos + (6 + encoded_len (length ins)) + length (enc_ins_outs (ins, outs))) (concat (map encode_witness ws))"
  using at_append [of img pos "u32_le ver @ [0, 1] @ write_compact (length ins)" "enc_ins_outs (ins, outs) @ concat (map encode_witness ws)"]
  by (simp add: marker_bytes_def at_append)

lemma at_marker_body:
  "at_pos img pos (marker_bytes ver ins outs ws) \<Longrightarrow> at_pos img (pos + 6) (write_compact (length ins) @ enc_ins_outs (ins, outs))"
  using at_append [of img pos "u32_le ver @ [0, 1]" "write_compact (length ins) @ enc_ins_outs (ins, outs) @ concat (map encode_witness ws)"]
  by (simp add: marker_bytes_def at_append)

lemma marker_tx_rep:
  assumes tx: "tx = \<lparr> tx_version = ver, tx_inputs = with_witness ins ws, tx_outputs = outs, tx_lock_time = lt \<rparr>"
    and at: "at_pos img pos (marker_bytes ver ins outs ws @ u32_le lt)"
    and ins: "list_all bare_input ins" "ins_outs_rep img (pos + (6 + encoded_len (length ins)) + length (enc_ins_outs (ins, outs))) (ls, c, os) (ins, outs)"
    and ws: "length ws = length ins" "list_all2 (\<lambda>l' (l, w). witness_rep img l l' w) ls' (zip ls ws)" "has_witness tx"
    and v: "slice_at img v = Some (u32_le ver)" and l: "slice_at img s4 = Some (u32_le lt)"
    and p: "p = \<lparr> pt_bytes = img, pt_span = span_at pos (marker_bytes ver ins outs ws @ u32_le lt), pt_version_span = v,
      pt_input_count_span = span_at (pos + 6) (write_compact (length ins)), pt_output_count_span = c,
      pt_lock_time_span = s4, pt_segwit = True, pt_inputs = ls', pt_outputs = os \<rparr>"
  shows "decodable tx" "encode_tx tx = marker_bytes ver ins outs ws @ u32_le lt" "tx_rep img pos p tx"
proof -
  note ww = with_witness_simps [OF ws(1)]
  have rep: "list_all2 (full_input_rep img) ls' (with_witness ins ws)"
    using full_witness [OF _ ws(2,1)] ins(2) by (simp add: ins_outs_rep_def)
  have "ins \<noteq> []" using ws(3) by (auto simp: tx has_witness_def with_witness_def)
  then show "decodable tx"
    using ww(1) with_witness_hashes [OF ws(1) ins(1)] by (auto simp: tx decodable_def tx_hashes_wf_def)
  have body: "encode_tx_inputs_and_outputs tx = write_compact (length ins) @ enc_ins_outs (ins, outs)"
    using ins_outs_enc [of tx ins] ww(2) by (simp add: tx)
  have "concat (map (\<lambda>i. encode_witness (in_witness i)) (with_witness ins ws)) = concat (map encode_witness ws)"
    using ww(3) by (metis (no_types) map_map comp_def map_cong)
  then show enc: "encode_tx tx = marker_bytes ver ins outs ws @ u32_le lt"
    using ws(3) body by (simp add: encode_tx_def tx marker_bytes_def)
  have "at_pos img pos (marker_bytes ver ins outs ws)" using at by (simp add: at_append)
  then have "segwit_base_body p = encode_tx_inputs_and_outputs tx" unfolding body
    using ins(2) at_marker_body by (intro segwit_base_body_at) (simp_all add: p ins_outs_rep_def add.assoc)
  then show "tx_rep img pos p tx"
    using enc ws(3) rep ins(2) v l slice_at_span [OF at] by (simp add: tx_rep_def ins_outs_rep_def p) (simp add: tx)
qed

lemma tx_sound_marker:
  assumes at: "at_pos img pos (u32_le ver @ [0, 1] @ write_compact n)"
    and p2: "p2 = pos + (6 + encoded_len n)"
    and io: "parse_ins_outs n None img p2 = Inr ((ls, c, os), p3)"
    and wit: "parse_wits True ls img p3 = Inr (ls', p4)"
    and s: "s = span_at (pos + 6) (write_compact n)"
    and fin: "parse_end pos v s c True os ls' img p4 = Inr (p, pos')"
    and v: "slice_at img v = Some (u32_le ver)"
  shows "\<exists>tx. decodable tx \<and> at_pos img pos (encode_tx tx) \<and> pos' = pos + length (encode_tx tx) \<and> tx_rep img pos p tx"
proof -
  have "p2 \<le> length img" using at_bound [OF at] p2 by simp
  from ins_outs_sound [OF io this] obtain ins outs where io: "length ins = n" "list_all bare_input ins"
    "at_pos img p2 (enc_ins_outs (ins, outs))" "p3 = p2 + length (enc_ins_outs (ins, outs))" "ins_outs_rep img p3 (ls, c, os) (ins, outs)"
    by (metis prod.collapse fst_conv)
  then have "p3 \<le> length img" using at_bound by blast
  from wit have w: "parse_witnesses ls img p3 = Inr (ls', p4)" "\<not> list_all (\<lambda>l. il_witness_items l = 0) ls'"
    by (auto simp: parse_wits_def split: if_splits)
  have len: "length ls = length ins" using io(5) by (auto simp: ins_outs_rep_def list_all2_lengthD)
  from parse_witnesses_sound [OF w(1) \<open>p3 \<le> length img\<close>] obtain ws where ws: "length ws = length ins"
    "at_pos img p3 (concat (map encode_witness ws))" "p4 = p3 + length (concat (map encode_witness ws))"
    "list_all2 (\<lambda>l' (l, w). witness_rep img l l' w) ls' (zip ls ws)" using len by auto
  let ?e = "marker_bytes ver ins outs ws"
  have e: "at_pos img pos ?e" using at p2 io ws by (simp add: at_marker at_append)
  have p4: "p4 = pos + length ?e" using p2 io ws by (simp add: marker_bytes_def)
  from parse_end_sound [OF fin e p4] obtain lt where lt: "at_pos img pos (?e @ u32_le lt)" "pos' = pos + length (?e @ u32_le lt)"
    "p = \<lparr> pt_bytes = img, pt_span = span_at pos (?e @ u32_le lt), pt_version_span = v, pt_input_count_span = s,
        pt_output_count_span = c, pt_lock_time_span = span_at p4 (u32_le lt), pt_segwit = True, pt_inputs = ls', pt_outputs = os \<rparr>"
    "slice_at img (span_at p4 (u32_le lt)) = Some (u32_le lt)" by blast
  let ?tx = "\<lparr> tx_version = ver, tx_inputs = with_witness ins ws, tx_outputs = outs, tx_lock_time = lt \<rparr>"
  have rep: "list_all2 (full_input_rep img) ls' (with_witness ins ws)"
    using full_witness [OF _ ws(4,1)] io(5) by (simp add: ins_outs_rep_def)
  have hw: "has_witness ?tx" using w(2) items_zero [OF rep] by (simp add: has_witness_iff)
  have io': "ins_outs_rep img (pos + (6 + encoded_len (length ins)) + length (enc_ins_outs (ins, outs))) (ls, c, os) (ins, outs)"
    using io p2 by simp
  show ?thesis
    using marker_tx_rep [OF refl lt(1) io(2) io' ws(1,4) hw v lt(4), of p] lt(1-3) io(1) s
    by (intro exI [of _ ?tx]) simp
qed

lemma encode_tx_bare: "list_all bare_input (tx_inputs tx) \<Longrightarrow> encode_tx tx = encode_tx_base tx"
  using bare_no_witness [of "tx_inputs tx"] by (simp add: encode_tx_def has_witness_iff)

lemma plain_tx_rep:
  assumes tx: "tx = \<lparr> tx_version = ver, tx_inputs = ins, tx_outputs = outs, tx_lock_time = lt \<rparr>"
    and e: "e = u32_le ver @ write_compact (length ins) @ enc_ins_outs (ins, outs)"
    and at: "at_pos img pos (e @ u32_le lt)"
    and ins: "list_all bare_input ins" "ins \<noteq> []" "ins_outs_rep img k (ls, c, os) (ins, outs)"
    and v: "slice_at img v = Some (u32_le ver)" and l: "slice_at img s4 = Some (u32_le lt)"
    and p: "p = \<lparr> pt_bytes = img, pt_span = span_at pos (e @ u32_le lt), pt_version_span = v, pt_input_count_span = s,
      pt_output_count_span = c, pt_lock_time_span = s4, pt_segwit = False, pt_inputs = ls, pt_outputs = os \<rparr>"
  shows "decodable tx" "encode_tx tx = e @ u32_le lt" "tx_rep img pos p tx"
proof -
  show "decodable tx" using ins bare_hashes [OF ins(1)] by (simp add: tx decodable_def tx_hashes_wf_def)
  have hw: "\<not> has_witness tx" using bare_no_witness [OF ins(1)] by (simp add: tx has_witness_iff)
  show enc: "encode_tx tx = e @ u32_le lt"
    using encode_tx_bare [of tx] ins(1) ins_outs_enc [of tx ins] by (simp add: encode_tx_base_def tx e)
  show "tx_rep img pos p tx"
    using enc hw full_plain [OF _ ins(1)] ins(3) v l slice_at_span [OF at] by (simp add: tx_rep_def ins_outs_rep_def p) (simp add: tx)
qed

lemma tx_sound_plain:
  assumes at: "at_pos img pos (u32_le ver @ write_compact n)" and n: "n \<noteq> 0"
    and p2: "p2 = pos + (4 + encoded_len n)"
    and io: "parse_ins_outs n None img p2 = Inr ((ls, c, os), p3)"
    and fin: "parse_end pos v s c False os ls img p3 = Inr (p, pos')"
    and v: "slice_at img v = Some (u32_le ver)"
  shows "\<exists>tx. decodable tx \<and> at_pos img pos (encode_tx tx) \<and> pos' = pos + length (encode_tx tx) \<and> tx_rep img pos p tx"
proof -
  have "p2 \<le> length img" using at_bound [OF at] p2 by simp
  from ins_outs_sound [OF io this] obtain ins outs where io: "length ins = n" "list_all bare_input ins"
    "at_pos img p2 (enc_ins_outs (ins, outs))" "p3 = p2 + length (enc_ins_outs (ins, outs))" "ins_outs_rep img p3 (ls, c, os) (ins, outs)"
    by (metis prod.collapse fst_conv)
  let ?e = "u32_le ver @ write_compact (length ins) @ enc_ins_outs (ins, outs)"
  have e: "at_pos img pos ?e" "p3 = pos + length ?e" using at p2 io by (simp_all add: at_append add.assoc)
  from parse_end_sound [OF fin e] obtain lt where lt: "at_pos img pos (?e @ u32_le lt)" "pos' = pos + length (?e @ u32_le lt)"
    "p = \<lparr> pt_bytes = img, pt_span = span_at pos (?e @ u32_le lt), pt_version_span = v, pt_input_count_span = s,
        pt_output_count_span = c, pt_lock_time_span = span_at p3 (u32_le lt), pt_segwit = False, pt_inputs = ls, pt_outputs = os \<rparr>"
    "slice_at img (span_at p3 (u32_le lt)) = Some (u32_le lt)" by blast
  have "ins \<noteq> []" using n io(1) by auto
  from plain_tx_rep [OF refl refl lt(1) io(2) this io(5) v lt(4) lt(3)] show ?thesis
    using lt(1,2) by metis
qed

lemma tx_sound_empty:
  assumes at: "at_pos img pos (u32_le ver @ [0, 0])" and p2: "p2 = pos + 6"
    and io: "parse_ins_outs 0 (Some (0, fs)) img p2 = Inr ((ls, c, os), p3)"
    and fin: "parse_end pos v s c False os ls img p3 = Inr (p, pos')"
    and v: "slice_at img v = Some (u32_le ver)"
  shows "\<exists>tx. decodable tx \<and> at_pos img pos (encode_tx tx) \<and> pos' = pos + length (encode_tx tx) \<and> tx_rep img pos p tx"
proof -
  have io: "ls = []" "os = []" "p3 = p2" using io by (auto simp: parse_ins_outs_def parse_output_count_def)
  have "p3 = pos + length (u32_le ver @ [0, 0])" using io p2 by simp
  from parse_end_sound [OF fin at this] obtain lt where lt: "at_pos img pos ((u32_le ver @ [0, 0]) @ u32_le lt)"
    "pos' = pos + length ((u32_le ver @ [0, 0]) @ u32_le lt)"
    "p = \<lparr> pt_bytes = img, pt_span = span_at pos ((u32_le ver @ [0, 0]) @ u32_le lt), pt_version_span = v, pt_input_count_span = s,
        pt_output_count_span = c, pt_lock_time_span = span_at p3 (u32_le lt), pt_segwit = False, pt_inputs = ls, pt_outputs = os \<rparr>"
    "slice_at img (span_at p3 (u32_le lt)) = Some (u32_le lt)" by blast
  let ?tx = "\<lparr> tx_version = ver, tx_inputs = [], tx_outputs = [], tx_lock_time = lt \<rparr>"
  have enc: "encode_tx ?tx = (u32_le ver @ [0, 0]) @ u32_le lt"
    by (simp add: encode_tx_def has_witness_def encode_tx_base_def encode_tx_inputs_and_outputs_def write_compact_0)
  have "tx_rep img pos p ?tx"
    using enc lt v slice_at_span [OF lt(1)] by (simp add: tx_rep_def has_witness_def io)
  then show ?thesis
    using enc lt(1,2) by (intro exI [of _ ?tx]) (simp add: decodable_def tx_hashes_wf_def)
qed

lemma tx_sound:
  assumes "parse_tx_at img pos = Inr (p, pos')"
  shows "\<exists>tx. decodable tx \<and> at_pos img pos (encode_tx tx) \<and> pos' = pos + length (encode_tx tx) \<and> tx_rep img pos p tx"
proof -
  obtain v p1 n s ov segwit p2 ls c os p3 ls' p4 where t: "cursor_take 4 img pos = Inr (v, p1)"
    "parse_input_count img p1 = Inr ((n, s, ov, segwit), p2)" "parse_ins_outs n ov img p2 = Inr ((ls, c, os), p3)"
    "parse_wits segwit ls img p3 = Inr (ls', p4)" "parse_end pos v s c segwit os ls' img p4 = Inr (p, pos')"
    using assms unfolding parse_tx_at_parts by auto
  obtain e where e: "at_pos img pos e" "length e = 4" "v = span_at pos e" "p1 = pos + length e"
    using t(1) by (rule cursor_take_sound)
  obtain ver where ver: "e = u32_le ver" using u32_le_of_le [OF e(2)] by metis
  have v: "slice_at img v = Some (u32_le ver)" using slice_at_span [OF e(1)] e(3) ver by simp
  note e = e [unfolded ver]
  from parse_input_count_sound [OF t(2)] show ?thesis
  proof cases
    case marker
    then show ?thesis
      using t e v by (intro tx_sound_marker [of img pos ver n p2 ls c os p3 ls' p4 s v p pos']) (simp_all add: at_append)
  next
    case plain
    then show ?thesis
      using t e v by (intro tx_sound_plain [of img pos ver n p2 ls c os p3 v s p pos']) (simp_all add: at_append parse_wits_def)
  next
    case empty
    then show ?thesis
      using t e v by (intro tx_sound_empty [of img pos ver p2 "snd (the ov)" ls c os p3 v s p pos']) (simp_all add: at_append parse_wits_def)
  qed
qed

lemma split_witness:
  "ins = with_witness (map (\<lambda>i. i\<lparr>in_witness := []\<rparr>) ins) (map in_witness ins)"
  by (induction ins) (simp_all add: with_witness_def)

lemma tx_complete_marker:
  assumes at: "at_pos img pos (encode_tx tx)" and dec: "decodable tx" and hw: "has_witness tx" and fits: "length img \<le> u32_max"
  shows "\<exists>p. parse_tx_at img pos = Inr (p, pos + length (encode_tx tx)) \<and> tx_rep img pos p tx"
proof -
  let ?ins = "map (\<lambda>i. i\<lparr>in_witness := []\<rparr>) (tx_inputs tx)" and ?ws = "map in_witness (tx_inputs tx)"
  let ?outs = "tx_outputs tx" and ?ver = "tx_version tx" and ?lt = "tx_lock_time tx"
  let ?e = "marker_bytes ?ver ?ins ?outs ?ws" and ?n = "length (tx_inputs tx)"
  let ?p2 = "pos + (6 + encoded_len ?n)"
  let ?p3 = "?p2 + length (enc_ins_outs (?ins, ?outs))"
  let ?p4 = "?p3 + length (concat (map encode_witness ?ws))"
  have bare: "list_all bare_input ?ins" using dec by (auto simp: list_all_iff bare_input_def decodable_def tx_hashes_wf_def)
  have tx: "tx = \<lparr> tx_version = ?ver, tx_inputs = with_witness ?ins ?ws, tx_outputs = ?outs, tx_lock_time = ?lt \<rparr>"
    unfolding split_witness [symmetric] by simp
  have ws: "length ?ws = length ?ins" by simp
  have body: "encode_tx_inputs_and_outputs tx = write_compact ?n @ enc_ins_outs (?ins, ?outs)"
    using ins_outs_enc [of tx ?ins] with_witness_simps(2) [OF ws] split_witness [of "tx_inputs tx"] by simp
  have enc: "encode_tx tx = ?e @ u32_le ?lt"
    using hw body by (simp add: encode_tx_def marker_bytes_def comp_def)
  then have at: "at_pos img pos (?e @ u32_le ?lt)" using at by simp
  then have e: "at_pos img pos ?e" by (simp add: at_append)
  note parts = e [unfolded at_marker, simplified length_map]
  have p4: "?p4 = pos + length ?e" by (simp add: marker_bytes_def)
  have v: "cursor_take 4 img pos = Inr (span_at pos (u32_le ?ver), pos + 4)"
    using cursor_take_at [OF conjunct1 [OF parts] fits, of 4] by simp
  have "?n \<le> length (concat (map encode_txin ?ins))"
    using min_len_concat [of 1 encode_txin ?ins] bare txin_min_len by (force simp: list_all_iff)
  then have "?n < 2 ^ 64" using parts at_bound fits by (fastforce simp: enc_ins_outs_def u32_max_def)
  then have "count_rep img (pos + 4) (?n, span_at (pos + 4 + 2) (write_compact ?n), None, True) ?p2"
    using parts by (intro count_rep.marker) simp_all
  moreover have "pos + 4 + 2 = pos + 6" by simp
  ultimately have cnt: "parse_input_count img (pos + 4) = Inr ((?n, span_at (pos + 6) (write_compact ?n), None, True), ?p2)"
    using parse_input_count_complete [OF _ fits] by metis
  from ins_outs_complete [OF _ _ fits, of ?p2 "(?ins, ?outs)"] parts bare obtain ls c os where
    io: "parse_ins_outs ?n None img ?p2 = Inr ((ls, c, os), ?p3)" "ins_outs_rep img ?p3 (ls, c, os) (?ins, ?outs)" by auto
  have "length ?ws = length ls" using io(2) by (auto simp: ins_outs_rep_def dest!: list_all2_lengthD)
  from parse_witnesses_complete [OF this _ fits, of ?p3] parts obtain ls' where
    w: "parse_witnesses ls img ?p3 = Inr (ls', ?p4)" "list_all2 (\<lambda>l' (l, w). witness_rep img l l' w) ls' (zip ls ?ws)" by auto
  have "list_all2 (full_input_rep img) ls' (tx_inputs tx)"
    using full_witness [OF _ w(2) ws] io(2) unfolding split_witness [symmetric] by (simp add: ins_outs_rep_def)
  from items_zero [OF this] have "\<not> list_all (\<lambda>l. il_witness_items l = 0) ls'" using hw by (simp add: has_witness_iff)
  then have w': "parse_wits True ls img ?p3 = Inr (ls', ?p4)" using w(1) by (simp add: parse_wits_def)
  have "parse_tx_at img pos = parse_end pos (span_at pos (u32_le ?ver)) (span_at (pos + 6) (write_compact ?n)) c True os ls' img ?p4"
    unfolding parse_tx_at_parts v bindE_simps prod.case cnt io(1) w' ..
  also have "\<dots> = Inr (\<lparr> pt_bytes = img, pt_span = span_at pos (?e @ u32_le ?lt), pt_version_span = span_at pos (u32_le ?ver),
      pt_input_count_span = span_at (pos + 6) (write_compact ?n), pt_output_count_span = c, pt_lock_time_span = span_at ?p4 (u32_le ?lt),
      pt_segwit = True, pt_inputs = ls', pt_outputs = os \<rparr>, pos + length (encode_tx tx))"
    unfolding enc by (rule parse_end_complete [OF at p4 fits])
  finally have run: "parse_tx_at img pos = \<dots>" .
  have "at_pos img ?p4 (u32_le ?lt)" using at unfolding p4 by (simp only: at_append)
  then show ?thesis
    using run marker_tx_rep(3) [OF tx at bare _ ws w(2) hw slice_at_span [OF conjunct1 [OF parts]] slice_at_span refl, of c os ?p4]
      io(2) unfolding length_map by blast
qed

lemma tx_complete_plain:
  assumes at: "at_pos img pos (encode_tx tx)" and dec: "decodable tx" and hw: "\<not> has_witness tx" and ne: "tx_inputs tx \<noteq> []"
    and fits: "length img \<le> u32_max"
  shows "\<exists>p. parse_tx_at img pos = Inr (p, pos + length (encode_tx tx)) \<and> tx_rep img pos p tx"
proof -
  let ?ins = "tx_inputs tx" and ?outs = "tx_outputs tx" and ?ver = "tx_version tx" and ?lt = "tx_lock_time tx"
  let ?n = "length ?ins"
  let ?e = "u32_le ?ver @ write_compact ?n @ enc_ins_outs (?ins, ?outs)"
  let ?p2 = "pos + (4 + encoded_len ?n)"
  let ?p3 = "?p2 + length (enc_ins_outs (?ins, ?outs))"
  have bare: "list_all bare_input ?ins"
    using dec hw by (auto simp: list_all_iff bare_input_def decodable_def tx_hashes_wf_def has_witness_iff)
  have enc: "encode_tx tx = ?e @ u32_le ?lt"
    using encode_tx_bare [OF bare] ins_outs_enc [of tx ?ins] by (simp add: encode_tx_base_def)
  then have at: "at_pos img pos (?e @ u32_le ?lt)" using at by simp
  then have e: "at_pos img pos (u32_le ?ver)" "at_pos img (pos + 4) (write_compact ?n)" "at_pos img ?p2 (enc_ins_outs (?ins, ?outs))"
    by (simp_all add: at_append add.assoc)
  have p3: "?p3 = pos + length ?e" by simp
  have v: "cursor_take 4 img pos = Inr (span_at pos (u32_le ?ver), pos + 4)"
    using cursor_take_at [OF e(1) fits, of 4] by simp
  have "?n \<le> length (concat (map encode_txin ?ins))"
    using min_len_concat [of 1 encode_txin ?ins] bare txin_min_len by (force simp: list_all_iff)
  then have "?n < 2 ^ 64" using at_bound [OF e(3)] fits by (simp add: enc_ins_outs_def u32_max_def)
  then have "count_rep img (pos + 4) (?n, span_at (pos + 4) (write_compact ?n), None, False) ?p2"
    using e ne by (intro count_rep.plain) simp_all
  then have cnt: "parse_input_count img (pos + 4) = Inr ((?n, span_at (pos + 4) (write_compact ?n), None, False), ?p2)"
    using parse_input_count_complete [OF _ fits] by metis
  from ins_outs_complete [OF e(3) _ fits] bare obtain ls c os where
    io: "parse_ins_outs ?n None img ?p2 = Inr ((ls, c, os), ?p3)" "ins_outs_rep img ?p3 (ls, c, os) (?ins, ?outs)" by auto
  have w: "parse_wits False ls img ?p3 = Inr (ls, ?p3)" by (simp add: parse_wits_def)
  have "parse_tx_at img pos = parse_end pos (span_at pos (u32_le ?ver)) (span_at (pos + 4) (write_compact ?n)) c False os ls img ?p3"
    unfolding parse_tx_at_parts v bindE_simps prod.case cnt io(1) w ..
  also have "\<dots> = Inr (\<lparr> pt_bytes = img, pt_span = span_at pos (?e @ u32_le ?lt), pt_version_span = span_at pos (u32_le ?ver),
      pt_input_count_span = span_at (pos + 4) (write_compact ?n), pt_output_count_span = c, pt_lock_time_span = span_at ?p3 (u32_le ?lt),
      pt_segwit = False, pt_inputs = ls, pt_outputs = os \<rparr>, pos + length (encode_tx tx))"
    unfolding enc by (rule parse_end_complete [OF at p3 fits])
  finally have run: "parse_tx_at img pos = \<dots>" .
  have "at_pos img ?p3 (u32_le ?lt)" using at unfolding p3 by (simp only: at_append)
  moreover have "tx = \<lparr> tx_version = ?ver, tx_inputs = ?ins, tx_outputs = ?outs, tx_lock_time = ?lt \<rparr>" by simp
  ultimately show ?thesis
    using run plain_tx_rep(3) [OF _ refl at bare ne io(2) slice_at_span [OF e(1)] slice_at_span refl] by blast
qed

lemma tx_complete_empty:
  assumes at: "at_pos img pos (encode_tx tx)" and ne: "tx_inputs tx = []" "tx_outputs tx = []" and fits: "length img \<le> u32_max"
  shows "\<exists>p. parse_tx_at img pos = Inr (p, pos + length (encode_tx tx)) \<and> tx_rep img pos p tx"
proof -
  let ?ver = "tx_version tx" and ?lt = "tx_lock_time tx"
  let ?e = "u32_le ?ver @ [0, 0]" and ?s = "span_at (pos + 4 + 1) [0]"
  have enc: "encode_tx tx = ?e @ u32_le ?lt"
    by (simp add: encode_tx_def has_witness_def encode_tx_base_def encode_tx_inputs_and_outputs_def write_compact_0 ne)
  then have at: "at_pos img pos (?e @ u32_le ?lt)" using at by simp
  then have e: "at_pos img pos (u32_le ?ver)" "at_pos img (pos + 4) [0, 0]"
    using at_append [of img pos ?e "u32_le ?lt"] at_append [of img pos "u32_le ?ver" "[0, 0]"] by simp_all
  have p3: "pos + 4 + 2 = pos + length ?e" by simp
  have v: "cursor_take 4 img pos = Inr (span_at pos (u32_le ?ver), pos + 4)"
    using cursor_take_at [OF e(1) fits, of 4] by simp
  have cnt: "parse_input_count img (pos + 4) = Inr ((0, span_at (pos + 4) [0], Some (0, ?s), False), pos + 4 + 2)"
    by (rule parse_input_count_complete [OF count_rep.empty [OF e(2) refl] fits])
  have io: "parse_ins_outs 0 (Some (0, ?s)) img (pos + 4 + 2) = Inr (([], ?s, []), pos + 4 + 2)"
    by (simp add: parse_ins_outs_def parse_output_count_def require_count_def sat_mul_def)
  have w: "parse_wits False [] img (pos + 4 + 2) = Inr ([], pos + 4 + 2)" by (simp add: parse_wits_def)
  have "parse_tx_at img pos = parse_end pos (span_at pos (u32_le ?ver)) (span_at (pos + 4) [0]) ?s False [] [] img (pos + 4 + 2)"
    unfolding parse_tx_at_parts v bindE_simps prod.case cnt io w ..
  also have "\<dots> = Inr (\<lparr> pt_bytes = img, pt_span = span_at pos (?e @ u32_le ?lt), pt_version_span = span_at pos (u32_le ?ver),
      pt_input_count_span = span_at (pos + 4) [0], pt_output_count_span = ?s, pt_lock_time_span = span_at (pos + 4 + 2) (u32_le ?lt),
      pt_segwit = False, pt_inputs = [], pt_outputs = [] \<rparr>, pos + length (encode_tx tx))"
    unfolding enc by (rule parse_end_complete [OF at p3 fits])
  finally have run: "parse_tx_at img pos = \<dots>" .
  have "at_pos img (pos + 4 + 2) (u32_le ?lt)" using at unfolding p3 by (simp only: at_append)
  from slice_at_span [OF this] slice_at_span [OF e(1)] slice_at_span [OF at] have
    "tx_rep img pos \<lparr> pt_bytes = img, pt_span = span_at pos (?e @ u32_le ?lt), pt_version_span = span_at pos (u32_le ?ver),
      pt_input_count_span = span_at (pos + 4) [0], pt_output_count_span = ?s, pt_lock_time_span = span_at (pos + 4 + 2) (u32_le ?lt),
      pt_segwit = False, pt_inputs = [], pt_outputs = [] \<rparr> tx"
    by (simp add: tx_rep_def has_witness_def ne enc)
  then show ?thesis using run by blast
qed

lemma tx_complete:
  assumes "at_pos img pos (encode_tx tx)" "decodable tx" "length img \<le> u32_max"
  shows "\<exists>p. parse_tx_at img pos = Inr (p, pos + length (encode_tx tx)) \<and> tx_rep img pos p tx"
proof (cases "tx_inputs tx = []")
  case True
  then show ?thesis using assms tx_complete_empty by (simp add: decodable_def)
next
  case False
  then show ?thesis using assms tx_complete_marker tx_complete_plain by blast
qed

interpretation tx: span_codec parse_tx_at encode_tx decodable tx_rep
  using tx_sound tx_complete by unfold_locales auto

section \<open>What is copied out\<close>

lemma ok_simps [simp]: "ok (Inr x) = Some x" "ok (Inl e) = None"
  by (simp_all add: ok_def)

lemma those_all2: "list_all2 (\<lambda>x v. f x = Some v) xs vs \<Longrightarrow> those (map f xs) = Some vs"
  by (induction xs vs rule: list_all2_induct) auto

lemma take_bytes_append: "n = length e \<Longrightarrow> take_bytes n (e @ rest) = Inr (e, rest)"
  by (simp add: take_bytes_def)

lemma read_u32_le_bytes [simp]: "read_u32_le (u32_le w) = Inr (w, [])"
  using take_bytes_append [of 4 "u32_le w" "[]"] by (simp add: read_u32_le_def)

lemma read_u64_le_bytes [simp]: "read_u64_le (u64_le w) = Inr (w, [])"
  using take_bytes_append [of 8 "u64_le w" "[]"] by (simp add: read_u64_le_def)

lemma materialize_witness_rep:
  assumes "full_input_rep (pt_bytes p) (pt_inputs p ! k) i" "k < length (pt_inputs p)" "length (pt_bytes p) \<le> u32_max"
  shows "materialize_witness p k = Some (in_witness i)"
proof -
  obtain xs where xs: "repeat_cursor parse_item (length (in_witness i)) (pt_bytes p) (span_start (il_witness (pt_inputs p ! k))) =
      Inr (xs, span_start (il_witness (pt_inputs p ! k)) + length (concat (map write_script (in_witness i))))"
    "reps item_rep write_script (pt_bytes p) (span_start (il_witness (pt_inputs p ! k))) xs (in_witness i)"
    using item.repeat_complete [of "pt_bytes p" "span_start (il_witness (pt_inputs p ! k))" "in_witness i"] assms
    by (auto simp: full_input_rep_def list_all_iff)
  have "list_all2 (\<lambda>s v. slice_at (pt_bytes p) s = Some v) xs (in_witness i)"
    by (rule reps_all2 [OF _ xs(2)]) (simp add: item_rep_def)
  from those_all2 [OF this] show ?thesis
    using xs(1) assms(1,2) by (simp add: materialize_witness_def witness_item_spans_def get_at_def full_input_rep_def)
qed

lemma materialize_input_rep:
  assumes "full_input_rep (pt_bytes p) (pt_inputs p ! k) i" "k < length (pt_inputs p)" "length (pt_bytes p) \<le> u32_max"
    "length (op_txid (in_prevout i)) = 32"
  shows "materialize_input p (k, pt_inputs p ! k) = Some i"
  using assms(1,4) materialize_witness_rep [OF assms(1-3)] take_bytes_append [of 32 "op_txid (in_prevout i)"]
  by (simp add: materialize_input_def full_input_rep_def encode_outpoint_def)

lemma materialize_rep:
  assumes "tx_rep img pos p tx" "tx_hashes_wf tx" "length img \<le> u32_max"
  shows "materialize p = Some tx"
proof -
  have b: "pt_bytes p = img" and ins: "list_all2 (full_input_rep img) (pt_inputs p) (tx_inputs tx)"
    and outs: "list_all2 (\<lambda>l out. \<exists>p. output_rep img p l out) (pt_outputs p) (tx_outputs tx)"
    using assms(1) by (auto simp: tx_rep_def)
  have "list_all2 (\<lambda>x i. materialize_input p x = Some i) (enumerate 0 (pt_inputs p)) (tx_inputs tx)"
    using ins assms(2,3) b
    by (auto simp: list_all2_conv_all_nth nth_enumerate_eq tx_hashes_wf_def list_all_length intro!: materialize_input_rep)
  moreover have "list_all2 (\<lambda>l out. materialize_output p l = Some out) (pt_outputs p) (tx_outputs tx)"
    using outs by (rule list_all2_mono) (auto simp: output_rep_def materialize_output_def b)
  ultimately show ?thesis
    using assms(1) by (simp add: materialize_def tx_rep_def those_all2)
qed

lemma parsed_txid_rep: "tx_rep img pos p tx \<Longrightarrow> parsed_txid sh p = Some (txid sh tx)"
  by (auto simp: tx_rep_def parsed_txid_def txid_def encode_tx_def encode_tx_base_def)

lemma base_size_rep: "tx_rep img pos p tx \<Longrightarrow> base_size p = Some (length (encode_tx_base tx))"
  by (auto simp: tx_rep_def base_size_def encode_tx_def encode_tx_base_def)

lemma stripped_parts_rep: "tx_rep img pos p tx \<Longrightarrow> map_option concat (stripped_parts p) = Some (encode_tx_base tx)"
  by (auto simp: tx_rep_def stripped_parts_def encode_tx_def encode_tx_base_def)

section \<open>Blocks are read back\<close>

definition decodable_block :: "Block \<Rightarrow> bool" where
  "decodable_block b \<longleftrightarrow> length (h_prev_blockhash (b_header b)) = 32 \<and> length (h_merkle_root (b_header b)) = 32
     \<and> list_all decodable (b_txs b)"

definition block_rep :: "bytes \<Rightarrow> nat \<Rightarrow> ParsedBlock \<Rightarrow> Block \<Rightarrow> bool" where
  "block_rep img pos p b \<longleftrightarrow> pb_bytes p = img \<and> slice_at img (pb_header_span p) = Some (header_to_bytes (b_header b))
     \<and> list_all2 (\<lambda>p tx. \<exists>k. tx_rep img k p tx) (pb_txs p) (b_txs b) \<and> pb_tx_spans p = map pt_span (pb_txs p)
     \<and> pb_consumed p = pos + length (encode_block b) \<and> span_len (pb_tx_count_span p) = encoded_len (length (b_txs b))"

lemma block_sound:
  assumes "parse_block_at img pos = Inr (p, pos')"
  shows "\<exists>b. decodable_block b \<and> at_pos img pos (encode_block b) \<and> pos' = pos + length (encode_block b) \<and> block_rep img pos p b"
proof -
  obtain s p1 n c p2 ps where h: "cursor_take 80 img pos = Inr (s, p1)" and c: "read_compact img p1 = Inr ((n, c), p2)"
    and t: "repeat_cursor parse_tx_at n img p2 = Inr (ps, pos')"
    and p: "p = \<lparr> pb_bytes = img, pb_header_span = s, pb_tx_count_span = c, pb_tx_spans = map pt_span ps, pb_txs = ps, pb_consumed = pos' \<rparr>"
    using assms by (auto simp: parse_block_at_def)
  obtain e where e: "at_pos img pos e" "length e = 80" "s = span_at pos e" "p1 = pos + length e"
    using h by (rule cursor_take_sound)
  note c = read_compact_sound [OF c]
  then have "p2 \<le> length img" using at_bound by blast
  from tx.repeat_sound [OF t this] obtain txs where txs: "length txs = n" "list_all decodable txs"
    "at_pos img p2 (concat (map encode_tx txs))" "pos' = p2 + length (concat (map encode_tx txs))" "reps tx_rep encode_tx img p2 ps txs"
    by blast
  let ?b = "\<lparr> b_header = header_from_bytes e, b_txs = txs \<rparr>"
  have enc: "encode_block ?b = e @ write_compact n @ concat (map encode_tx txs)"
    using header_to_from_bytes [OF e(2)] txs(1) by (simp add: encode_block_def)
  have "list_all2 (\<lambda>p tx. \<exists>k. tx_rep img k p tx) ps txs" by (rule reps_all2 [OF _ txs(5)]) blast
  then have "block_rep img pos p ?b"
    using e slice_at_span [OF e(1)] c txs(1,4) header_to_from_bytes [OF e(2)] by (simp add: block_rep_def p enc)
  moreover have "at_pos img pos (encode_block ?b)" "pos' = pos + length (encode_block ?b)"
    unfolding enc using e c txs by (simp_all add: at_append)
  moreover have "decodable_block ?b"
    using e(2) txs(2) by (simp add: decodable_block_def header_from_bytes_def)
  ultimately show ?thesis by blast
qed

lemma encode_tx_min_len: "tx_hashes_wf tx \<Longrightarrow> MIN_TX_LEN \<le> length (encode_tx tx)"
  using encoded_len_pos [of "length (tx_inputs tx)"] encoded_len_pos [of "length (tx_outputs tx)"]
  by (auto simp: encode_tx_def encode_tx_base_def encode_tx_inputs_and_outputs_def simp del: encoded_len_pos)

lemma block_complete:
  assumes "at_pos img pos (encode_block b)" "decodable_block b" "length img \<le> u32_max"
  shows "\<exists>p. parse_block_at img pos = Inr (p, pos + length (encode_block b)) \<and> block_rep img pos p b"
proof -
  let ?h = "header_to_bytes (b_header b)" and ?c = "write_compact (length (b_txs b))" and ?t = "concat (map encode_tx (b_txs b))"
  have len: "80 = length ?h" using assms(2) length_header_to_bytes by (simp add: decodable_block_def)
  have a: "at_pos img pos ?h" "at_pos img (pos + length ?h) ?c" "at_pos img (pos + length ?h + length ?c) ?t"
    using assms(1) by (simp_all only: encode_block_def at_append)
  have min: "list_all (\<lambda>tx. MIN_TX_LEN \<le> length (encode_tx tx)) (b_txs b)"
    using assms(2) encode_tx_min_len by (auto simp: list_all_iff decodable_block_def decodable_def)
  have "length (b_txs b) < 2 ^ 64"
    using min_len_concat [OF min] at_bound [OF a(3)] assms(3) by (simp add: u32_max_def)
  note c = read_compact_at [OF a(2) assms(3) this]
  obtain ps where ps: "repeat_cursor parse_tx_at (length (b_txs b)) img (pos + length ?h + length ?c) = Inr (ps, pos + length ?h + length ?c + length ?t)"
      "reps tx_rep encode_tx img (pos + length ?h + length ?c) ps (b_txs b)"
    using tx.repeat_complete [OF a(3) _ assms(3)] assms(2) by (auto simp: decodable_block_def)
  have rep: "list_all2 (\<lambda>p tx. \<exists>k. tx_rep img k p tx) ps (b_txs b)" by (rule reps_all2 [OF _ ps(2)]) blast
  have "parse_block_at img pos = Inr (\<lparr> pb_bytes = img, pb_header_span = span_at pos ?h, pb_tx_count_span = span_at (pos + length ?h) ?c,
      pb_tx_spans = map pt_span ps, pb_txs = ps, pb_consumed = pos + length ?h + length ?c + length ?t \<rparr>,
      pos + length ?h + length ?c + length ?t)"
    unfolding parse_block_at_def cursor_take_at [OF a(1) assms(3) len] bindE_simps prod.case c require_count_at [OF a(3) min] ps(1) ..
  then show ?thesis
    using rep slice_at_span [OF a(1)] by (auto simp: block_rep_def encode_block_def)
qed

interpretation block: span_codec parse_block_at encode_block decodable_block block_rep
  using block_sound block_complete by unfold_locales auto

lemma materialize_block_rep:
  assumes "block_rep img pos p b" "decodable_block b" "length img \<le> u32_max"
  shows "materialize_block p = Some b"
proof -
  have "list_all2 (\<lambda>p tx. materialize p = Some tx) (pb_txs p) (b_txs b)"
    using assms materialize_rep
    by (fastforce simp: block_rep_def list_all2_conv_all_nth decodable_block_def decodable_def list_all_length)
  moreover have "decode_header (header_to_bytes (b_header b)) = Inr (b_header b, [])"
    using take_bytes_append [of 80 "header_to_bytes (b_header b)" "[]"] assms(2) length_header_to_bytes header_from_to_bytes
    by (simp add: decode_header_def decodable_block_def)
  ultimately show ?thesis
    using assms(1) by (simp add: materialize_block_def block_rep_def those_all2)
qed

section \<open>One encoding per value\<close>

lemma at_self: "at_pos (e @ rest) 0 e"
  by (simp add: at_pos_def)

lemma parse_exact_tx:
  assumes "parse_exact parse_tx_at bs = Inr p"
  obtains tx where "decodable tx" "bs = encode_tx tx" "tx_rep bs 0 p tx"
proof -
  have "parse_tx_at bs 0 = Inr (p, length bs)" using assms by (auto simp: parse_exact_def split: if_splits)
  then show thesis using tx_sound [of bs 0 p] at_whole that by (metis add_0)
qed

lemma decode_tx_iff:
  assumes "length bs \<le> u32_max"
  shows "deserialize decode_tx bs = Inr x \<longleftrightarrow> (\<exists>tx. x = Some tx \<and> bs = encode_tx tx \<and> decodable tx)"
proof
  assume "deserialize decode_tx bs = Inr x"
  then obtain p n where p: "parse_tx_at bs 0 = Inr (p, n)" "length bs \<le> n" "x = materialize p"
    by (auto simp: deserialize_def decode_tx_def parse_tx_def split: if_splits)
  from tx_sound [OF p(1)] obtain tx where tx: "decodable tx" "at_pos bs 0 (encode_tx tx)" "n = length (encode_tx tx)" "tx_rep bs 0 p tx"
    by auto
  then have "encode_tx tx = bs" using p(2) at_bound [OF tx(2)] by (intro at_whole) simp_all
  moreover have "x = Some tx" using materialize_rep [OF tx(4) _ assms] tx(1) p(3) by (simp add: decodable_def)
  ultimately show "\<exists>tx. x = Some tx \<and> bs = encode_tx tx \<and> decodable tx" using tx(1) by blast
next
  assume "\<exists>tx. x = Some tx \<and> bs = encode_tx tx \<and> decodable tx"
  then obtain tx where tx: "x = Some tx" "bs = encode_tx tx" "decodable tx" by blast
  have "at_pos bs 0 (encode_tx tx)" using at_self [of "encode_tx tx" "[]"] tx(2) by simp
  from tx_complete [OF this tx(3) assms] obtain p where p: "parse_tx_at bs 0 = Inr (p, length bs)" "tx_rep bs 0 p tx"
    using tx(2) by auto
  then show "deserialize decode_tx bs = Inr x"
    using materialize_rep [OF p(2) _ assms] tx by (simp add: deserialize_def decode_tx_def parse_tx_def decodable_def)
qed

lemma decode_block_iff:
  assumes "length bs \<le> u32_max"
  shows "deserialize decode_block bs = Inr x \<longleftrightarrow> (\<exists>b. x = Some b \<and> bs = encode_block b \<and> decodable_block b)"
proof
  assume "deserialize decode_block bs = Inr x"
  then obtain p n where p: "parse_block_at bs 0 = Inr (p, n)" "length bs \<le> n" "x = materialize_block p"
    by (auto simp: deserialize_def decode_block_def parse_block_def split: if_splits)
  from block_sound [OF p(1)] obtain b where b: "decodable_block b" "at_pos bs 0 (encode_block b)" "n = length (encode_block b)" "block_rep bs 0 p b"
    by auto
  then have "encode_block b = bs" using p(2) at_bound [OF b(2)] by (intro at_whole) simp_all
  moreover have "x = Some b" using materialize_block_rep [OF b(4,1) assms] p(3) by simp
  ultimately show "\<exists>b. x = Some b \<and> bs = encode_block b \<and> decodable_block b" using b(1) by blast
next
  assume "\<exists>b. x = Some b \<and> bs = encode_block b \<and> decodable_block b"
  then obtain b where b: "x = Some b" "bs = encode_block b" "decodable_block b" by blast
  have "at_pos bs 0 (encode_block b)" using at_self [of "encode_block b" "[]"] b(2) by simp
  from block_complete [OF this b(3) assms] obtain p where p: "parse_block_at bs 0 = Inr (p, length bs)" "block_rep bs 0 p b"
    using b(2) by auto
  then show "deserialize decode_block bs = Inr x"
    using materialize_block_rep [OF p(2) b(3) assms] b(1) by (simp add: deserialize_def decode_block_def parse_block_def)
qed

lemma encode_tx_inj:
  "encode_tx a = encode_tx b \<Longrightarrow> decodable a \<Longrightarrow> decodable b \<Longrightarrow> length (encode_tx a) \<le> u32_max \<Longrightarrow> a = b"
  using decode_tx_iff [of "encode_tx a" "Some a"] decode_tx_iff [of "encode_tx a" "Some b"] by auto

definition strip_witness :: "Tx \<Rightarrow> Tx" where
  "strip_witness tx = tx\<lparr>tx_inputs := map (\<lambda>i. i\<lparr>in_witness := []\<rparr>) (tx_inputs tx)\<rparr>"

lemma encode_strip: "encode_tx (strip_witness tx) = encode_tx_base tx"
  by (simp add: strip_witness_def encode_tx_def has_witness_def list_ex_iff encode_tx_base_def
      encode_tx_inputs_and_outputs_def comp_def encode_txin_def [abs_def])

lemma decodable_strip: "decodable tx \<Longrightarrow> decodable (strip_witness tx)"
  by (simp add: strip_witness_def decodable_def tx_hashes_wf_def list_all_iff)

lemma encode_tx_base_inj:
  "encode_tx_base a = encode_tx_base b \<Longrightarrow> decodable a \<Longrightarrow> decodable b \<Longrightarrow> length (encode_tx_base a) \<le> u32_max \<Longrightarrow>
    strip_witness a = strip_witness b"
  by (intro encode_tx_inj) (simp_all add: encode_strip decodable_strip)

text \<open>No encoding of a block is a proper prefix of another, so a truncated one is an error.\<close>

lemma truncated_block:
  assumes "decodable_block b" "length (encode_block b) \<le> u32_max" "n < length (encode_block b)"
  shows "\<exists>e. deserialize decode_block (take n (encode_block b)) = Inl e"
proof (rule ccontr)
  let ?img = "encode_block b"
  assume "\<not> ?thesis"
  then obtain x where "deserialize decode_block (take n ?img) = Inr x" by (cases "deserialize decode_block (take n ?img)") auto
  moreover have "length (take n ?img) \<le> u32_max" using assms(2) by simp
  ultimately obtain c where c: "take n ?img = encode_block c" "decodable_block c" using decode_block_iff by blast
  have "?img = encode_block c @ drop n ?img" using c(1) by (metis append_take_drop_id)
  then have "at_pos ?img 0 (encode_block c)" "at_pos ?img 0 ?img" using at_self [of "encode_block c" "drop n ?img"] at_self [of ?img "[]"] by simp_all
  from block_complete [OF this(1) c(2) assms(2)] block_complete [OF this(2) assms(1,2)]
  have "length (encode_block c) = length ?img" by auto
  then show False using c(1) assms(3) by (metis length_take min.absorb4 nat_neq_iff)
qed

end
