(* ===== verification/Block_Facts.thy ===== *)
theory Block_Facts
  imports Block_View Layout
begin

text \<open>
  Block facts computed from the wire image (\<open>BlockFacts::from_parsed\<close> of
  \<open>src/crates/consensus/src/block_view.rs\<close>), without copying a transaction out of it.  \<open>None\<close> is
  \<open>unreachable!\<close>.  They are the facts of the decoded block.
\<close>

definition txid_and_base_size :: "(bytes \<Rightarrow> bytes) \<Rightarrow> ParsedTransaction \<Rightarrow> (hash256 \<times> nat) option" where
  "txid_and_base_size sh tx =
     Option.bind (stripped_parts tx) (\<lambda>parts.
     if \<not> pt_segwit tx then Some (double_sha256 sh (parts ! 0), span_len (pt_span tx))
     else Some (double_sha256 sh (concat parts), sum_list (map length parts)))"

definition wtxid_from_span :: "(bytes \<Rightarrow> bytes) \<Rightarrow> ParsedTransaction \<Rightarrow> hash256 option" where
  "wtxid_from_span sh tx = map_option (double_sha256 sh) (slice_at (pt_bytes tx) (pt_span tx))"

text \<open>The loop over the transactions: identifiers, witness identifiers, base sizes and whether a witness was seen.\<close>

fun parsed_rows ::
    "(bytes \<Rightarrow> bytes) \<Rightarrow> ParsedTransaction list \<Rightarrow> hash256 list \<Rightarrow> hash256 list option \<Rightarrow> nat \<Rightarrow> bool
      \<Rightarrow> (hash256 list \<times> hash256 list option \<times> nat \<times> bool) option" where
  "parsed_rows sh [] txids wtxids base_sizes witnessed = Some (txids, wtxids, base_sizes, witnessed)"
| "parsed_rows sh (tx # txs) txids wtxids base_sizes witnessed =
     Option.bind (txid_and_base_size sh tx) (\<lambda>(id, base_size).
     Option.bind (if pt_segwit tx then
          map_option (\<lambda>w. (True, Some ((case wtxids of None \<Rightarrow> txids | Some ids \<Rightarrow> ids) @ [w]))) (wtxid_from_span sh tx)
        else Some (witnessed, map_option (\<lambda>ids. ids @ [id]) wtxids)) (\<lambda>(witnessed, wtxids).
     parsed_rows sh txs (txids @ [id]) wtxids (sat_add64 base_sizes base_size) witnessed))"

definition from_parsed :: "hash256 lanes_hash \<Rightarrow> (bytes \<Rightarrow> bytes) \<Rightarrow> ParsedBlock \<Rightarrow> BlockFacts option" where
  "from_parsed avx2 sh parsed =
     Option.bind (parsed_rows sh (pb_txs parsed) [] None 0 False) (\<lambda>(txids, wtxids, base_sizes, witnessed).
       let stripped = sat_add64 (sat_add64 HEADER_LEN (span_len (pb_tx_count_span parsed))) base_sizes;
           total = pb_consumed parsed;
           weight = sat_add64 (sat_mul64 stripped 3) total;
           (merkle_root, merkle_mutated) = facts_merkle avx2 sh txids in
       Some \<lparr> facts_txids = txids, facts_wtxids = wtxids, facts_has_witness = witnessed, facts_weight = weight,
              facts_merkle_root = merkle_root, facts_merkle_mutated = merkle_mutated \<rparr>)"

section \<open>The facts of the decoded block\<close>

definition decoded_facts :: "hash256 lanes_hash \<Rightarrow> (bytes \<Rightarrow> bytes) \<Rightarrow> Tx list \<Rightarrow> BlockFacts" where
  "decoded_facts avx2 sh txs =
     (let facts = from_txids avx2 sh txs (map (txid sh) txs) in
      if facts_has_witness facts then or_insert_wtxids_from sh txs facts else facts)"

lemma txid_and_base_size_rep:
  "tx_rep img pos p tx \<Longrightarrow> txid_and_base_size sh p = Some (txid sh tx, length (encode_tx_base tx))"
  by (auto simp: txid_and_base_size_def stripped_parts_def tx_rep_def txid_def encode_tx_def encode_tx_base_def)

lemma wtxid_from_span_rep: "tx_rep img pos p tx \<Longrightarrow> wtxid_from_span sh p = Some (wtxid sh tx)"
  unfolding wtxid_from_span_def tx_rep_def wtxid_def by (elim conjE) (simp only: option.map)

lemma parsed_rows_rep:
  assumes "list_all2 (\<lambda>p tx. \<exists>k. tx_rep img k p tx) ps txs"
    and "wtxids = (if list_ex has_witness seen then Some (map (wtxid sh) seen) else None)"
  shows "parsed_rows sh ps (map (txid sh) seen) wtxids (min u64_max base) (list_ex has_witness seen) =
    Some (map (txid sh) (seen @ txs),
      if list_ex has_witness (seen @ txs) then Some (map (wtxid sh) (seen @ txs)) else None,
      min u64_max (base + (\<Sum>tx\<leftarrow>txs. length (encode_tx_base tx))), list_ex has_witness (seen @ txs))"
  using assms
proof (induction ps txs arbitrary: seen wtxids base rule: list_all2_induct)
  case (Cons p ps tx txs)
  then obtain k where k: "tx_rep img k p tx" by blast
  have sw: "pt_segwit p = has_witness tx" using k by (simp add: tx_rep_def)
  have ids: "\<not> list_ex has_witness seen \<Longrightarrow> map (wtxid sh) seen = map (txid sh) seen"
    by (auto simp: list_ex_iff wtxid_no_witness)
  let ?seen = "seen @ [tx]"
  have step: "(if pt_segwit p then
        map_option (\<lambda>w. (True, Some ((case wtxids of None \<Rightarrow> map (txid sh) seen | Some ids \<Rightarrow> ids) @ [w]))) (wtxid_from_span sh p)
      else Some (list_ex has_witness seen, map_option (\<lambda>ids. ids @ [txid sh tx]) wtxids)) =
    Some (list_ex has_witness ?seen, if list_ex has_witness ?seen then Some (map (wtxid sh) ?seen) else None)"
    using ids wtxid_no_witness [of tx sh]
    by (cases "list_ex has_witness seen"; cases "has_witness tx") (simp_all add: sw wtxid_from_span_rep [OF k] Cons.prems)
  show ?case
    unfolding parsed_rows.simps txid_and_base_size_rep [OF k] Option.bind.bind_lunit prod.case step sat_add_min_left
    using Cons.IH [OF refl, of ?seen "base + length (encode_tx_base tx)"] by (simp add: add.assoc)
qed simp

lemma sum_tx_sizes:
  assumes "list_all tx_hashes_wf txs" "(\<Sum>tx\<leftarrow>txs. length (encode_tx tx)) \<le> u32_max"
  shows "(\<Sum>tx\<leftarrow>txs. tx_base_size tx) = (\<Sum>tx\<leftarrow>txs. length (encode_tx_base tx))"
    "(\<Sum>tx\<leftarrow>txs. tx_consensus_size tx) = (\<Sum>tx\<leftarrow>txs. length (encode_tx tx))"
    "(\<Sum>tx\<leftarrow>txs. length (encode_tx_base tx)) \<le> (\<Sum>tx\<leftarrow>txs. length (encode_tx tx))"
proof -
  have "(\<Sum>tx\<leftarrow>txs. tx_base_size tx) = (\<Sum>tx\<leftarrow>txs. length (encode_tx_base tx))
    \<and> (\<Sum>tx\<leftarrow>txs. tx_consensus_size tx) = (\<Sum>tx\<leftarrow>txs. length (encode_tx tx))
    \<and> (\<Sum>tx\<leftarrow>txs. length (encode_tx_base tx)) \<le> (\<Sum>tx\<leftarrow>txs. length (encode_tx tx))"
    using assms
proof (induction txs)
  case (Cons tx txs)
  have base: "length (encode_tx_base tx) \<le> length (encode_tx tx)"
    using length_encode_tx_witness [of tx] by (cases "has_witness tx") (simp_all add: encode_tx_def)
  moreover have "length (encode_tx tx) \<le> u64_max" using Cons.prems(2) by (simp add: u32_max_def u64_max_def)
  ultimately have "tx_base_size tx = length (encode_tx_base tx)" "tx_consensus_size tx = length (encode_tx tx)"
    using Cons.prems(1) by (simp_all add: tx_base_size_eq tx_consensus_size_eq)
  then show ?case using Cons base by (simp add: add_mono)
qed simp
  then show "(\<Sum>tx\<leftarrow>txs. tx_base_size tx) = (\<Sum>tx\<leftarrow>txs. length (encode_tx_base tx))"
    "(\<Sum>tx\<leftarrow>txs. tx_consensus_size tx) = (\<Sum>tx\<leftarrow>txs. length (encode_tx tx))"
    "(\<Sum>tx\<leftarrow>txs. length (encode_tx_base tx)) \<le> (\<Sum>tx\<leftarrow>txs. length (encode_tx tx))" by simp_all
qed

lemma length_encode_block:
  "decodable_block b \<Longrightarrow> length (encode_block b) = 80 + encoded_len (length (b_txs b)) + (\<Sum>tx\<leftarrow>b_txs b. length (encode_tx tx))"
  by (simp add: encode_block_def length_header_to_bytes decodable_block_def length_concat comp_def)

lemma decoded_block_weight_eq:
  assumes "decodable_block b" "length (encode_block b) \<le> u32_max"
  shows "decoded_block_weight (b_txs b) =
    (80 + encoded_len (length (b_txs b)) + (\<Sum>tx\<leftarrow>b_txs b. length (encode_tx_base tx))) * 3 + length (encode_block b)"
proof -
  have le: "(\<Sum>tx\<leftarrow>b_txs b. length (encode_tx tx)) \<le> u32_max" using assms length_encode_block by simp
  have wf: "list_all tx_hashes_wf (b_txs b)" using assms(1) by (auto simp: decodable_block_def decodable_def list_all_iff)
  note sums = sum_tx_sizes [OF wf le]
  have start: "sat_add64 a b = min u64_max (a + b)" for a b by (simp add: sat_add_def)
  show ?thesis
    unfolding decoded_block_weight_def Let_def start [of HEADER_LEN "encoded_len (length (b_txs b))"] foldl_sizes prod.case sums(1,2)
    using assms(2) sums(3) unfolding length_encode_block [OF assms(1)]
    by (simp add: sat_add_def sat_mul_def u64_max_def u32_max_def)
qed

lemma from_parsed_decoded:
  assumes "block_rep img 0 p b" "decodable_block b" "length (encode_block b) \<le> u32_max"
  shows "from_parsed avx2 sh p = Some (decoded_facts avx2 sh (b_txs b))"
proof -
  let ?txs = "b_txs b"
  have rows: "parsed_rows sh (pb_txs p) [] None 0 False =
    Some (map (txid sh) ?txs, if list_ex has_witness ?txs then Some (map (wtxid sh) ?txs) else None,
      min u64_max (\<Sum>tx\<leftarrow>?txs. length (encode_tx_base tx)), list_ex has_witness ?txs)"
    using parsed_rows_rep [of img "pb_txs p" ?txs None "[]" sh 0] assms(1) by (simp add: block_rep_def)
  have le: "(\<Sum>tx\<leftarrow>?txs. length (encode_tx tx)) \<le> u32_max" using assms length_encode_block by simp
  have wf: "list_all tx_hashes_wf ?txs" using assms(2) by (auto simp: decodable_block_def decodable_def list_all_iff)
  note sums = sum_tx_sizes(3) [OF wf le]
  let ?s = "sat_add64 (sat_add64 HEADER_LEN (encoded_len (length ?txs))) (min u64_max (\<Sum>tx\<leftarrow>?txs. length (encode_tx_base tx)))"
  have "sat_add64 (sat_mul64 ?s 3) (length (encode_block b)) = decoded_block_weight ?txs"
    unfolding decoded_block_weight_eq [OF assms(2,3)]
    using assms(3) sums unfolding length_encode_block [OF assms(2)]
    by (simp add: sat_add_def sat_mul_def u64_max_def u32_max_def)
  moreover have "pb_consumed p = length (encode_block b)" "span_len (pb_tx_count_span p) = encoded_len (length ?txs)"
    using assms(1) by (simp_all add: block_rep_def)
  moreover have "decoded_facts avx2 sh ?txs = (case facts_merkle avx2 sh (map (txid sh) ?txs) of (r, m) \<Rightarrow>
      \<lparr> facts_txids = map (txid sh) ?txs, facts_wtxids = (if list_ex has_witness ?txs then Some (map (wtxid sh) ?txs) else None),
        facts_has_witness = list_ex has_witness ?txs, facts_weight = decoded_block_weight ?txs,
        facts_merkle_root = r, facts_merkle_mutated = m \<rparr>)"
    using or_insert_wtxids_eq [of "from_txids avx2 sh ?txs (map (txid sh) ?txs)" sh ?txs]
    by (auto simp: decoded_facts_def Let_def from_txids_def or_insert_wtxids_from_def split: prod.splits)
  ultimately show ?thesis
    unfolding from_parsed_def rows by (simp add: Let_def split: prod.splits)
qed

end
