(* ===== verification/Network.thy ===== *)
theory Network
  imports Prelude
begin

text \<open>
  The parameters of the five networks (\<open>src/crates/primitives/src/network.rs\<close>): activation
  heights, proof-of-work limits, subsidy interval, header-synchronisation windows
  and identities.  Heights and 256-bit targets are natural numbers.
\<close>

datatype Network = Mainnet | Testnet3 | Testnet4 | Signet | Regtest

fun identity_name :: "Network \<Rightarrow> string" where
  "identity_name Mainnet = ''mainnet''"
| "identity_name Testnet3 = ''testnet3''"
| "identity_name Testnet4 = ''testnet4''"
| "identity_name Signet = ''signet''"
| "identity_name Regtest = ''regtest''"

fun magic :: "Network \<Rightarrow> bytes" where
  "magic Mainnet = [0xf9, 0xbe, 0xb4, 0xd9]"
| "magic Testnet3 = [0x0b, 0x11, 0x09, 0x07]"
| "magic Testnet4 = [0x1c, 0x16, 0x3f, 0x28]"
| "magic Signet = [0x0a, 0x03, 0xcf, 0x40]"
| "magic Regtest = [0xfa, 0xbf, 0xb5, 0xda]"

fun default_p2p_port :: "Network \<Rightarrow> nat" where
  "default_p2p_port Mainnet = 8333"
| "default_p2p_port Testnet3 = 18333"
| "default_p2p_port Testnet4 = 48333"
| "default_p2p_port Signet = 38333"
| "default_p2p_port Regtest = 18444"

fun default_rpc_port :: "Network \<Rightarrow> nat" where
  "default_rpc_port Mainnet = 8332"
| "default_rpc_port Testnet3 = 18332"
| "default_rpc_port Testnet4 = 48332"
| "default_rpc_port Signet = 38332"
| "default_rpc_port Regtest = 18443"

section \<open>Activation heights\<close>

fun bip34_activation_height :: "Network \<Rightarrow> nat" where
  "bip34_activation_height Mainnet = 227931"
| "bip34_activation_height Testnet3 = 21111"
| "bip34_activation_height Testnet4 = 1"
| "bip34_activation_height Signet = 1"
| "bip34_activation_height Regtest = 500"

fun bip34_activation_hash :: "Network \<Rightarrow> hash256 option" where
  "bip34_activation_hash Mainnet = Some [
     0xb8, 0x08, 0x08, 0x9c, 0x75, 0x6a, 0xdd, 0x15, 0x91, 0xb1, 0xd1, 0x7b, 0xab, 0x44, 0xbb, 0xa3,
     0xfe, 0xd9, 0xe0, 0x2f, 0x94, 0x2a, 0xb4, 0x89, 0x4b, 0x02, 0x00, 0x00, 0x00, 0x00, 0x00, 0x00]"
| "bip34_activation_hash Testnet3 = Some [
     0xf8, 0x8e, 0xcd, 0x99, 0x12, 0xd0, 0x0d, 0x3f, 0x5c, 0x2a, 0x8e, 0x0f, 0x50, 0x41, 0x7d, 0x3e,
     0x41, 0x5c, 0x75, 0xb3, 0xab, 0xe5, 0x84, 0x34, 0x6d, 0xa9, 0xb3, 0x23, 0x00, 0x00, 0x00, 0x00]"
| "bip34_activation_hash _ = None"

fun bip65_activation_height :: "Network \<Rightarrow> nat" where
  "bip65_activation_height Mainnet = 388381"
| "bip65_activation_height Testnet3 = 581885"
| "bip65_activation_height Testnet4 = 1"
| "bip65_activation_height Signet = 1"
| "bip65_activation_height Regtest = 1351"

fun bip66_activation_height :: "Network \<Rightarrow> nat" where
  "bip66_activation_height Mainnet = 363725"
| "bip66_activation_height Testnet3 = 330776"
| "bip66_activation_height Testnet4 = 1"
| "bip66_activation_height Signet = 1"
| "bip66_activation_height Regtest = 1251"

fun csv_activation_height :: "Network \<Rightarrow> nat" where
  "csv_activation_height Mainnet = 419328"
| "csv_activation_height Testnet3 = 770112"
| "csv_activation_height Testnet4 = 1"
| "csv_activation_height Signet = 1"
| "csv_activation_height Regtest = 432"

fun segwit_activation_height :: "Network \<Rightarrow> nat" where
  "segwit_activation_height Mainnet = 481824"
| "segwit_activation_height Testnet3 = 834624"
| "segwit_activation_height _ = 0"

fun taproot_activation_height :: "Network \<Rightarrow> nat" where
  "taproot_activation_height Mainnet = 709632"
| "taproot_activation_height Testnet3 = 2011968"
| "taproot_activation_height _ = 0"

definition is_bip34_active :: "Network \<Rightarrow> nat \<Rightarrow> bool" where
  "is_bip34_active network height \<longleftrightarrow> height \<ge> bip34_activation_height network"

definition is_bip65_active :: "Network \<Rightarrow> nat \<Rightarrow> bool" where
  "is_bip65_active network height \<longleftrightarrow> height \<ge> bip65_activation_height network"

definition is_bip66_active :: "Network \<Rightarrow> nat \<Rightarrow> bool" where
  "is_bip66_active network height \<longleftrightarrow> height \<ge> bip66_activation_height network"

definition is_csv_active :: "Network \<Rightarrow> nat \<Rightarrow> bool" where
  "is_csv_active network height \<longleftrightarrow> height \<ge> csv_activation_height network"

definition is_segwit_active :: "Network \<Rightarrow> nat \<Rightarrow> bool" where
  "is_segwit_active network height \<longleftrightarrow> height \<ge> segwit_activation_height network"

definition is_taproot_active :: "Network \<Rightarrow> nat \<Rightarrow> bool" where
  "is_taproot_active network height \<longleftrightarrow> height \<ge> taproot_activation_height network"

lemmas activation_defs = is_bip34_active_def is_bip65_active_def is_bip66_active_def is_csv_active_def
  is_segwit_active_def is_taproot_active_def

definition BIP16_EXCEPTION_MAINNET :: hash256 where
  "BIP16_EXCEPTION_MAINNET = [
     0x22, 0x9c, 0x4f, 0xac, 0x88, 0xba, 0xb1, 0x94, 0xeb, 0x08, 0xf1, 0xa5, 0x28, 0xcc, 0x30, 0x8d,
     0xed, 0x23, 0x97, 0xf4, 0xf4, 0xeb, 0x6e, 0x75, 0xdc, 0x02, 0x00, 0x00, 0x00, 0x00, 0x00, 0x00]"

definition BIP16_EXCEPTION_TESTNET3 :: hash256 where
  "BIP16_EXCEPTION_TESTNET3 = [
     0x05, 0xb1, 0x32, 0xa4, 0xf7, 0x4a, 0x87, 0x99, 0xa5, 0x7a, 0x42, 0x02, 0xd0, 0xee, 0xb0, 0x96,
     0x12, 0xcc, 0x08, 0xd2, 0x95, 0x40, 0x1f, 0x00, 0x7c, 0x45, 0x30, 0xdd, 0x00, 0x00, 0x00, 0x00]"

fun is_bip16_p2sh_exception :: "Network \<Rightarrow> hash256 \<Rightarrow> bool" where
  "is_bip16_p2sh_exception Mainnet block_hash \<longleftrightarrow> block_hash = BIP16_EXCEPTION_MAINNET"
| "is_bip16_p2sh_exception Testnet3 block_hash \<longleftrightarrow> block_hash = BIP16_EXCEPTION_TESTNET3"
| "is_bip16_p2sh_exception _ block_hash \<longleftrightarrow> False"

section \<open>Proof of work and subsidy\<close>

fun max_target :: "Network \<Rightarrow> nat" where
  "max_target Signet = 0x377ae * 2 ^ 216"
| "max_target Regtest = 2 ^ 255 - 1"
| "max_target _ = 2 ^ 224 - 1"

fun retarget_interval :: "Network \<Rightarrow> nat" where
  "retarget_interval Regtest = 144"
| "retarget_interval _ = 2016"

fun subsidy_halving_interval :: "Network \<Rightarrow> nat" where
  "subsidy_halving_interval Regtest = 150"
| "subsidy_halving_interval _ = 210000"

definition target_spacing_seconds :: "Network \<Rightarrow> nat" where
  "target_spacing_seconds network = 10 * 60"

definition target_timespan_seconds :: "Network \<Rightarrow> nat" where
  "target_timespan_seconds network = sat_mul32 (retarget_interval network) (target_spacing_seconds network)"

fun allow_min_difficulty_blocks :: "Network \<Rightarrow> bool" where
  "allow_min_difficulty_blocks Testnet3 \<longleftrightarrow> True"
| "allow_min_difficulty_blocks Testnet4 \<longleftrightarrow> True"
| "allow_min_difficulty_blocks Regtest \<longleftrightarrow> True"
| "allow_min_difficulty_blocks _ \<longleftrightarrow> False"

fun pow_no_retargeting :: "Network \<Rightarrow> bool" where
  "pow_no_retargeting Regtest \<longleftrightarrow> True"
| "pow_no_retargeting _ \<longleftrightarrow> False"

fun enforce_bip94 :: "Network \<Rightarrow> bool" where
  "enforce_bip94 Testnet4 \<longleftrightarrow> True"
| "enforce_bip94 _ \<longleftrightarrow> False"

text \<open>The least work a chain must have, as the number its big-endian bytes stand for.\<close>

fun minimum_chain_work :: "Network \<Rightarrow> nat" where
  "minimum_chain_work Mainnet = 0x1128750f82f4c366153a3a030"
| "minimum_chain_work Testnet3 = 0x17dde1c649f3708d14b6"
| "minimum_chain_work Testnet4 = 0x9a0fe15d0177d086304"
| "minimum_chain_work Signet = 0xb463ea0a4b8"
| "minimum_chain_work Regtest = 0"

record HeadersSyncParams =
  commitment_period :: nat
  redownload_buffer_size :: nat

fun headers_sync_params :: "Network \<Rightarrow> HeadersSyncParams" where
  "headers_sync_params Mainnet = \<lparr> commitment_period = 649, redownload_buffer_size = 15400 \<rparr>"
| "headers_sync_params Testnet3 = \<lparr> commitment_period = 682, redownload_buffer_size = 14613 \<rparr>"
| "headers_sync_params Testnet4 = \<lparr> commitment_period = 616, redownload_buffer_size = 16199 \<rparr>"
| "headers_sync_params Signet = \<lparr> commitment_period = 629, redownload_buffer_size = 15885 \<rparr>"
| "headers_sync_params Regtest = \<lparr> commitment_period = 275, redownload_buffer_size = 7017 \<rparr>"

lemma target_timespan_eq: "target_timespan_seconds network = retarget_interval network * 600"
  by (cases network) (simp_all add: target_timespan_seconds_def target_spacing_seconds_def sat_mul_def u32_max_def)

lemma max_target_bounds: "0 < max_target network" "max_target network < 2 ^ 255"
  by (cases network; simp)+

text \<open>No two networks share their message prefix.\<close>

lemma magic_inj: "magic a = magic b \<Longrightarrow> a = b"
  by (cases a; cases b) simp_all

end
