(* ===== verification/Consensus.thy ===== *)
theory Consensus
  imports Network Script_Num Sighash
begin

text \<open>
  The stateless consensus rules of \<open>src/crates/consensus/src\<close>: errors, the block subsidy and the
  coinbase amount (\<open>lib.rs\<close>), the height in the coinbase (\<open>bip34.rs\<close>), duplicate
  transactions (\<open>bip30.rs\<close>), relative lock times (\<open>bip68.rs\<close>).  Amounts and heights are
  natural numbers; their widths are written out where the code can overflow.
\<close>

section \<open>Errors\<close>

datatype ValidationEngine = NativeEngine | KernelEngine
datatype ScriptEngine = KernelScripts | NativeScripts

datatype ConsensusError =
    EmptyInputs
  | EmptyOutputs
  | CoinbaseScriptSigSize nat
  | NullPrevout nat
  | DuplicateInput nat
  | MissingPrevout nat
  | OutputValueOverflow
  | InputsLessThanOutputs nat nat
  | ScriptFailed nat string ScriptEngine
  | SigopsLimit nat nat
  | EmptyBlock
  | MissingCoinbase
  | SixtyFourByteMutation
  | ExtraCoinbase nat
  | MerkleMutation
  | MerkleRoot
  | CoinbaseAmount nat nat
  | BlockValueOverflow
  | WitnessNonceSize
  | UnexpectedWitness
  | WitnessCommitment
  | BlockWeight nat nat
  | BlockBaseSize nat nat
  | SignetSolution
  | Bip string string
  | PrevoutMatrixSize nat nat
  | ConsensusPrevoutCount nat nat
  | ConsensusPrevoutMismatch nat
  | UnsupportedEngine ValidationEngine
  | KernelError string
  | EncodingError string

fun script_err_name :: "ScriptErrCode \<Rightarrow> string" where
  "script_err_name EvalFalse = ''EVAL_FALSE''"
| "script_err_name Verify = ''VERIFY''"
| "script_err_name EqualVerify = ''EQUALVERIFY''"
| "script_err_name CheckMultisigVerify = ''CHECKMULTISIGVERIFY''"
| "script_err_name CheckSigVerify = ''CHECKSIGVERIFY''"
| "script_err_name NumEqualVerify = ''NUMEQUALVERIFY''"
| "script_err_name ScriptSize = ''SCRIPT_SIZE''"
| "script_err_name PushSize = ''PUSH_SIZE''"
| "script_err_name OpCount = ''OP_COUNT''"
| "script_err_name StackSize = ''STACK_SIZE''"
| "script_err_name SigCount = ''SIG_COUNT''"
| "script_err_name PubkeyCount = ''PUBKEY_COUNT''"
| "script_err_name BadOpcode = ''BAD_OPCODE''"
| "script_err_name DisabledOpcode = ''DISABLED_OPCODE''"
| "script_err_name InvalidStackOperation = ''INVALID_STACK_OPERATION''"
| "script_err_name InvalidAltstackOperation = ''INVALID_ALTSTACK_OPERATION''"
| "script_err_name OpReturn = ''OP_RETURN''"
| "script_err_name UnbalancedConditional = ''UNBALANCED_CONDITIONAL''"
| "script_err_name NegativeLocktime = ''NEGATIVE_LOCKTIME''"
| "script_err_name UnsatisfiedLocktime = ''UNSATISFIED_LOCKTIME''"
| "script_err_name SigHashtype = ''SIG_HASHTYPE''"
| "script_err_name SigDer = ''SIG_DER''"
| "script_err_name MinimalData = ''MINIMALDATA''"
| "script_err_name SigPushonly = ''SIG_PUSHONLY''"
| "script_err_name SigHighS = ''SIG_HIGH_S''"
| "script_err_name SigNullDummy = ''SIG_NULLDUMMY''"
| "script_err_name MinimalIf = ''MINIMALIF''"
| "script_err_name SigNullFail = ''SIG_NULLFAIL''"
| "script_err_name DiscourageUpgradableNops = ''DISCOURAGE_UPGRADABLE_NOPS''"
| "script_err_name DiscourageUpgradableWitnessProgram = ''DISCOURAGE_UPGRADABLE_WITNESS_PROGRAM''"
| "script_err_name DiscourageUpgradableTaprootVersion = ''DISCOURAGE_UPGRADABLE_TAPROOT_VERSION''"
| "script_err_name DiscourageOpSuccess = ''DISCOURAGE_OP_SUCCESS''"
| "script_err_name DiscourageUpgradablePubkeyType = ''DISCOURAGE_UPGRADABLE_PUBKEYTYPE''"
| "script_err_name PubkeyType = ''PUBKEYTYPE''"
| "script_err_name CleanStack = ''CLEANSTACK''"
| "script_err_name WitnessProgramWrongLength = ''WITNESS_PROGRAM_WRONG_LENGTH''"
| "script_err_name WitnessProgramWitnessEmpty = ''WITNESS_PROGRAM_WITNESS_EMPTY''"
| "script_err_name WitnessProgramMismatch = ''WITNESS_PROGRAM_MISMATCH''"
| "script_err_name WitnessMalleated = ''WITNESS_MALLEATED''"
| "script_err_name WitnessMalleatedP2sh = ''WITNESS_MALLEATED_P2SH''"
| "script_err_name WitnessUnexpected = ''WITNESS_UNEXPECTED''"
| "script_err_name WitnessPubkeyType = ''WITNESS_PUBKEYTYPE''"
| "script_err_name SchnorrSigSize = ''SCHNORR_SIG_SIZE''"
| "script_err_name SchnorrSigHashtype = ''SCHNORR_SIG_HASHTYPE''"
| "script_err_name SchnorrSig = ''SCHNORR_SIG''"
| "script_err_name TaprootWrongControlSize = ''TAPROOT_WRONG_CONTROL_SIZE''"
| "script_err_name TapscriptValidationWeight = ''TAPSCRIPT_VALIDATION_WEIGHT''"
| "script_err_name TapscriptCheckMultiSig = ''TAPSCRIPT_CHECKMULTISIG''"
| "script_err_name TapscriptMinimalIf = ''TAPSCRIPT_MINIMALIF''"
| "script_err_name TapscriptEmptyPubkey = ''TAPSCRIPT_EMPTY_PUBKEY''"
| "script_err_name OpCodeSeparator = ''OP_CODESEPARATOR''"
| "script_err_name SigFindAndDelete = ''SIG_FINDANDDELETE''"
| "script_err_name ScriptNum = ''SCRIPTNUM''"

definition script_error_text :: "ScriptError \<Rightarrow> string" where
  "script_error_text e = (case e of
     InputIndexOutOfRange index n_inputs \<Rightarrow>
       ''input index '' @ nat_digits index @ '' out of range for '' @ nat_digits n_inputs @ '' inputs''
   | UnknownFlag name \<Rightarrow> ''unknown script verify flag '' @ name
   | Verification s \<Rightarrow> ''script verification failed: '' @ s
   | TaprootPrevoutsUnavailable \<Rightarrow> ''prevout count does not match transaction input count''
   | Invalid code \<Rightarrow> ''script failed: '' @ script_err_name code)"

section \<open>Subsidy\<close>

abbreviation INITIAL_SUBSIDY_SATS :: nat where "INITIAL_SUBSIDY_SATS \<equiv> 50 * COIN"

definition block_subsidy :: "nat \<Rightarrow> nat \<Rightarrow> nat" where
  "block_subsidy height halving_interval =
     (if halving_interval = 0 then INITIAL_SUBSIDY_SATS
      else let halvings = height div halving_interval in
        if halvings \<ge> 64 then 0 else drop_bit halvings INITIAL_SUBSIDY_SATS)"

definition verify_coinbase_amount :: "nat \<Rightarrow> nat \<Rightarrow> nat \<Rightarrow> nat \<Rightarrow> ConsensusError + unit" where
  "verify_coinbase_amount coinbase_out fees height halving_interval =
     (let allowed = block_subsidy height halving_interval + fees in
      if allowed > u64_max then Inl BlockValueOverflow
      else guardE (coinbase_out > allowed) (CoinbaseAmount coinbase_out allowed))"

section \<open>Lock-time rule\<close>

datatype LocktimeRule = MedianTimePast | CandidateTime

definition from_csv_active :: "bool \<Rightarrow> LocktimeRule" where
  "from_csv_active csv_active = (if csv_active then MedianTimePast else CandidateTime)"

fun locktime_cutoff :: "LocktimeRule \<Rightarrow> nat \<Rightarrow> nat \<Rightarrow> nat" where
  "locktime_cutoff MedianTimePast prev_median_time_past candidate_time = prev_median_time_past"
| "locktime_cutoff CandidateTime prev_median_time_past candidate_time = candidate_time"

section \<open>BIP 34: the height in the coinbase\<close>

definition starts_with :: "'a list \<Rightarrow> 'a list \<Rightarrow> bool" where
  "starts_with xs prefix \<longleftrightarrow> length prefix \<le> length xs \<and> take (length prefix) xs = prefix"

definition check_bip34 :: "nat \<Rightarrow> bytes \<Rightarrow> ConsensusError + unit" where
  "check_bip34 height coinbase_script_sig =
     guardE (\<not> starts_with coinbase_script_sig (push_int (int height)))
       (Bip ''BIP34'' (''coinbase does not start with height '' @ nat_digits height))"

section \<open>BIP 30: duplicate transactions\<close>

definition BIP30_DUPLICATE_TXID_EXCEPTIONS :: "(nat \<times> hash256) list" where
  "BIP30_DUPLICATE_TXID_EXCEPTIONS = [
     (91842, [0xec, 0xca, 0xe0, 0x00, 0xe3, 0xc8, 0xe4, 0xe0, 0x93, 0x93, 0x63, 0x60, 0x43, 0x1f, 0x3b, 0x76,
        0x03, 0xc5, 0x63, 0xc1, 0xff, 0x61, 0x81, 0x39, 0x0a, 0x4d, 0x0a, 0x00, 0x00, 0x00, 0x00, 0x00]),
     (91880, [0x21, 0xd7, 0x7c, 0xcb, 0x4c, 0x08, 0x38, 0x6a, 0x04, 0xac, 0x01, 0x96, 0xae, 0x10, 0xf6, 0xa1,
        0xd2, 0xc2, 0xa3, 0x77, 0x55, 0x8c, 0xa1, 0x90, 0xf1, 0x43, 0x07, 0x00, 0x00, 0x00, 0x00, 0x00])]"

definition is_bip30_exception :: "nat \<Rightarrow> hash256 \<Rightarrow> bool" where
  "is_bip30_exception height block_hash \<longleftrightarrow>
     list_ex (\<lambda>(exception_height, exception_hash). exception_height = height \<and> exception_hash = block_hash)
       BIP30_DUPLICATE_TXID_EXCEPTIONS"

definition check_duplicate_txid :: "nat \<Rightarrow> hash256 \<Rightarrow> ConsensusError + unit" where
  "check_duplicate_txid height block_hash =
     guardE (\<not> is_bip30_exception height block_hash)
       (Bip ''BIP30'' (''duplicate txid at non-exception height '' @ nat_digits height))"

section \<open>BIP 68: relative lock times\<close>

abbreviation SEQUENCE_LOCKTIME_GRANULARITY_SECONDS :: nat where "SEQUENCE_LOCKTIME_GRANULARITY_SECONDS \<equiv> 512"

definition sequence_lock_is_time_based :: "u32 \<Rightarrow> bool" where
  "sequence_lock_is_time_based seq \<longleftrightarrow> seq AND SEQUENCE_LOCKTIME_TYPE_FLAG \<noteq> 0"

definition sequence_lock_satisfied :: "u32 \<Rightarrow> u32 \<Rightarrow> nat \<Rightarrow> nat \<Rightarrow> nat \<Rightarrow> nat \<Rightarrow> bool" where
  "sequence_lock_satisfied version seq prevout_height prevout_mtp block_height block_mtp \<longleftrightarrow>
     (if version < 2 \<or> seq AND SEQUENCE_LOCKTIME_DISABLE_FLAG \<noteq> 0 then True
      else if seq AND SEQUENCE_LOCKTIME_TYPE_FLAG \<noteq> 0 then
        (let relative_intervals = unat (seq AND SEQUENCE_LOCKTIME_MASK);
             earliest_time = sat_add32 prevout_mtp
               (sat_mul32 relative_intervals SEQUENCE_LOCKTIME_GRANULARITY_SECONDS) in
         block_mtp \<ge> earliest_time)
      else
        (let relative_blocks = unat (seq AND SEQUENCE_LOCKTIME_MASK);
             earliest_height = sat_add32 prevout_height relative_blocks in
         block_height \<ge> earliest_height))"

definition check_sequence_lock :: "u32 \<Rightarrow> u32 \<Rightarrow> nat \<Rightarrow> nat \<Rightarrow> nat \<Rightarrow> nat \<Rightarrow> ConsensusError + unit" where
  "check_sequence_lock version seq prevout_height prevout_mtp block_height block_mtp =
     (if sequence_lock_satisfied version seq prevout_height prevout_mtp block_height block_mtp then Inr ()
      else if seq AND SEQUENCE_LOCKTIME_TYPE_FLAG \<noteq> 0 then
        (let relative_intervals = unat (seq AND SEQUENCE_LOCKTIME_MASK);
             earliest_time = sat_add32 prevout_mtp
               (sat_mul32 relative_intervals SEQUENCE_LOCKTIME_GRANULARITY_SECONDS) in
         Inl (Bip ''BIP68'' (''input sequence time-based lock unmet: prevout mtp '' @ nat_digits prevout_mtp @ '' + ''
           @ nat_digits relative_intervals @ ''*512s = '' @ nat_digits earliest_time @ '' > current mtp ''
           @ nat_digits block_mtp)))
      else
        (let relative_blocks = unat (seq AND SEQUENCE_LOCKTIME_MASK) in
         Inl (Bip ''BIP68'' (''input sequence height-based lock unmet: prevout at height '' @ nat_digits prevout_height
           @ '' + '' @ nat_digits relative_blocks @ '' blocks > current '' @ nat_digits block_height))))"

section \<open>The supply\<close>

lemma block_subsidy_eq:
  "0 < interval \<Longrightarrow> block_subsidy height interval =
    (if height div interval \<ge> 64 then 0 else INITIAL_SUBSIDY_SATS div 2 ^ (height div interval))"
  by (simp add: block_subsidy_def Let_def drop_bit_eq_div)

lemma halving_sum: "(\<Sum>k<n. c div 2 ^ k) + 2 * (c div 2 ^ n) \<le> 2 * (c :: nat)"
proof (induction n)
  case (Suc n)
  have "2 * (c div 2 ^ Suc n) \<le> c div 2 ^ n" by (simp add: div_mult2_eq mult.commute [of 2 "2 ^ n"])
  then show ?case using Suc by simp
qed simp

lemma sum_blocks: "0 < i \<Longrightarrow> (\<Sum>h < n * i. f (h div i)) = i * (\<Sum>k<n. f k)" for f :: "nat \<Rightarrow> nat"
proof (induction n)
  case (Suc n)
  have split: "{..<Suc n * i} = {..<n * i} \<union> (\<lambda>j. n * i + j) ` {..<i}"
  proof (intro equalityI subsetI)
    fix x
    assume "x \<in> {..<Suc n * i}"
    then show "x \<in> {..<n * i} \<union> (\<lambda>j. n * i + j) ` {..<i}"
      by (cases "x < n * i") (auto simp: image_iff intro!: bexI [of _ "x - n * i"])
  qed auto
  have "(\<Sum>h \<in> (\<lambda>j. n * i + j) ` {..<i}. f (h div i)) = (\<Sum>j<i. f ((n * i + j) div i))"
    by (subst sum.reindex) (auto simp: inj_on_def)
  also have "\<dots> = i * f n" using Suc.prems by simp
  finally have "(\<Sum>h \<in> (\<lambda>j. n * i + j) ` {..<i}. f (h div i)) = i * f n" .
  then show ?case
    unfolding split using Suc by (subst sum.union_disjoint) (auto simp: algebra_simps)
qed simp

text \<open>All subsidies together never exceed twice the first interval's.\<close>

lemma total_subsidy_le:
  assumes "0 < interval"
  shows "(\<Sum>h<n. block_subsidy h interval) \<le> 2 * INITIAL_SUBSIDY_SATS * interval"
proof -
  let ?c = "INITIAL_SUBSIDY_SATS" and ?m = "n div interval + 1"
  have "n \<le> ?m * interval" using dividend_less_div_times [OF assms, of n] by simp
  have "(\<Sum>h<n. block_subsidy h interval) \<le> (\<Sum>h<n. ?c div 2 ^ (h div interval))"
    using assms by (intro sum_mono) (simp add: block_subsidy_eq)
  also have "\<dots> \<le> (\<Sum>h < ?m * interval. ?c div 2 ^ (h div interval))"
    using \<open>n \<le> ?m * interval\<close> by (intro sum_mono2) auto
  also have "\<dots> = interval * (\<Sum>k<?m. ?c div 2 ^ k)" by (rule sum_blocks [OF assms])
  also have "\<dots> \<le> interval * (2 * ?c)" using halving_sum [of ?c ?m] by (intro mult_le_mono2) linarith
  finally show ?thesis by (simp add: mult.commute)
qed

section \<open>A coinbase names one height\<close>

lemma starts_with_iff: "starts_with xs p \<longleftrightarrow> (\<exists>ys. xs = p @ ys)"
  by (metis append_eq_conv_conj append_take_drop_id length_append le_add1 starts_with_def)

lemma check_bip34_iff: "check_bip34 h s = Inr () \<longleftrightarrow> (\<exists>rest. s = push_int (int h) @ rest)"
  by (simp add: check_bip34_def starts_with_iff)

lemma push_int_small: "1 \<le> h \<Longrightarrow> h \<le> 16 \<Longrightarrow> push_int (int h) = [word_of_nat (0x50 + h)]"
  by (simp add: push_int_def)

lemma push_int_large:
  assumes "h = 0 \<or> 16 < h" "h < 2 ^ 32"
  shows "push_int (int h) = push_data (script_num_serialize (int h))" "length (script_num_serialize (int h)) \<le> 5"
proof -
  show "push_int (int h) = push_data (script_num_serialize (int h))"
    using assms by (intro push_int_serialize) auto
  show "length (script_num_serialize (int h)) \<le> 5"
    using length_script_num_serialize [of "int h" 5] assms(2) by simp
qed

lemma unat_pushnum: "h \<le> 16 \<Longrightarrow> unat (word_of_nat (0x50 + h) :: byte) = 0x50 + h"
  unfolding unat_byte_of_nat by simp

lemma hd_push_data_short: "length d \<le> 5 \<Longrightarrow> hd (push_data d) = word_of_nat (length d)"
  by (simp add: push_data_def)

lemma push_int_small_large:
  assumes "push_int (int a) @ s = push_int (int b) @ s'" "1 \<le> a" "a \<le> 16" "b = 0 \<or> 16 < b" "b < 2 ^ 32"
  shows False
proof -
  define n where "n = length (script_num_serialize (int b))"
  note large = push_int_large [OF assms(4,5)]
  have "n \<le> 5" using large(2) by (simp add: n_def)
  have "hd (push_int (int b) @ s') = word_of_nat n"
    using hd_push_data_short [OF large(2)] large(1) by (simp add: hd_append n_def)
  moreover have "hd (push_int (int a) @ s) = word_of_nat (0x50 + a)"
    by (simp only: push_int_small [OF assms(2,3)] append.simps list.sel)
  ultimately have "unat (word_of_nat (0x50 + a) :: byte) = unat (word_of_nat n :: byte)"
    using assms(1) by (simp only:)
  then have "(0x50 + a) mod 256 = n mod 256" by (simp only: unat_byte_of_nat)
  then show False using \<open>n \<le> 5\<close> assms(3) by simp
qed

lemma push_int_prefix_free:
  assumes "push_int (int h) @ r = push_int (int h') @ r'" "h < 2 ^ 32" "h' < 2 ^ 32"
  shows "h = h'"
proof -
  consider "1 \<le> h" "h \<le> 16" "1 \<le> h'" "h' \<le> 16" | "1 \<le> h" "h \<le> 16" "h' = 0 \<or> 16 < h'"
    | "h = 0 \<or> 16 < h" "1 \<le> h'" "h' \<le> 16" | "h = 0 \<or> 16 < h" "h' = 0 \<or> 16 < h'" by linarith
  then show ?thesis
  proof cases
    case 1
    have "(word_of_nat (0x50 + h) :: byte) = word_of_nat (0x50 + h')"
      using assms(1) unfolding push_int_small [OF 1(1,2)] push_int_small [OF 1(3,4)] by simp
    then have "unat (word_of_nat (0x50 + h) :: byte) = unat (word_of_nat (0x50 + h') :: byte)" by (rule arg_cong)
    then show ?thesis unfolding unat_pushnum [OF 1(2)] unat_pushnum [OF 1(4)] by simp
  next
    case 2
    then show ?thesis using push_int_small_large [OF assms(1) 2 assms(3)] by blast
  next
    case 3
    then show ?thesis using push_int_small_large [OF assms(1) [symmetric] 3(2,3,1) assms(2)] by blast
  next
    case 4
    let ?d = "script_num_serialize (int h)" and ?d' = "script_num_serialize (int h')"
    note l = push_int_large [OF 4(1) assms(2)] and l' = push_int_large [OF 4(2) assms(3)]
    have same: "push_data ?d @ r = push_data ?d' @ r'" using assms(1) unfolding l(1) l'(1) .
    have "length ?d < 2 ^ 32" "length ?d' < 2 ^ 32" using l(2) l'(2) by simp_all
    from instr_next_push_data [OF this(1), of r] instr_next_push_data [OF this(2), of r'] have "?d = ?d'"
      unfolding same by simp
    then have "int h = int h'" by (metis num_value_serialize)
    then show ?thesis by simp
  qed
qed

section \<open>Relative lock times\<close>

text \<open>A lock once met stays met as the chain grows.\<close>

section \<open>Relative locks\<close>

text \<open>The masks of BIP 68 as bits and the low half of the sequence number.\<close>

lemma sequence_masks:
  "seq AND SEQUENCE_LOCKTIME_DISABLE_FLAG \<noteq> 0 \<longleftrightarrow> bit seq 31"
  "seq AND SEQUENCE_LOCKTIME_TYPE_FLAG \<noteq> 0 \<longleftrightarrow> bit seq 22"
  "unat (seq AND SEQUENCE_LOCKTIME_MASK) = unat seq mod 2 ^ 16"
proof -
  have e: "(seq AND push_bit n 1 \<noteq> 0) = bit seq n" for n :: nat and seq :: u32
    by (metis and_exp_eq_0_iff_not_bit push_bit_of_1)
  show "seq AND SEQUENCE_LOCKTIME_DISABLE_FLAG \<noteq> 0 \<longleftrightarrow> bit seq 31" using e [of seq 31] by simp
  show "seq AND SEQUENCE_LOCKTIME_TYPE_FLAG \<noteq> 0 \<longleftrightarrow> bit seq 22" using e [of seq 22] by simp
  have "seq AND SEQUENCE_LOCKTIME_MASK = take_bit 16 seq" by (simp add: take_bit_eq_mask mask_eq_exp_minus_1)
  then show "unat (seq AND SEQUENCE_LOCKTIME_MASK) = unat seq mod 2 ^ 16"
    by (simp only: unsigned_take_bit_eq) (simp only: take_bit_eq_mod)
qed

lemma check_sequence_lock_iff:
  "check_sequence_lock version seq ph pm h m = Inr () \<longleftrightarrow> unat version < 2 \<or> bit seq 31
     \<or> (if bit seq 22 then min u32_max (pm + 512 * (unat seq mod 2 ^ 16)) \<le> m else min u32_max (ph + unat seq mod 2 ^ 16) \<le> h)"
proof -
  have "unat seq mod 2 ^ 16 * 512 \<le> u32_max" by (simp add: u32_max_def)
  then have "sat_mul32 (unat seq mod 2 ^ 16) 512 = 512 * (unat seq mod 2 ^ 16)" by (simp add: sat_mul_def mult.commute)
  moreover have "version < 2 \<longleftrightarrow> unat version < 2" by (simp add: word_less_nat_alt)
  moreover have "check_sequence_lock version seq ph pm h m = Inr () \<longleftrightarrow> sequence_lock_satisfied version seq ph pm h m"
    by (auto simp: check_sequence_lock_def Let_def split: if_splits)
  ultimately show ?thesis
    by (simp only: sequence_lock_satisfied_def sequence_masks Let_def sat_add_def if_True split: if_splits) auto
qed

end
