(* ===== verification/Script_Cache.thy ===== *)
theory Script_Cache
  imports Script_Flags
begin

text \<open>
  The script execution cache (\<open>src/crates/consensus/src/script_cache.rs\<close>): the transactions whose
  scripts have verified under a flag word, each removed when a block uses it.  Live
  entries carry a generation; the queue remembers insertion order and may hold
  entries that were taken since.  The generation counter wraps at \<open>2 ^ 64\<close>; the order of the queue
  is by generation as long as it has not.
\<close>

abbreviation SCRIPT_EXECUTION_CACHE_ENTRIES :: nat where "SCRIPT_EXECUTION_CACHE_ENTRIES \<equiv> 2 ^ 18"
abbreviation QUEUE_COMPACT_LEN :: nat where "QUEUE_COMPACT_LEN \<equiv> 2 * SCRIPT_EXECUTION_CACHE_ENTRIES"

type_synonym CacheKey = "hash256 \<times> u32"

record Inner =
  live :: "(CacheKey \<times> nat) list"
  queue :: "(CacheKey \<times> nat) list"
  next_generation :: nat

definition cache_new :: Inner where
  "cache_new = \<lparr> live = [], queue = [], next_generation = 0 \<rparr>"

text \<open>The hash map \<open>live\<close> is an association list with distinct keys.\<close>

definition live_remove :: "CacheKey \<Rightarrow> (CacheKey \<times> nat) list \<Rightarrow> (CacheKey \<times> nat) list" where
  "live_remove key m = filter (\<lambda>(k, _). k \<noteq> key) m"

fun evict_queue :: "(CacheKey \<times> nat) list \<Rightarrow> (CacheKey \<times> nat) list \<Rightarrow> (CacheKey \<times> nat) list \<times> (CacheKey \<times> nat) list" where
  "evict_queue m [] = (m, [])"
| "evict_queue m ((old_key, old_generation) # q) =
     (if map_of m old_key = Some old_generation then (live_remove old_key m, q) else evict_queue m q)"

definition evict_oldest_live :: "Inner \<Rightarrow> Inner" where
  "evict_oldest_live inner =
     (case evict_queue (live inner) (queue inner) of (m, q) \<Rightarrow> inner\<lparr>live := m, queue := q\<rparr>)"

definition cache_insert_script :: "hash256 \<Rightarrow> VerifyFlags \<Rightarrow> Inner \<Rightarrow> Inner" where
  "cache_insert_script wtxid flags inner =
     (let key = (wtxid, flags) in
      if map_of (live inner) key \<noteq> None then inner
      else
        let inner = (if length (live inner) \<ge> SCRIPT_EXECUTION_CACHE_ENTRIES then evict_oldest_live inner else inner);
            inner = (if length (queue inner) \<ge> QUEUE_COMPACT_LEN
                     then inner\<lparr>queue := filter (\<lambda>(k, g). map_of (live inner) k = Some g) (queue inner)\<rparr> else inner);
            generation = next_generation inner in
        inner\<lparr>next_generation := (generation + 1) mod 2 ^ 64, live := (key, generation) # live inner,
          queue := queue inner @ [(key, generation)]\<rparr>)"

definition cache_take :: "hash256 \<Rightarrow> VerifyFlags \<Rightarrow> Inner \<Rightarrow> bool \<times> Inner" where
  "cache_take wtxid flags inner =
     (let key = (wtxid, flags) in
      (map_of (live inner) key \<noteq> None, inner\<lparr>live := live_remove key (live inner)\<rparr>))"

record WindowCacheTakes =
  wc_cache :: Inner
  wc_taken :: "(hash256 \<times> VerifyFlags) list"

definition takes_new :: "Inner \<Rightarrow> WindowCacheTakes" where
  "takes_new cache = \<lparr> wc_cache = cache, wc_taken = [] \<rparr>"

definition takes_take :: "hash256 \<Rightarrow> VerifyFlags \<Rightarrow> WindowCacheTakes \<Rightarrow> bool \<times> WindowCacheTakes" where
  "takes_take wtxid flags w = (case cache_take wtxid flags (wc_cache w) of (hit, cache) \<Rightarrow>
     (hit, w\<lparr>wc_cache := cache, wc_taken := (if hit then wc_taken w @ [(wtxid, flags)] else wc_taken w)\<rparr>))"

definition takes_checkpoint :: "WindowCacheTakes \<Rightarrow> nat" where
  "takes_checkpoint w = length (wc_taken w)"

definition takes_rollback_to :: "nat \<Rightarrow> WindowCacheTakes \<Rightarrow> Inner" where
  "takes_rollback_to pos w = fold (\<lambda>(wtxid, flags). cache_insert_script wtxid flags) (drop pos (wc_taken w)) (wc_cache w)"

definition takes_rollback :: "WindowCacheTakes \<Rightarrow> Inner" where
  "takes_rollback w = takes_rollback_to 0 w"

section \<open>The invariant\<close>

text \<open>
  Live keys are distinct and within the limit, every live entry is queued exactly as it is,
  generations in the queue ascend and stay below the counter, and the queue is
  within its own limit.
\<close>

definition live_keys :: "Inner \<Rightarrow> CacheKey set" where
  "live_keys c = fst ` set (live c)"

definition cache_ok :: "Inner \<Rightarrow> bool" where
  "cache_ok c \<longleftrightarrow> distinct (map fst (live c)) \<and> length (live c) \<le> SCRIPT_EXECUTION_CACHE_ENTRIES
    \<and> set (live c) \<subseteq> set (queue c) \<and> sorted_wrt (\<lambda>a b. snd a < snd b) (queue c)
    \<and> list_all (\<lambda>e. snd e < next_generation c) (queue c) \<and> length (queue c) \<le> QUEUE_COMPACT_LEN"

lemma cache_new_ok: "cache_ok cache_new"
  by (simp add: cache_ok_def cache_new_def)

lemma live_remove_set [simp]: "set (live_remove key m) = {e \<in> set m. fst e \<noteq> key}"
  by (auto simp: live_remove_def)

lemma live_remove_distinct: "distinct (map fst m) \<Longrightarrow> distinct (map fst (live_remove key m))"
  by (simp add: live_remove_def distinct_map_filter)

lemma length_live_remove_le: "length (live_remove key m) \<le> length m"
  by (simp add: live_remove_def)

lemma length_live_remove: "distinct (map fst m) \<Longrightarrow> map_of m key = Some g \<Longrightarrow> length (live_remove key m) = length m - 1"
proof (induction m)
  case (Cons e m)
  show ?case
  proof (cases "fst e = key")
    case True
    then have "filter (\<lambda>(k, _). k \<noteq> key) m = m" using Cons.prems by (auto simp: filter_id_conv image_iff)
    then show ?thesis using True by (cases e) (simp add: live_remove_def)
  next
    case False
    then have "map_of m key = Some g" using Cons.prems by (cases e) simp
    moreover from this have "length m > 0" by (cases m) simp_all
    ultimately show ?thesis using Cons False by (cases e) (simp add: live_remove_def)
  qed
qed simp

text \<open>Evicting finds the oldest live entry: everything left is younger.\<close>

lemma evict_queue_ok:
  assumes "distinct (map fst m)" "m \<noteq> []" "set m \<subseteq> set q" "sorted_wrt (\<lambda>a b. snd a < snd b) q"
    and "evict_queue m q = (m', q')"
  shows "\<exists>old. old \<in> set m \<and> m' = live_remove (fst old) m \<and> set m' \<subseteq> set q'
    \<and> (\<forall>e \<in> set m. snd old \<le> snd e) \<and> (\<exists>pre. q = pre @ q')"
  using assms
proof (induction m q rule: evict_queue.induct)
  case (2 m k g q)
  show ?case
  proof (cases "map_of m k = Some g")
    case True
    then have "(k, g) \<in> set m" "m' = live_remove k m" "q' = q" using 2(6) by (auto dest: map_of_SomeD)
    moreover have "set (live_remove k m) \<subseteq> set q" using 2(4) True by auto
    moreover have "g \<le> snd e" if "e \<in> set m" for e using 2(4,5) that by fastforce
    ultimately show ?thesis by (intro exI [of _ "(k, g)"]) auto
  next
    case False
    then have "(k, g) \<notin> set m" using 2(2) by auto
    then have "set m \<subseteq> set q" using 2(4) by auto
    from 2(1) [OF False 2(2,3) this] 2(5,6) False show ?thesis
      by simp (metis append_Cons)
  qed
qed auto

lemma evict_oldest_live_ok:
  assumes "cache_ok c" "live c \<noteq> []"
  shows "cache_ok (evict_oldest_live c)" "length (live (evict_oldest_live c)) = length (live c) - 1"
    and "live_keys (evict_oldest_live c) \<subseteq> live_keys c"
    and "next_generation (evict_oldest_live c) = next_generation c"
proof -
  obtain m q where e: "evict_queue (live c) (queue c) = (m, q)" by force
  have "distinct (map fst (live c))" "set (live c) \<subseteq> set (queue c)" "sorted_wrt (\<lambda>a b. snd a < snd b) (queue c)"
    using assms(1) by (simp_all add: cache_ok_def)
  from evict_queue_ok [OF this(1) assms(2) this(2,3) e] obtain old pre where
    o: "old \<in> set (live c)" "m = live_remove (fst old) (live c)" "set m \<subseteq> set q" "queue c = pre @ q"
    by auto
  then have "map_of (live c) (fst old) = Some (snd old)"
    using assms(1) by (intro map_of_is_SomeI) (auto simp: cache_ok_def)
  then have len: "length m = length (live c) - 1"
    unfolding o(2) by (rule length_live_remove [OF \<open>distinct (map fst (live c))\<close>])
  have "distinct (map fst m)" using o(2) assms(1) live_remove_distinct by (auto simp: cache_ok_def)
  moreover have "sorted_wrt (\<lambda>a b. snd a < snd b) q" "list_all (\<lambda>e. snd e < next_generation c) q" "length q \<le> QUEUE_COMPACT_LEN"
    using assms(1) unfolding cache_ok_def o(4) by (simp_all add: sorted_wrt_append)
  moreover have "length m \<le> SCRIPT_EXECUTION_CACHE_ENTRIES" using assms(1) unfolding cache_ok_def len by linarith
  ultimately show "cache_ok (evict_oldest_live c)"
    using o(3) by (simp add: cache_ok_def evict_oldest_live_def e)
  show "length (live (evict_oldest_live c)) = length (live c) - 1" by (simp add: evict_oldest_live_def e len)
  show "live_keys (evict_oldest_live c) \<subseteq> live_keys c" by (auto simp: live_keys_def evict_oldest_live_def e o(2))
  show "next_generation (evict_oldest_live c) = next_generation c" by (simp add: evict_oldest_live_def e)
qed

definition compact :: "Inner \<Rightarrow> Inner" where
  "compact c = (if length (queue c) \<ge> QUEUE_COMPACT_LEN
     then c\<lparr>queue := filter (\<lambda>(k, g). map_of (live c) k = Some g) (queue c)\<rparr> else c)"

lemma sorted_gen_distinct: "sorted_wrt (\<lambda>a b. snd a < (snd b :: nat)) q \<Longrightarrow> distinct q"
  by (induction q) auto

lemma compact_ok:
  assumes "cache_ok c" "length (live c) < SCRIPT_EXECUTION_CACHE_ENTRIES"
  shows "cache_ok (compact c)" "length (queue (compact c)) < QUEUE_COMPACT_LEN" "live (compact c) = live c"
    and "next_generation (compact c) = next_generation c"
proof -
  let ?q = "filter (\<lambda>(k, g). map_of (live c) k = Some g) (queue c)"
  have sub: "set (live c) \<subseteq> set ?q"
  proof
    fix e
    assume e: "e \<in> set (live c)"
    moreover from this have "map_of (live c) (fst e) = Some (snd e)"
      using assms(1) by (intro map_of_is_SomeI) (auto simp: cache_ok_def)
    ultimately show "e \<in> set ?q" using assms(1) by (cases e) (auto simp: cache_ok_def)
  qed
  have "distinct (queue c)" using assms(1) by (intro sorted_gen_distinct) (simp add: cache_ok_def)
  then have "distinct ?q" by simp
  moreover have "set ?q \<subseteq> set (live c)" by (auto dest: map_of_SomeD)
  ultimately have "length ?q \<le> card (set (live c))" using card_mono [of "set (live c)" "set ?q"] distinct_card [of ?q] by simp
  then have "length ?q \<le> length (live c)" using card_length [of "live c"] by linarith
  then have len: "length ?q < QUEUE_COMPACT_LEN" using assms(2) by linarith
  show "cache_ok (compact c)"
  proof (cases "length (queue c) \<ge> QUEUE_COMPACT_LEN")
    case True
    then have "live (compact c) = live c" "queue (compact c) = ?q" "next_generation (compact c) = next_generation c"
      by (simp_all add: compact_def)
    moreover have "sorted_wrt (\<lambda>a b. snd a < snd b) ?q" "list_all (\<lambda>e. snd e < next_generation c) ?q"
      using assms(1) by (auto simp: cache_ok_def sorted_wrt_filter list_all_iff)
    ultimately show ?thesis using assms(1) sub len by (simp add: cache_ok_def)
  qed (use assms(1) in \<open>simp add: compact_def\<close>)
  show "length (queue (compact c)) < QUEUE_COMPACT_LEN" using len by (auto simp: compact_def)
qed (simp_all add: compact_def)

lemma push_ok:
  assumes "cache_ok c" "length (live c) < SCRIPT_EXECUTION_CACHE_ENTRIES" "length (queue c) < QUEUE_COMPACT_LEN" "key \<notin> live_keys c"
    and "next_generation c + 1 < 2 ^ 64"
  shows "cache_ok (c\<lparr>next_generation := (next_generation c + 1) mod 2 ^ 64, live := (key, next_generation c) # live c,
      queue := queue c @ [(key, next_generation c)]\<rparr>)"
  using assms by (auto simp: cache_ok_def live_keys_def sorted_wrt_append list_all_iff less_Suc_eq)

lemma live_keys_map_of: "map_of (live c) key \<noteq> None \<longleftrightarrow> key \<in> live_keys c"
  by (simp add: live_keys_def map_of_eq_None_iff)

definition make_room :: "Inner \<Rightarrow> Inner" where
  "make_room c = compact (if length (live c) \<ge> SCRIPT_EXECUTION_CACHE_ENTRIES then evict_oldest_live c else c)"

lemma insert_eq:
  "cache_insert_script wtxid flags c =
    (if (wtxid, flags) \<in> live_keys c then c
     else let r = make_room c in
       r\<lparr>next_generation := (next_generation r + 1) mod 2 ^ 64, live := ((wtxid, flags), next_generation r) # live r,
         queue := queue r @ [((wtxid, flags), next_generation r)]\<rparr>)"
  unfolding cache_insert_script_def Let_def live_keys_map_of make_room_def compact_def by simp

lemma make_room_ok:
  assumes "cache_ok c"
  shows "cache_ok (make_room c)" "length (live (make_room c)) < SCRIPT_EXECUTION_CACHE_ENTRIES"
    and "length (queue (make_room c)) < QUEUE_COMPACT_LEN" "live_keys (make_room c) \<subseteq> live_keys c"
    and "next_generation (make_room c) = next_generation c"
proof -
  let ?e = "if length (live c) \<ge> SCRIPT_EXECUTION_CACHE_ENTRIES then evict_oldest_live c else c"
  have gen: "next_generation (compact d) = next_generation d" for d by (simp add: compact_def)
  have ne: "live c \<noteq> []" if "length (live c) \<ge> SCRIPT_EXECUTION_CACHE_ENTRIES" using that by auto
  have "length (live c) \<le> SCRIPT_EXECUTION_CACHE_ENTRIES" using assms by (simp add: cache_ok_def)
  then have e: "cache_ok ?e" "length (live ?e) < SCRIPT_EXECUTION_CACHE_ENTRIES" "live_keys ?e \<subseteq> live_keys c"
    using assms evict_oldest_live_ok [OF assms] ne by auto
  show "cache_ok (make_room c)" "length (live (make_room c)) < SCRIPT_EXECUTION_CACHE_ENTRIES"
      "length (queue (make_room c)) < QUEUE_COMPACT_LEN" "live_keys (make_room c) \<subseteq> live_keys c"
    using compact_ok [OF e(1,2)] e(2,3) by (simp_all add: make_room_def live_keys_def)
  show "next_generation (make_room c) = next_generation c"
    using evict_oldest_live_ok(4) [OF assms] ne by (simp add: make_room_def gen)
qed

lemma make_room_free: "length (live c) < SCRIPT_EXECUTION_CACHE_ENTRIES \<Longrightarrow> live (make_room c) = live c"
  by (simp add: make_room_def compact_def)

lemma insert_ok: "cache_ok c \<Longrightarrow> next_generation c + 1 < 2 ^ 64 \<Longrightarrow> cache_ok (cache_insert_script wtxid flags c)"
  using make_room_ok [of c] push_ok [of "make_room c" "(wtxid, flags)"] by (auto simp: insert_eq Let_def)

lemma insert_keys:
  shows "(wtxid, flags) \<in> live_keys (cache_insert_script wtxid flags c)"
    and "cache_ok c \<Longrightarrow> live_keys (cache_insert_script wtxid flags c) \<subseteq> insert (wtxid, flags) (live_keys c)"
    and "length (live c) < SCRIPT_EXECUTION_CACHE_ENTRIES \<Longrightarrow>
      live_keys (cache_insert_script wtxid flags c) = insert (wtxid, flags) (live_keys c)"
    and "length (live c) < SCRIPT_EXECUTION_CACHE_ENTRIES \<Longrightarrow> (wtxid, flags) \<notin> live_keys c \<Longrightarrow>
      length (live (cache_insert_script wtxid flags c)) = Suc (length (live c))"
  using make_room_ok(4) [of c] make_room_free [of c] by (auto simp: insert_eq Let_def live_keys_def)

lemma take_ok: "cache_ok c \<Longrightarrow> cache_take wtxid flags c = (hit, c') \<Longrightarrow> cache_ok c'"
  using length_live_remove_le [of "(wtxid, flags)" "live c"] live_remove_distinct [of "live c"]
  by (auto simp: cache_ok_def cache_take_def Let_def)

lemma take_keys:
  assumes "cache_take wtxid flags c = (hit, c')"
  shows "hit \<longleftrightarrow> (wtxid, flags) \<in> live_keys c" "live_keys c' = live_keys c - {(wtxid, flags)}"
  using assms live_keys_map_of [of c "(wtxid, flags)"] by (auto simp: cache_take_def Let_def live_keys_def)

lemma take_length:
  assumes "cache_ok c" "cache_take wtxid flags c = (True, c')"
  shows "Suc (length (live c')) = length (live c)"
proof -
  obtain g where g: "map_of (live c) (wtxid, flags) = Some g" using assms(2) by (auto simp: cache_take_def Let_def)
  then have "live c \<noteq> []" by auto
  then show ?thesis
    using g length_live_remove [of "live c" "(wtxid, flags)" g] assms by (auto simp: cache_ok_def cache_take_def Let_def)
qed

section \<open>Reachable caches\<close>

text \<open>\<open>cache_reach n c\<close>: \<open>n\<close> insertions and any number of takes lead to \<open>c\<close>.\<close>

inductive cache_reach :: "nat \<Rightarrow> Inner \<Rightarrow> bool" where
  reach_new: "cache_reach 0 cache_new"
| reach_insert: "cache_reach n c \<Longrightarrow> cache_reach (Suc n) (cache_insert_script wtxid flags c)"
| reach_take: "cache_reach n c \<Longrightarrow> cache_take wtxid flags c = (hit, c') \<Longrightarrow> cache_reach n c'"

lemma cache_reach_ok: "cache_reach n c \<Longrightarrow> n < 2 ^ 64 \<Longrightarrow> cache_ok c \<and> next_generation c \<le> n"
proof (induction rule: cache_reach.induct)
  case (reach_insert n c wtxid flags)
  then have c: "cache_ok c" "next_generation c \<le> n" by simp_all
  then have "cache_ok (cache_insert_script wtxid flags c)" using reach_insert.prems by (intro insert_ok) simp_all
  moreover have "next_generation (cache_insert_script wtxid flags c) \<le> Suc n"
    using c make_room_ok(5) [OF c(1)] mod_less_eq_dividend [of "next_generation c + 1" "2 ^ 64"]
    by (auto simp: insert_eq Let_def)
  ultimately show ?case by blast
next
  case (reach_take n c wtxid flags hit c')
  then show ?case using take_ok by (auto simp: cache_take_def Let_def)
qed (simp add: cache_new_ok, simp add: cache_new_def)

section \<open>Rolling back a window\<close>

text \<open>What a window took, it can put back: the taken keys are distinct, gone from the cache, and fit.\<close>

definition window_of :: "Inner \<Rightarrow> WindowCacheTakes \<Rightarrow> bool" where
  "window_of c w \<longleftrightarrow> cache_ok (wc_cache w) \<and> distinct (wc_taken w) \<and> set (wc_taken w) \<inter> live_keys (wc_cache w) = {}
    \<and> live_keys c = live_keys (wc_cache w) \<union> set (wc_taken w)
    \<and> length (live (wc_cache w)) + length (wc_taken w) \<le> SCRIPT_EXECUTION_CACHE_ENTRIES"

lemma window_new: "cache_ok c \<Longrightarrow> window_of c (takes_new c)"
  by (simp add: window_of_def takes_new_def cache_ok_def)

lemma window_take:
  assumes "window_of c w" "takes_take wtxid flags w = (hit, w')"
  shows "window_of c w'"
proof -
  obtain h c' where t: "cache_take wtxid flags (wc_cache w) = (h, c')" by force
  have w': "w' = w\<lparr>wc_cache := c', wc_taken := (if h then wc_taken w @ [(wtxid, flags)] else wc_taken w)\<rparr>"
    using assms(2) by (auto simp: takes_take_def t)
  have ok: "cache_ok c'" using assms(1) take_ok [OF _ t] by (simp add: window_of_def)
  show ?thesis
  proof (cases h)
    case True
    then show ?thesis
      using assms(1) ok take_keys [OF t] take_length [of "wc_cache w" wtxid flags c'] t by (auto simp: window_of_def w')
  next
    case False
    then have "(wtxid, flags) \<notin> live_keys (wc_cache w)" using take_keys(1) [OF t] by simp
    then have "live c' = live (wc_cache w)"
      using t by (force simp: cache_take_def Let_def live_remove_def filter_id_conv live_keys_def)
    then show ?thesis using assms(1) ok False take_keys [OF t] by (auto simp: window_of_def w')
  qed
qed

lemma reinsert_keys:
  assumes "length (live c) + length ks \<le> SCRIPT_EXECUTION_CACHE_ENTRIES" "distinct ks" "set ks \<inter> live_keys c = {}"
  shows "live_keys (fold (\<lambda>(wtxid, flags). cache_insert_script wtxid flags) ks c) = live_keys c \<union> set ks"
  using assms
proof (induction ks arbitrary: c)
  case (Cons k ks)
  obtain wtxid flags where k: "k = (wtxid, flags)" by force
  let ?c = "cache_insert_script wtxid flags c"
  have less: "length (live c) < SCRIPT_EXECUTION_CACHE_ENTRIES" using Cons.prems(1) by simp
  note ins = insert_keys [where wtxid = wtxid and flags = flags and c = c]
  have "live_keys ?c = insert k (live_keys c)" "length (live ?c) = Suc (length (live c))"
    using ins(3,4) less Cons.prems(3) by (auto simp: k)
  then show ?case using Cons.IH [of ?c] Cons.prems by (auto simp: k)
qed simp

lemma rollback_keys:
  assumes "window_of c w"
  shows "live_keys (takes_rollback_to pos w) = live_keys (wc_cache w) \<union> set (drop pos (wc_taken w))"
  unfolding takes_rollback_to_def
  using assms set_drop_subset [of pos "wc_taken w"]
  by (intro reinsert_keys) (auto simp: window_of_def)

lemma rollback_restores: "window_of c w \<Longrightarrow> live_keys (takes_rollback w) = live_keys c"
  using rollback_keys [of c w 0] by (simp add: takes_rollback_def window_of_def)

text \<open>A window that takes a sequence of entries.\<close>

definition takes_run :: "Inner \<Rightarrow> CacheKey list \<Rightarrow> WindowCacheTakes" where
  "takes_run c keys = foldl (\<lambda>w (wtxid, flags). snd (takes_take wtxid flags w)) (takes_new c) keys"

lemma window_run: "cache_ok c \<Longrightarrow> window_of c (takes_run c keys)"
proof (induction keys rule: rev_induct)
  case (snoc key keys)
  then show ?case
    using window_take [OF snoc.IH [OF snoc.prems] surjective_pairing, of "fst key" "snd key"]
    by (simp add: takes_run_def case_prod_beta)
qed (simp add: takes_run_def window_new)

end
