(* ===== verification/Tx_Rules.thy ===== *)
theory Tx_Rules
  imports Consensus Interpreter Sigops Script_Cache Block_View
begin

text \<open>
  Transaction validation (\<open>src/crates/consensus/src/verify_tx.rs\<close>, and the engine selection of
  \<open>kernel.rs\<close> and \<open>engine.rs\<close>): structure, lock time, value and signature operations of one
  transaction, its scripts, and the batched script checks of a block.

  The external consensus library is the parameter \<open>backend\<close>, \<open>None\<close> when it is not compiled in.
  A block's script source is a record of the two operations the batch uses; its
  native instance is built on the interpreter, the other one wraps the external library.
  The worker pool of the batch returns its results in order, so a batch is a map.
\<close>

section \<open>One transaction without scripts\<close>

definition is_final_tx :: "Tx \<Rightarrow> nat \<Rightarrow> nat \<Rightarrow> bool" where
  "is_final_tx tx block_height cutoff \<longleftrightarrow>
     (let lock_time = unat (tx_lock_time tx) in
      if lock_time = 0 then True
      else let threshold = (if lock_time < LOCKTIME_THRESHOLD then block_height else cutoff) in
        if lock_time < threshold then True
        else list_all (\<lambda>inp. in_sequence inp = SEQUENCE_FINAL) (tx_inputs tx))"

abbreviation MIN_COINBASE_SCRIPT_SIG_SIZE :: nat where "MIN_COINBASE_SCRIPT_SIG_SIZE \<equiv> 2"
abbreviation MAX_COINBASE_SCRIPT_SIG_SIZE :: nat where "MAX_COINBASE_SCRIPT_SIG_SIZE \<equiv> 100"
abbreviation COINBASE_MATURITY :: nat where "COINBASE_MATURITY \<equiv> 100"
abbreviation MAX_BLOCK_SIGOPS_COST :: nat where "MAX_BLOCK_SIGOPS_COST \<equiv> 80000"

definition verify_coinbase_script_sig_size :: "Tx \<Rightarrow> ConsensusError + unit" where
  "verify_coinbase_script_sig_size tx = (case first_opt (tx_inputs tx) of
     Some inp \<Rightarrow>
       if is_coinbase tx then
         let len = length (in_script_sig inp) in
         guardE (\<not> (MIN_COINBASE_SCRIPT_SIG_SIZE \<le> len \<and> len \<le> MAX_COINBASE_SCRIPT_SIG_SIZE)) (CoinbaseScriptSigSize len)
       else Inr ()
   | None \<Rightarrow> Inr ())"

definition check_coinbase_maturity :: "bool \<Rightarrow> nat \<Rightarrow> nat \<Rightarrow> ConsensusError + unit" where
  "check_coinbase_maturity coinbase created_height spend_height =
     (let depth = spend_height - created_height in
      guardE (coinbase \<and> depth < COINBASE_MATURITY)
        (Bip ''COINBASE_MATURITY'' (''spent coinbase output created at height '' @ nat_digits created_height
          @ '' cannot be spent at height '' @ nat_digits spend_height @ '' (depth '' @ nat_digits depth
          @ '' < '' @ nat_digits COINBASE_MATURITY @ '')'')))"

fun outpoints_from :: "nat \<Rightarrow> OutPoint set \<Rightarrow> TxIn list \<Rightarrow> ConsensusError + unit" where
  "outpoints_from input_index seen [] = Inr ()"
| "outpoints_from input_index seen (inp # inps) =
     (if outpoint_is_null (in_prevout inp) then Inl (NullPrevout input_index)
      else if in_prevout inp \<in> seen then Inl (DuplicateInput input_index)
      else outpoints_from (input_index + 1) (insert (in_prevout inp) seen) inps)"

definition verify_transaction_input_outpoints :: "Tx \<Rightarrow> ConsensusError + unit" where
  "verify_transaction_input_outpoints tx =
     (if is_coinbase tx then Inr () else outpoints_from 0 {} (tx_inputs tx))"

fun total_output_from :: "nat \<Rightarrow> TxOut list \<Rightarrow> ConsensusError + nat" where
  "total_output_from acc [] = Inr acc"
| "total_output_from acc (out # outs) =
     (let next_sum = acc + unat (out_value out) in
      if next_sum > u64_max then Inl OutputValueOverflow
      else if next_sum > MAX_MONEY then Inl OutputValueOverflow
      else total_output_from next_sum outs)"

definition total_output_value :: "Tx \<Rightarrow> ConsensusError + nat" where
  "total_output_value tx = total_output_from 0 (tx_outputs tx)"

definition verify_transaction_structure :: "Tx \<Rightarrow> ConsensusError + nat" where
  "verify_transaction_structure tx =
     (if tx_inputs tx = [] then Inl EmptyInputs
      else if tx_outputs tx = [] then Inl EmptyOutputs
      else bindE (total_output_value tx) (\<lambda>output_value.
        bindE (if is_coinbase tx then verify_coinbase_script_sig_size tx else verify_transaction_input_outpoints tx) (\<lambda>_.
        Inr output_value)))"

record TxPrep =
  prep_prevouts :: "(OutPoint \<times> TxOut) list"
  prep_input_value :: nat
  prep_output_value :: nat

fun collect_prevouts ::
    "(nat \<Rightarrow> OutPoint \<Rightarrow> TxOut option) \<Rightarrow> nat \<Rightarrow> TxIn list \<Rightarrow> nat \<Rightarrow> (OutPoint \<times> TxOut) list
      \<Rightarrow> ConsensusError + ((OutPoint \<times> TxOut) list \<times> nat)" where
  "collect_prevouts lookup input_index [] input_value prevouts = Inr (prevouts, input_value)"
| "collect_prevouts lookup input_index (inp # inps) input_value prevouts =
     bindE (ok_or (MissingPrevout input_index) (lookup input_index (in_prevout inp))) (\<lambda>prevout.
       let next_value = input_value + unat (out_value prevout) in
       if next_value > u64_max then Inl OutputValueOverflow
       else collect_prevouts lookup (input_index + 1) inps next_value (prevouts @ [(in_prevout inp, prevout)]))"

definition prepare_tx_checks ::
    "Tx \<Rightarrow> nat \<Rightarrow> nat \<Rightarrow> (nat \<Rightarrow> OutPoint \<Rightarrow> TxOut option) \<Rightarrow> ConsensusError + TxPrep option" where
  "prepare_tx_checks tx height cutoff lookup =
     (if \<not> is_final_tx tx height cutoff then
        Inl (Bip ''BIP113'' (''non-final transaction at height '' @ nat_digits height @ '' locktime cutoff ''
          @ nat_digits cutoff @ '': locktime '' @ nat_digits (unat (tx_lock_time tx))))
      else bindE (verify_transaction_structure tx) (\<lambda>output_value.
        if is_coinbase tx then Inr None
        else bindE (collect_prevouts lookup 0 (tx_inputs tx) 0 []) (\<lambda>(prevouts, input_value).
          Inr (Some \<lparr> prep_prevouts = prevouts, prep_input_value = input_value, prep_output_value = output_value \<rparr>))))"

definition finalize_tx_value_and_sigops :: "Tx \<Rightarrow> TxPrep \<Rightarrow> VerifyFlags \<Rightarrow> ConsensusError + unit" where
  "finalize_tx_value_and_sigops tx prep flags =
     (if prep_input_value prep < prep_output_value prep
      then Inl (InputsLessThanOutputs (prep_input_value prep) (prep_output_value prep))
      else let sigop_cost = transaction_sigop_cost tx (prep_prevouts prep) flags in
        guardE (sigop_cost > MAX_BLOCK_SIGOPS_COST) (SigopsLimit sigop_cost MAX_BLOCK_SIGOPS_COST))"

section \<open>Scripts of one transaction\<close>

definition map_errS :: "('e \<Rightarrow> 'f) \<Rightarrow> ('c, 'e, 'a) sresult \<Rightarrow> ('c, 'f, 'a) sresult" where
  "map_errS f m c = (case m c of (r, c') \<Rightarrow> (map_err f r, c'))"

definition from_prevout_error :: "PrevoutError \<Rightarrow> ConsensusError" where
  "from_prevout_error e = (case e of
     PrevoutCount n_inputs n_prevouts \<Rightarrow> ConsensusPrevoutCount n_inputs n_prevouts
   | PrevoutMismatch input_index \<Rightarrow> ConsensusPrevoutMismatch input_index)"

definition verify_input_script_native ::
    "crypto \<Rightarrow> PreparedTransaction \<Rightarrow> nat \<Rightarrow> VerifyFlags \<Rightarrow> (sig_cache option, ConsensusError, unit) sresult" where
  "verify_input_script_native cr prepared input_index flags =
     bindS (map_errS (\<lambda>e. ScriptFailed input_index (script_error_text e) NativeScripts)
         (verify_input cr prepared input_index flags))
       (\<lambda>_. liftS (Inr ()))"

fun verify_inputs_native ::
    "crypto \<Rightarrow> PreparedTransaction \<Rightarrow> VerifyFlags \<Rightarrow> nat list \<Rightarrow> (sig_cache option, ConsensusError, unit) sresult" where
  "verify_inputs_native cr prepared flags [] = liftS (Inr ())"
| "verify_inputs_native cr prepared flags (i # is) =
     bindS (verify_input_script_native cr prepared i flags) (\<lambda>_. verify_inputs_native cr prepared flags is)"

type_synonym backend = "(Tx \<Rightarrow> (OutPoint \<times> TxOut) list \<Rightarrow> VerifyFlags \<Rightarrow> ConsensusError + unit) option"

definition is_supported :: "backend \<Rightarrow> ValidationEngine \<Rightarrow> bool" where
  "is_supported backend engine \<longleftrightarrow> (case engine of NativeEngine \<Rightarrow> True | KernelEngine \<Rightarrow> backend \<noteq> None)"

definition verify_tx_scripts ::
    "crypto \<Rightarrow> backend \<Rightarrow> Tx \<Rightarrow> (OutPoint \<times> TxOut) list \<Rightarrow> VerifyFlags \<Rightarrow> ValidationEngine
      \<Rightarrow> (sig_cache option, ConsensusError, unit) sresult" where
  "verify_tx_scripts cr backend tx spent_outputs flags engine = (case engine of
     NativeEngine \<Rightarrow>
       bindS (liftS (map_err from_prevout_error (prepared_new tx spent_outputs))) (\<lambda>prepared.
       verify_inputs_native cr prepared flags [0..<length spent_outputs])
   | KernelEngine \<Rightarrow>
       bindS (liftS (map_err from_prevout_error (validate_prevouts tx spent_outputs))) (\<lambda>_.
       liftS (case backend of
           Some k \<Rightarrow> k tx spent_outputs flags
         | None \<Rightarrow> Inl (UnsupportedEngine KernelEngine))))"

definition verify_transaction_with_locktime_cutoff ::
    "crypto \<Rightarrow> backend \<Rightarrow> Tx \<Rightarrow> (OutPoint \<Rightarrow> TxOut option) \<Rightarrow> nat \<Rightarrow> nat \<Rightarrow> VerifyFlags \<Rightarrow> ValidationEngine option
      \<Rightarrow> (sig_cache option, ConsensusError, unit) sresult" where
  "verify_transaction_with_locktime_cutoff cr backend tx utxos height cutoff flags engine =
     bindS (liftS (case engine of
         Some e \<Rightarrow> guardE (\<not> is_supported backend e) (UnsupportedEngine e) | None \<Rightarrow> Inr ())) (\<lambda>_.
     bindS (liftS (prepare_tx_checks tx height cutoff (\<lambda>_ outpoint. utxos outpoint))) (\<lambda>prepared. case prepared of
       None \<Rightarrow> liftS (Inr ())
     | Some prep \<Rightarrow>
         bindS (case engine of
             Some e \<Rightarrow> verify_tx_scripts cr backend tx (prep_prevouts prep) flags e | None \<Rightarrow> liftS (Inr ())) (\<lambda>_.
         liftS (finalize_tx_value_and_sigops tx prep flags))))"

definition verify_transaction where
  "verify_transaction cr backend tx utxos height cutoff flags engine =
     verify_transaction_with_locktime_cutoff cr backend tx utxos height cutoff flags (Some engine)"

definition verify_transaction_non_script ::
    "crypto \<Rightarrow> Tx \<Rightarrow> (OutPoint \<Rightarrow> TxOut option) \<Rightarrow> nat \<Rightarrow> nat \<Rightarrow> VerifyFlags \<Rightarrow> ConsensusError + unit" where
  "verify_transaction_non_script cr tx utxos height cutoff flags =
     fst (verify_transaction_with_locktime_cutoff cr None tx utxos height cutoff flags None None)"

section \<open>The scripts of a block\<close>

record 'p script_source =
  src_prepare_tx :: "nat \<Rightarrow> Tx \<Rightarrow> (OutPoint \<times> TxOut) list \<Rightarrow> ConsensusError + 'p"
  src_verify_input :: "'p \<Rightarrow> nat \<Rightarrow> VerifyFlags \<Rightarrow> ConsensusError + unit"

definition native_source :: "crypto \<Rightarrow> PreparedTransaction script_source" where
  "native_source cr =
     \<lparr> src_prepare_tx = (\<lambda>index tx spent_outputs. map_err from_prevout_error (prepared_new tx spent_outputs)),
       src_verify_input = (\<lambda>prepared input_index flags. fst (verify_input_script_native cr prepared input_index flags None)) \<rparr>"

record 'p PreparedTx =
  pre_error :: "ConsensusError option"
  post_error :: "ConsensusError option"
  checks_start :: nat
  checks_len :: nat
  script_state :: "'p option"

record InputCheck =
  prepared_index :: nat
  check_input_index :: nat

record 'p BlockScriptChecks =
  unit_prepared :: "'p PreparedTx list"
  unit_checks :: "InputCheck list"
  unit_flags :: VerifyFlags

definition err_of :: "'e + 'a \<Rightarrow> 'e option" where
  "err_of r = (case r of Inl e \<Rightarrow> Some e | Inr _ \<Rightarrow> None)"

text \<open>The resolved output of an input, from the transaction's row.\<close>

definition row_lookup :: "TxOut option list \<Rightarrow> nat \<Rightarrow> OutPoint \<Rightarrow> TxOut option" where
  "row_lookup row input_index outpoint = Option.bind (get_at row input_index) id"

text \<open>Whether the cache has the transaction, and the window afterwards.\<close>

definition window_hit :: "hash256 list \<Rightarrow> nat \<Rightarrow> VerifyFlags \<Rightarrow> WindowCacheTakes option \<Rightarrow> bool \<times> WindowCacheTakes option" where
  "window_hit wtxids tx_index flags takes = (case takes of
     None \<Rightarrow> (False, None)
   | Some w \<Rightarrow> (case takes_take (wtxids ! tx_index) flags w of (hit, w') \<Rightarrow> (hit, Some w')))"

text \<open>
  The loop of \<open>prepare_block_input_checks\<close>.  A transaction takes its row of resolved outputs; the
  loop stops after the first transaction that cannot pass without its scripts.
\<close>

fun prepare_block_input_checks ::
    "'p script_source \<Rightarrow> nat \<Rightarrow> nat \<Rightarrow> VerifyFlags \<Rightarrow> TxOut option list list \<Rightarrow> hash256 list \<Rightarrow> nat \<Rightarrow> Tx list
      \<Rightarrow> WindowCacheTakes option \<Rightarrow> 'p PreparedTx list \<Rightarrow> InputCheck list
      \<Rightarrow> ('p PreparedTx list \<times> InputCheck list) \<times> WindowCacheTakes option" where
  "prepare_block_input_checks src height cutoff flags resolved wtxids tx_index [] takes prepared checks =
     ((prepared, checks), takes)"
| "prepare_block_input_checks src height cutoff flags resolved wtxids tx_index (tx # txs) takes prepared checks =
     (case prepare_tx_checks tx height cutoff (row_lookup (resolved ! tx_index)) of
        Inl e \<Rightarrow>
          ((prepared @ [\<lparr> pre_error = Some e, post_error = None, checks_start = length checks, checks_len = 0,
              script_state = None \<rparr>], checks), takes)
      | Inr None \<Rightarrow>
          prepare_block_input_checks src height cutoff flags resolved wtxids (tx_index + 1) txs takes
            (prepared @ [\<lparr> pre_error = None, post_error = None, checks_start = length checks, checks_len = 0,
              script_state = None \<rparr>]) checks
      | Inr (Some prep) \<Rightarrow>
          (let (hit, takes) = window_hit wtxids tx_index flags takes;
               post = err_of (finalize_tx_value_and_sigops tx prep flags) in
           if hit then
             (let prepared = prepared @ [\<lparr> pre_error = None, post_error = post, checks_start = length checks,
                    checks_len = 0, script_state = None \<rparr>] in
              if post \<noteq> None then ((prepared, checks), takes)
              else prepare_block_input_checks src height cutoff flags resolved wtxids (tx_index + 1) txs takes prepared checks)
           else case src_prepare_tx src tx_index tx (prep_prevouts prep) of
               Inl setup_error \<Rightarrow>
                 ((prepared @ [\<lparr> pre_error = Some setup_error, post_error = None, checks_start = length checks,
                    checks_len = 0, script_state = None \<rparr>], checks), takes)
             | Inr state \<Rightarrow>
                 (let n_inputs = length (tx_inputs tx);
                      checks' = checks @ map (\<lambda>input_index.
                        \<lparr> prepared_index = length prepared, check_input_index = input_index \<rparr>) [0..<n_inputs];
                      prepared = prepared @ [\<lparr> pre_error = None, post_error = post, checks_start = length checks,
                        checks_len = n_inputs, script_state = Some state \<rparr>] in
                  if post \<noteq> None then ((prepared, checks'), takes)
                  else prepare_block_input_checks src height cutoff flags resolved wtxids (tx_index + 1) txs takes prepared checks')))"

definition prepare_block_script_checks ::
    "(bytes \<Rightarrow> bytes) \<Rightarrow> 'p script_source \<Rightarrow> BlockView \<Rightarrow> nat \<Rightarrow> nat \<Rightarrow> VerifyFlags \<Rightarrow> WindowCacheTakes option
      \<Rightarrow> (ConsensusError + 'p BlockScriptChecks) \<times> WindowCacheTakes option" where
  "prepare_block_script_checks sh src view height cutoff flags takes =
     (let wtxids = (if takes \<noteq> None then
            (case facts_wtxids (view_facts view) of
               Some ids \<Rightarrow> ids
             | None \<Rightarrow> if facts_has_witness (view_facts view) then fst (witness_ids sh view)
                       else facts_txids (view_facts view))
          else []);
          txs = view_txs view; resolved = view_resolved view in
      if length txs \<noteq> length resolved then (Inl (PrevoutMatrixSize (length txs) (length resolved)), takes)
      else if takes \<noteq> None \<and> length txs \<noteq> length wtxids then (Inl (PrevoutMatrixSize (length txs) (length wtxids)), takes)
      else case prepare_block_input_checks src height cutoff flags resolved wtxids 0 txs takes [] [] of
        ((prepared, checks), takes') \<Rightarrow>
          (Inr \<lparr> unit_prepared = prepared, unit_checks = checks, unit_flags = flags \<rparr>, takes'))"

definition check_input :: "'p script_source \<Rightarrow> 'p BlockScriptChecks \<Rightarrow> InputCheck \<Rightarrow> ConsensusError + unit" where
  "check_input src u check =
     bindE (ok_or (KernelError ''clean non-coinbase tx lost prepared script state'')
         (script_state (unit_prepared u ! prepared_index check)))
       (\<lambda>state. src_verify_input src state (check_input_index check) (unit_flags u))"

definition run_prepared_checks :: "'p script_source \<Rightarrow> 'p BlockScriptChecks list \<Rightarrow> (ConsensusError + unit) list" where
  "run_prepared_checks src units = concat (map (\<lambda>u. map (check_input src u) (unit_checks u)) units)"

record BatchScriptFailure =
  failure_unit :: nat
  failure_error :: ConsensusError

definition layout_failure :: "nat \<Rightarrow> BatchScriptFailure" where
  "layout_failure u = \<lparr> failure_unit = u,
     failure_error = KernelError ''internal: prepared script-check layout does not match its results'' \<rparr>"

fun first_error :: "('e + 'a) list \<Rightarrow> 'e option" where
  "first_error [] = None"
| "first_error (Inl e # rs) = Some e"
| "first_error (Inr _ # rs) = first_error rs"

text \<open>\<open>Inl ()\<close>: the layout does not match.\<close>

fun first_prepared_error :: "'p PreparedTx list \<Rightarrow> (ConsensusError + unit) list \<Rightarrow> unit + ConsensusError option" where
  "first_prepared_error [] results = Inr None"
| "first_prepared_error (prep # preps) results = (case pre_error prep of
     Some e \<Rightarrow> Inr (Some e)
   | None \<Rightarrow> (case get_range results (checks_start prep) (checks_start prep + checks_len prep) of
       None \<Rightarrow> Inl ()
     | Some rs \<Rightarrow> (case first_error rs of
         Some e \<Rightarrow> Inr (Some e)
       | None \<Rightarrow> (case post_error prep of
           Some e \<Rightarrow> Inr (Some e)
         | None \<Rightarrow> first_prepared_error preps results))))"

fun units_failure :: "nat \<Rightarrow> nat \<Rightarrow> 'p BlockScriptChecks list \<Rightarrow> (ConsensusError + unit) list \<Rightarrow> BatchScriptFailure + unit" where
  "units_failure unit_index from [] results = Inr ()"
| "units_failure unit_index from (u # us) results =
     (let to = from + length (unit_checks u) in
      case get_range results from to of
        None \<Rightarrow> Inl (layout_failure unit_index)
      | Some rs \<Rightarrow> (case first_prepared_error (unit_prepared u) rs of
          Inr (Some e) \<Rightarrow> Inl \<lparr> failure_unit = unit_index, failure_error = e \<rparr>
        | Inr None \<Rightarrow> units_failure (unit_index + 1) to us results
        | Inl () \<Rightarrow> Inl (layout_failure unit_index)))"

definition first_unit_failure :: "'p BlockScriptChecks list \<Rightarrow> (ConsensusError + unit) list \<Rightarrow> BatchScriptFailure + unit" where
  "first_unit_failure units results = units_failure 0 0 units results"

definition verify_prepared_units :: "'p script_source \<Rightarrow> 'p BlockScriptChecks list \<Rightarrow> BatchScriptFailure + unit" where
  "verify_prepared_units src units = first_unit_failure units (run_prepared_checks src units)"

definition verify_block_input_scripts ::
    "(bytes \<Rightarrow> bytes) \<Rightarrow> 'p script_source \<Rightarrow> BlockView \<Rightarrow> nat \<Rightarrow> nat \<Rightarrow> VerifyFlags \<Rightarrow> Inner option
      \<Rightarrow> (ConsensusError + unit) \<times> Inner option" where
  "verify_block_input_scripts sh src view height cutoff flags script_cache =
     (case prepare_block_script_checks sh src view height cutoff flags (map_option takes_new script_cache) of
        (Inl e, takes) \<Rightarrow> (Inl e, map_option wc_cache takes)
      | (Inr u, takes) \<Rightarrow> (map_err failure_error (verify_prepared_units src [u]), map_option wc_cache takes))"

section \<open>What an accepted transaction satisfies\<close>

lemma outpoints_from_iff:
  "outpoints_from n seen inps = Inr () \<longleftrightarrow>
    (\<forall>inp \<in> set inps. \<not> outpoint_is_null (in_prevout inp)) \<and> in_prevout ` set inps \<inter> seen = {} \<and> distinct (map in_prevout inps)"
  by (induction inps arbitrary: n seen) auto

lemma total_output_from_iff:
  "acc \<le> MAX_MONEY \<Longrightarrow> total_output_from acc outs = Inr v \<longleftrightarrow>
    v = acc + (\<Sum>out\<leftarrow>outs. unat (out_value out)) \<and> v \<le> MAX_MONEY"
proof (induction outs arbitrary: acc)
  case (Cons out outs)
  show ?case
  proof (cases "acc + unat (out_value out) \<le> MAX_MONEY")
    case True
    then show ?thesis using Cons.IH [OF True] by (simp add: Let_def u64_max_def add.assoc)
  next
    case False
    then show ?thesis by (auto simp: Let_def)
  qed
qed auto

definition row_value :: "(OutPoint \<times> TxOut) list \<Rightarrow> nat" where
  "row_value prevouts = (\<Sum>(_, out)\<leftarrow>prevouts. unat (out_value out))"

lemma row_value_simps [simp]:
  "row_value [] = 0" "row_value ((o1, out) # ps) = unat (out_value out) + row_value ps" "row_value (ps @ qs) = row_value ps + row_value qs"
  by (simp_all add: row_value_def)

text \<open>The previous outputs a lookup gives, each with its outpoint, or none if one is missing.\<close>

definition resolve_from :: "(nat \<Rightarrow> OutPoint \<Rightarrow> TxOut option) \<Rightarrow> nat \<Rightarrow> TxIn list \<Rightarrow> (OutPoint \<times> TxOut) list option" where
  "resolve_from lookup n inps =
     (let found = map (\<lambda>(i, inp). lookup i (in_prevout inp)) (enumerate n inps) in
      if None \<in> set found then None else Some (zip (map in_prevout inps) (map the found)))"

lemma resolve_from_Cons:
  "resolve_from lookup n (inp # inps) = (case lookup n (in_prevout inp) of None \<Rightarrow> None
     | Some out \<Rightarrow> map_option (\<lambda>ps. (in_prevout inp, out) # ps) (resolve_from lookup (Suc n) inps))"
  by (auto simp: resolve_from_def Let_def split: option.split)

lemma resolve_from_Nil [simp]: "resolve_from lookup n [] = Some []"
  by (simp add: resolve_from_def)

lemma collect_prevouts_iff:
  "v \<le> u64_max \<Longrightarrow> collect_prevouts lookup n inps v ps = Inr (ps', v') \<longleftrightarrow>
    (\<exists>qs. resolve_from lookup n inps = Some qs \<and> ps' = ps @ qs \<and> v' = v + row_value qs \<and> v' \<le> u64_max)"
proof (induction inps arbitrary: n v ps)
  case (Cons inp inps)
  show ?case
  proof (cases "lookup n (in_prevout inp)")
    case (Some out)
    show ?thesis
    proof (cases "v + unat (out_value out) \<le> u64_max")
      case True
      from Cons.IH [OF True, of "n + 1"] show ?thesis
        using True Some by (auto simp: resolve_from_Cons Let_def)
    next
      case False
      then show ?thesis using Some by (auto simp: resolve_from_Cons Let_def)
    qed
  qed (simp add: resolve_from_Cons)
qed auto

lemma first_opt_hd: "xs \<noteq> [] \<Longrightarrow> first_opt xs = Some (hd xs)"
  by (cases xs) simp_all

lemma verify_structure_iff:
  "verify_transaction_structure tx = Inr v \<longleftrightarrow> tx_inputs tx \<noteq> [] \<and> tx_outputs tx \<noteq> []
    \<and> v = (\<Sum>out\<leftarrow>tx_outputs tx. unat (out_value out)) \<and> v \<le> MAX_MONEY
    \<and> (if is_coinbase tx then length (in_script_sig (hd (tx_inputs tx))) \<in> {2..100}
       else distinct (map in_prevout (tx_inputs tx)) \<and> (\<forall>inp \<in> set (tx_inputs tx). \<not> outpoint_is_null (in_prevout inp)))"
  using total_output_from_iff [of 0 "tx_outputs tx"]
  by (auto simp: verify_transaction_structure_def total_output_value_def verify_coinbase_script_sig_size_def first_opt_hd
      verify_transaction_input_outpoints_def outpoints_from_iff Let_def split: if_splits)

text \<open>Everything the rules without scripts ask of a transaction.\<close>

definition tx_admissible :: "Tx \<Rightarrow> (OutPoint \<Rightarrow> TxOut option) \<Rightarrow> nat \<Rightarrow> nat \<Rightarrow> VerifyFlags \<Rightarrow> bool" where
  "tx_admissible tx utxos height cutoff flags \<longleftrightarrow>
     is_final_tx tx height cutoff \<and> tx_inputs tx \<noteq> [] \<and> tx_outputs tx \<noteq> []
     \<and> (\<Sum>out\<leftarrow>tx_outputs tx. unat (out_value out)) \<le> MAX_MONEY
     \<and> (if is_coinbase tx then length (in_script_sig (hd (tx_inputs tx))) \<in> {2..100}
        else distinct (map in_prevout (tx_inputs tx))
          \<and> (\<forall>inp \<in> set (tx_inputs tx). \<not> outpoint_is_null (in_prevout inp) \<and> utxos (in_prevout inp) \<noteq> None)
          \<and> (let spent = map (\<lambda>inp. (in_prevout inp, the (utxos (in_prevout inp)))) (tx_inputs tx) in
              row_value spent \<le> u64_max \<and> (\<Sum>out\<leftarrow>tx_outputs tx. unat (out_value out)) \<le> row_value spent
              \<and> transaction_sigop_cost tx spent flags \<le> MAX_BLOCK_SIGOPS_COST))"

lemma resolve_from_utxos:
  "resolve_from (\<lambda>_. utxos) n inps =
    (if \<forall>inp \<in> set inps. utxos (in_prevout inp) \<noteq> None
     then Some (map (\<lambda>inp. (in_prevout inp, the (utxos (in_prevout inp)))) inps) else None)"
  by (induction inps arbitrary: n) (auto simp: resolve_from_Cons split: option.splits)

lemma prepare_tx_checks_utxos:
  "prepare_tx_checks tx height cutoff (\<lambda>_. utxos) = Inr r \<longleftrightarrow>
    is_final_tx tx height cutoff \<and> (\<exists>v. verify_transaction_structure tx = Inr v
      \<and> (if is_coinbase tx then r = None
         else (\<forall>inp \<in> set (tx_inputs tx). utxos (in_prevout inp) \<noteq> None)
           \<and> (let spent = map (\<lambda>inp. (in_prevout inp, the (utxos (in_prevout inp)))) (tx_inputs tx) in
              row_value spent \<le> u64_max \<and> r = Some \<lparr> prep_prevouts = spent, prep_input_value = row_value spent,
                prep_output_value = v \<rparr>)))"
proof -
  have "collect_prevouts (\<lambda>_. utxos) 0 (tx_inputs tx) 0 [] = Inr (ps, w) \<longleftrightarrow>
      (\<forall>inp \<in> set (tx_inputs tx). utxos (in_prevout inp) \<noteq> None)
      \<and> ps = map (\<lambda>inp. (in_prevout inp, the (utxos (in_prevout inp)))) (tx_inputs tx) \<and> w = row_value ps \<and> w \<le> u64_max" for ps w
    by (subst collect_prevouts_iff) (auto simp: resolve_from_utxos)
  then show ?thesis
    by (auto simp: prepare_tx_checks_def Let_def)
qed

lemma verify_non_script_iff:
  "verify_transaction_non_script cr tx utxos height cutoff flags = Inr () \<longleftrightarrow> tx_admissible tx utxos height cutoff flags"
proof -
  have "verify_transaction_non_script cr tx utxos height cutoff flags =
      bindE (prepare_tx_checks tx height cutoff (\<lambda>_. utxos)) (\<lambda>r. case r of None \<Rightarrow> Inr ()
        | Some prep \<Rightarrow> finalize_tx_value_and_sigops tx prep flags)"
    by (auto simp: verify_transaction_non_script_def verify_transaction_with_locktime_cutoff_def bindS_def liftS_def
        split: sum.split option.split prod.split)
  then show ?thesis
    by (auto simp: prepare_tx_checks_utxos verify_structure_iff tx_admissible_def finalize_tx_value_and_sigops_def Let_def
        not_less split: if_splits)
qed

section \<open>A block's scripts, one transaction at a time\<close>

definition or_ok :: "'e option \<Rightarrow> 'e + unit" where
  "or_ok e = (case e of None \<Rightarrow> Inr () | Some x \<Rightarrow> Inl x)"

definition tx_inputs_result :: "'p script_source \<Rightarrow> nat \<Rightarrow> Tx \<Rightarrow> (OutPoint \<times> TxOut) list \<Rightarrow> VerifyFlags \<Rightarrow> ConsensusError + unit" where
  "tx_inputs_result src tx_index tx prevouts flags =
     bindE (src_prepare_tx src tx_index tx prevouts) (\<lambda>state.
     or_ok (first_error (map (\<lambda>i. src_verify_input src state i flags) [0..<length (tx_inputs tx)])))"

text \<open>The reference: each transaction completely, in order, until the first error.\<close>

fun sequential_checks ::
    "'p script_source \<Rightarrow> nat \<Rightarrow> nat \<Rightarrow> VerifyFlags \<Rightarrow> TxOut option list list \<Rightarrow> hash256 list \<Rightarrow> nat \<Rightarrow> Tx list
      \<Rightarrow> WindowCacheTakes option \<Rightarrow> ConsensusError + unit" where
  "sequential_checks src height cutoff flags resolved wtxids tx_index [] takes = Inr ()"
| "sequential_checks src height cutoff flags resolved wtxids tx_index (tx # txs) takes =
     bindE (prepare_tx_checks tx height cutoff (row_lookup (resolved ! tx_index))) (\<lambda>r. case r of
       None \<Rightarrow> sequential_checks src height cutoff flags resolved wtxids (tx_index + 1) txs takes
     | Some prep \<Rightarrow> (case window_hit wtxids tx_index flags takes of (hit, takes') \<Rightarrow>
         bindE (if hit then Inr () else tx_inputs_result src tx_index tx (prep_prevouts prep) flags) (\<lambda>_.
         bindE (finalize_tx_value_and_sigops tx prep flags) (\<lambda>_.
         sequential_checks src height cutoff flags resolved wtxids (tx_index + 1) txs takes'))))"

lemma err_of_simps [simp]: "err_of (Inl e) = Some e" "err_of (Inr x) = None"
  by (simp_all add: err_of_def)

lemma err_of_None_iff: "err_of r = None \<longleftrightarrow> (\<exists>x. r = Inr x)"
  by (cases r) simp_all

lemma err_of_or_ok [simp]: "err_of (or_ok e) = e"
  by (cases e) (simp_all add: or_ok_def)

lemma or_ok_err_of: "or_ok (err_of r) = map_err id (r :: 'e + unit)"
  by (cases r) (simp_all add: or_ok_def)

lemma err_of_bindE:
  "err_of (bindE m f) = (case m of Inl e \<Rightarrow> Some e | Inr x \<Rightarrow> err_of (f x))"
  by (cases m) simp_all

abbreviation tx_slot :: "ConsensusError option \<Rightarrow> ConsensusError option \<Rightarrow> nat \<Rightarrow> nat \<Rightarrow> 'p option \<Rightarrow> 'p PreparedTx" where
  "tx_slot pre post start n state \<equiv>
     \<lparr> pre_error = pre, post_error = post, checks_start = start, checks_len = n, script_state = state \<rparr>"

text \<open>
  What the loop appends, with the results of all its checks at hand, reports the first
  error of the reference.
\<close>

definition reports ::
    "'p script_source \<Rightarrow> VerifyFlags \<Rightarrow> 'p PreparedTx list \<Rightarrow> InputCheck list \<Rightarrow> 'p PreparedTx list \<Rightarrow> InputCheck list
      \<Rightarrow> ConsensusError option \<Rightarrow> bool" where
  "reports src flags P C P' C' e \<longleftrightarrow> (\<exists>Pn Cn. P' = P @ Pn \<and> C' = C @ Cn
     \<and> first_prepared_error Pn (map (check_input src \<lparr> unit_prepared = P', unit_checks = C', unit_flags = flags \<rparr>) C') = Inr e)"

lemma get_range_map: "get_range (map f (C @ X @ Y)) (length C) (length C + length X) = Some (map f X)"
  by (simp add: get_range_def)

lemma get_range_empty [simp]: "n \<le> length xs \<Longrightarrow> get_range xs n n = Some []"
  by (simp add: get_range_def)

lemma reports_stop: "reports src flags P C (P @ [tx_slot (Some e) post n m state]) C (Some e)"
  by (simp add: reports_def)

lemma reports_skip:
  assumes "reports src flags (P @ [tx_slot None None (length C) 0 state]) C P' C' e"
  shows "reports src flags P C P' C' e"
  using assms by (auto simp: reports_def)

lemma reports_post: "reports src flags P C (P @ [tx_slot None (Some e) (length C) 0 state]) C (Some e)"
  by (simp add: reports_def)

abbreviation new_checks :: "nat \<Rightarrow> nat \<Rightarrow> InputCheck list" where
  "new_checks p n \<equiv> map (\<lambda>input_index. \<lparr> prepared_index = p, check_input_index = input_index \<rparr>) [0..<n]"

lemma check_new:
  assumes "P' = P @ tx_slot None post start n (Some state) # Pn"
  shows "map (check_input src \<lparr> unit_prepared = P', unit_checks = C', unit_flags = flags \<rparr>) (new_checks (length P) n) =
    map (\<lambda>i. src_verify_input src state i flags) [0..<n]"
  by (simp add: assms check_input_def)

lemma reports_checks:
  assumes "reports src flags (P @ [tx_slot None None (length C) n (Some state)]) (C @ new_checks (length P) n) P' C' e"
  shows "reports src flags P C P' C'
    (case first_error (map (\<lambda>i. src_verify_input src state i flags) [0..<n]) of Some x \<Rightarrow> Some x | None \<Rightarrow> e)"
proof -
  let ?s = "tx_slot None None (length C) n (Some state)" and ?c = "new_checks (length P) n"
  let ?u = "\<lparr> unit_prepared = P', unit_checks = C', unit_flags = flags \<rparr>"
  obtain Pn Cn where r: "P' = P @ ?s # Pn" "C' = C @ ?c @ Cn" "first_prepared_error Pn (map (check_input src ?u) C') = Inr e"
    using assms by (auto simp: reports_def)
  have "get_range (map (check_input src ?u) C') (length C) (length C + n) = Some (map (\<lambda>i. src_verify_input src state i flags) [0..<n])"
    using get_range_map [of "check_input src ?u" C ?c Cn] check_new [OF r(1), of src C' flags] by (simp add: r(2))
  then have "first_prepared_error (?s # Pn) (map (check_input src ?u) C') =
      Inr (case first_error (map (\<lambda>i. src_verify_input src state i flags) [0..<n]) of Some x \<Rightarrow> Some x | None \<Rightarrow> e)"
    using r(3) by (simp split: option.split)
  then show ?thesis unfolding reports_def using r(1,2) by blast
qed

lemma reports_checks_post:
  "reports src flags P C (P @ [tx_slot None (Some e) (length C) n (Some state)]) (C @ new_checks (length P) n)
    (case first_error (map (\<lambda>i. src_verify_input src state i flags) [0..<n]) of Some x \<Rightarrow> Some x | None \<Rightarrow> Some e)"
proof -
  let ?s = "tx_slot None (Some e) (length C) n (Some state)" and ?c = "new_checks (length P) n"
  let ?u = "\<lparr> unit_prepared = P @ [?s], unit_checks = C @ ?c, unit_flags = flags \<rparr>"
  have "get_range (map (check_input src ?u) (C @ ?c)) (length C) (length C + n) = Some (map (\<lambda>i. src_verify_input src state i flags) [0..<n])"
    using get_range_map [of "check_input src ?u" C ?c "[]"] check_new [of "P @ [?s]" P "Some e" "length C" n state "[]" src "C @ ?c" flags]
    by simp
  then have "first_prepared_error [?s] (map (check_input src ?u) (C @ ?c)) =
      Inr (case first_error (map (\<lambda>i. src_verify_input src state i flags) [0..<n]) of Some x \<Rightarrow> Some x | None \<Rightarrow> Some e)"
    by (simp split: option.split)
  then show ?thesis unfolding reports_def by blast
qed

lemma prepare_reports:
  "prepare_block_input_checks src height cutoff flags resolved wtxids k txs takes P C = ((P', C'), takes') \<Longrightarrow>
   reports src flags P C P' C' (err_of (sequential_checks src height cutoff flags resolved wtxids k txs takes))"
proof (induction txs arbitrary: k takes P C)
  case Nil
  then show ?case by (simp add: reports_def)
next
  case (Cons tx txs)
  let ?seq = "\<lambda>k. sequential_checks src height cutoff flags resolved wtxids k"
  note run = Cons.prems [unfolded prepare_block_input_checks.simps]
  show ?case
  proof (cases "prepare_tx_checks tx height cutoff (row_lookup (resolved ! k))")
    case (Inl e)
    then show ?thesis using run by (simp add: reports_stop flip: append_Cons) (metis reports_stop)
  next
    case (Inr r)
    note prepared = Inr
    show ?thesis
    proof (cases r)
      case None
      then have "prepare_block_input_checks src height cutoff flags resolved wtxids (k + 1) txs takes
          (P @ [tx_slot None None (length C) 0 None]) C = ((P', C'), takes')"
        using run prepared by simp
      from reports_skip [OF Cons.IH [OF this]] show ?thesis using prepared None by simp
    next
      case (Some prep)
      obtain hit takes1 where w: "window_hit wtxids k flags takes = (hit, takes1)" by force
      let ?post = "finalize_tx_value_and_sigops tx prep flags"
      have seq: "?seq k (tx # txs) takes =
          bindE (if hit then Inr () else tx_inputs_result src k tx (prep_prevouts prep) flags) (\<lambda>_.
          bindE ?post (\<lambda>_. ?seq (k + 1) txs takes1))"
        using prepared Some w by simp
      note run' = run [unfolded prepared Some sum.case option.case w Let_def prod.case]
      show ?thesis
      proof (cases hit)
        case True
        note hit_run = run' [unfolded if_P [OF True]] and hit_seq = seq [unfolded if_P [OF True] bindE_simps]
        show ?thesis
        proof (cases ?post)
          case (Inl e)
          then show ?thesis using hit_run unfolding hit_seq by (auto simp: reports_post)
        next
          case (Inr u)
          then have "prepare_block_input_checks src height cutoff flags resolved wtxids (k + 1) txs takes1
              (P @ [tx_slot None None (length C) 0 None]) C = ((P', C'), takes')"
            using hit_run by simp
          from reports_skip [OF Cons.IH [OF this]] show ?thesis unfolding hit_seq Inr by simp
        qed
      next
        case False
        note miss_run = run' [unfolded if_not_P [OF False]] and miss_seq = seq [unfolded if_not_P [OF False]]
        show ?thesis
        proof (cases "src_prepare_tx src k tx (prep_prevouts prep)")
          case (Inl e)
          then show ?thesis using miss_run reports_stop unfolding miss_seq by (auto simp: tx_inputs_result_def)
        next
          case (Inr state)
          let ?first = "first_error (map (\<lambda>i. src_verify_input src state i flags) [0..<length (tx_inputs tx)])"
          have e: "err_of (?seq k (tx # txs) takes) =
              (case ?first of Some x \<Rightarrow> Some x | None \<Rightarrow> err_of (bindE ?post (\<lambda>_. ?seq (k + 1) txs takes1)))"
            unfolding miss_seq using Inr by (simp add: tx_inputs_result_def err_of_bindE or_ok_def split: option.split)
          note state_run = miss_run [unfolded Inr sum.case]
          show ?thesis
          proof (cases ?post)
            case (Inl x)
            then have "P' = P @ [tx_slot None (Some x) (length C) (length (tx_inputs tx)) (Some state)]"
                "C' = C @ new_checks (length P) (length (tx_inputs tx))"
              using state_run by auto
            then show ?thesis unfolding e Inl bindE_simps err_of_simps using reports_checks_post by (simp only:)
          next
            case (Inr u)
            then have "prepare_block_input_checks src height cutoff flags resolved wtxids (k + 1) txs takes1
                (P @ [tx_slot None None (length C) (length (tx_inputs tx)) (Some state)])
                (C @ new_checks (length P) (length (tx_inputs tx))) = ((P', C'), takes')"
              using state_run by simp
            from reports_checks [OF Cons.IH [OF this]] show ?thesis unfolding e Inr bindE_simps .
          qed
        qed
      qed
    qed
  qed
qed

text \<open>The batch gives exactly the result of the reference.\<close>

lemma verify_prepared_unit:
  assumes "prepare_block_input_checks src height cutoff flags resolved wtxids 0 txs takes [] [] = ((P, C), takes')"
  shows "map_err failure_error (verify_prepared_units src [\<lparr> unit_prepared = P, unit_checks = C, unit_flags = flags \<rparr>]) =
    sequential_checks src height cutoff flags resolved wtxids 0 txs takes"
proof -
  let ?u = "\<lparr> unit_prepared = P, unit_checks = C, unit_flags = flags \<rparr>"
  let ?s = "sequential_checks src height cutoff flags resolved wtxids 0 txs takes"
  have "first_prepared_error P (map (check_input src ?u) C) = Inr (err_of ?s)"
    using prepare_reports [OF assms] by (simp add: reports_def)
  moreover have "get_range (map (check_input src ?u) C) 0 (length C) = Some (map (check_input src ?u) C)"
    by (simp add: get_range_def)
  ultimately show ?thesis
    by (cases ?s) (simp_all add: verify_prepared_units_def first_unit_failure_def run_prepared_checks_def)
qed

lemma verify_block_scripts_sequential:
  assumes "length (view_txs view) = length (view_resolved view)"
  shows "fst (verify_block_input_scripts sh src view height cutoff flags None) =
    sequential_checks src height cutoff flags (view_resolved view) [] 0 (view_txs view) None"
proof -
  obtain P C takes' where p: "prepare_block_input_checks src height cutoff flags (view_resolved view) [] 0 (view_txs view) None [] [] = ((P, C), takes')"
    by (metis prod.exhaust)
  show ?thesis
    using verify_prepared_unit [OF p] assms
    by (simp add: verify_block_input_scripts_def prepare_block_script_checks_def Let_def p)
qed

end
