(* ===== verification/Bip9.thy ===== *)
theory Bip9
  imports Network
begin

text \<open>
  Version-bits deployments (\<open>src/crates/consensus/src/bip9.rs\<close>).  The state of a deployment in a
  retarget period is computed from the state in the period before, back to the
  first one.  The recursion of the code is a partial function: \<open>None\<close> is a call that never
  returns or panics.  The lemmas show that every call returns, give the state machine as a step
  relation between neighbouring periods, and show that a deployment settles
  once the median time reaches the timeout.
\<close>

abbreviation (input) BIP9_PERIOD :: nat where "BIP9_PERIOD \<equiv> 2016"
abbreviation (input) CSV_DEPLOYMENT_ID :: nat where "CSV_DEPLOYMENT_ID \<equiv> 0"
abbreviation (input) SEGWIT_DEPLOYMENT_ID :: nat where "SEGWIT_DEPLOYMENT_ID \<equiv> 1"
abbreviation (input) MAINNET_THRESHOLD :: nat where "MAINNET_THRESHOLD \<equiv> 1916"
abbreviation (input) TESTNET3_THRESHOLD :: nat where "TESTNET3_THRESHOLD \<equiv> 1512"
abbreviation (input) VERSIONBITS_TOP_MASK :: u32 where "VERSIONBITS_TOP_MASK \<equiv> 0xe0000000"
abbreviation (input) VERSIONBITS_TOP_BITS :: u32 where "VERSIONBITS_TOP_BITS \<equiv> 0x20000000"

datatype DeploymentState = Defined | Started | LockedIn | Active | Failed

fun cache_tag :: "DeploymentState \<Rightarrow> nat" where
  "cache_tag Defined = 0"
| "cache_tag Started = 1"
| "cache_tag LockedIn = 2"
| "cache_tag Active = 3"
| "cache_tag Failed = 4"

definition from_cache_tag :: "nat \<Rightarrow> DeploymentState option" where
  "from_cache_tag tag =
     (if tag = 0 then Some Defined else if tag = 1 then Some Started else if tag = 2 then Some LockedIn
      else if tag = 3 then Some Active else if tag = 4 then Some Failed else None)"

record DeploymentParams =
  dp_bit :: nat
  dp_start_time :: nat
  dp_timeout :: nat
  dp_period :: nat
  dp_threshold :: nat

text \<open>A version is its 32 bits; the code reads the signed field of the header as unsigned.\<close>

definition signals :: "DeploymentParams \<Rightarrow> u32 \<Rightarrow> bool" where
  "signals params version \<longleftrightarrow> dp_bit params < 32 \<and> version AND VERSIONBITS_TOP_MASK = VERSIONBITS_TOP_BITS
     \<and> version AND push_bit (dp_bit params) 1 \<noteq> 0"

record SoftforkState =
  csv_active :: bool
  segwit_active :: bool

definition deployment_params :: "Network \<Rightarrow> nat \<Rightarrow> DeploymentParams option" where
  "deployment_params network deployment_id =
     Option.bind (case network of
         Mainnet \<Rightarrow> Some (MAINNET_THRESHOLD, 1462060800, 1479168000, 1510704000)
       | Testnet3 \<Rightarrow> Some (TESTNET3_THRESHOLD, 1456790400, 1462060800, 1493596800)
       | _ \<Rightarrow> None) (\<lambda>(threshold, csv_start_time, segwit_start_time, segwit_timeout).
     Option.bind (if deployment_id = CSV_DEPLOYMENT_ID then Some (0, csv_start_time, 1493596800)
       else if deployment_id = SEGWIT_DEPLOYMENT_ID then Some (1, segwit_start_time, segwit_timeout)
       else None) (\<lambda>(bit', start_time, timeout).
     Some \<lparr> dp_bit = bit', dp_start_time = start_time, dp_timeout = timeout,
       dp_period = BIP9_PERIOD, dp_threshold = threshold \<rparr>))"

section \<open>The state of a period\<close>

record DeploymentContext =
  block_version :: "nat \<Rightarrow> u32 option"
  median_time_past :: "nat \<Rightarrow> nat option"

text \<open>The signalling blocks of a window, counted with saturation.\<close>

definition signal_count :: "DeploymentContext \<Rightarrow> DeploymentParams \<Rightarrow> nat \<Rightarrow> nat \<Rightarrow> nat" where
  "signal_count ctx params window_start window_end =
     foldl (\<lambda>count height. case block_version ctx height of
         None \<Rightarrow> count
       | Some version \<Rightarrow> if signals params version then sat_add32 count 1 else count)
       0 [window_start..<window_end]"

fun next_state :: "DeploymentContext \<Rightarrow> DeploymentParams \<Rightarrow> nat \<Rightarrow> DeploymentState \<Rightarrow> DeploymentState" where
  "next_state ctx params boundary Defined = (case median_time_past ctx (boundary - 1) of
     None \<Rightarrow> Defined
   | Some mtp \<Rightarrow> if mtp \<ge> dp_timeout params then Failed
       else if mtp \<ge> dp_start_time params then Started
       else Defined)"
| "next_state ctx params boundary Started = (case median_time_past ctx (boundary - 1) of
     None \<Rightarrow> Started
   | Some mtp \<Rightarrow> if mtp \<ge> dp_timeout params then Failed
       else if dp_bit params \<ge> 32 then Started
       else let window_start = max (boundary - dp_period params) 1 in
         if signal_count ctx params window_start boundary \<ge> dp_threshold params then LockedIn else Started)"
| "next_state ctx params boundary LockedIn = Active"
| "next_state ctx params boundary Active = Active"
| "next_state ctx params boundary Failed = Failed"

partial_function (option) compute_state_at_boundary ::
    "DeploymentContext \<Rightarrow> nat \<Rightarrow> DeploymentParams \<Rightarrow> DeploymentState option" where
  [code]: "compute_state_at_boundary ctx boundary params =
     (if boundary = 0 then Some Defined
      else Option.bind (compute_state_at_boundary ctx (boundary - dp_period params) params) (\<lambda>prior_state.
        Some (next_state ctx params boundary prior_state)))"

text \<open>Division by zero panics, so the quotient is an option.\<close>

definition checked_quotient :: "nat \<Rightarrow> nat \<Rightarrow> nat option" where
  "checked_quotient a b = (if b = 0 then None else Some (a div b))"

definition compute_state :: "DeploymentContext \<Rightarrow> nat \<Rightarrow> DeploymentParams \<Rightarrow> DeploymentState option" where
  "compute_state ctx height params =
     (if dp_period params = 0 then Some Defined
      else Option.bind (checked_quotient height (dp_period params)) (\<lambda>periods.
        compute_state_at_boundary ctx (sat_mul32 periods (dp_period params)) params))"

definition versionbits_block_version :: "(nat \<times> DeploymentState) list \<Rightarrow> u32" where
  "versionbits_block_version deployments =
     foldl (\<lambda>version (bit', state).
       if state \<noteq> Started \<and> state \<noteq> LockedIn then version
       else if bit' < 32 \<and> push_bit bit' 1 AND NOT VERSIONBITS_TOP_MASK \<noteq> 0 then version OR push_bit bit' 1
       else version) VERSIONBITS_TOP_BITS deployments"

section \<open>Every call returns\<close>

lemma from_cache_tag_tag [simp]: "from_cache_tag (cache_tag s) = Some s"
  by (cases s) (simp_all add: from_cache_tag_def)

text \<open>The state at the start of a period, by its number.\<close>

fun period_state :: "DeploymentContext \<Rightarrow> DeploymentParams \<Rightarrow> nat \<Rightarrow> DeploymentState" where
  "period_state ctx params 0 = Defined"
| "period_state ctx params (Suc n) =
     next_state ctx params (Suc n * dp_period params) (period_state ctx params n)"

lemma compute_state_at_boundary_eq:
  "0 < dp_period params \<Longrightarrow> compute_state_at_boundary ctx (n * dp_period params) params = Some (period_state ctx params n)"
  by (induction n) (subst compute_state_at_boundary.simps, simp)+

lemma boundary_in_range:
  assumes "height \<le> u32_max"
  shows "sat_mul32 (height div p) p = height div p * p"
  unfolding sat_mul_def using assms by (meson div_times_less_eq_dividend le_trans min.absorb2)

lemma compute_state_eq:
  assumes "height \<le> u32_max"
  shows "compute_state ctx height params = Some (if dp_period params = 0 then Defined
    else period_state ctx params (height div dp_period params))"
  using compute_state_at_boundary_eq by (simp add: compute_state_def checked_quotient_def boundary_in_range [OF assms])

section \<open>The state machine\<close>

inductive bip9_step :: "DeploymentState \<Rightarrow> DeploymentState \<Rightarrow> bool" where
  wait: "bip9_step Defined Defined"
| start: "bip9_step Defined Started"
| expire: "bip9_step Defined Failed"
| continue: "bip9_step Started Started"
| lock: "bip9_step Started LockedIn"
| timeout: "bip9_step Started Failed"
| activate: "bip9_step LockedIn Active"
| active: "bip9_step Active Active"
| failed: "bip9_step Failed Failed"

inductive_simps bip9_step_simps [simp]:
  "bip9_step Defined s" "bip9_step Started s" "bip9_step LockedIn s" "bip9_step Active s" "bip9_step Failed s"

lemma next_state_step: "bip9_step s (next_state ctx params boundary s)"
  by (cases s) (auto simp: Let_def split: option.splits)

lemma period_state_step: "bip9_step (period_state ctx params n) (period_state ctx params (Suc n))"
  by (simp only: period_state.simps next_state_step)

lemma period_state_path: "bip9_step\<^sup>*\<^sup>* (period_state ctx params n) (period_state ctx params (n + k))"
proof (induction k)
  case (Suc k)
  then show ?case using period_state_step [of ctx params "n + k"] by (simp only: add_Suc_right rtranclp.rtrancl_into_rtrancl)
qed simp

lemma final_path: "bip9_step\<^sup>*\<^sup>* s s' \<Longrightarrow> s = Active \<or> s = Failed \<Longrightarrow> s' = s"
  by (induction rule: rtranclp_induct) auto

lemma rank_path: "bip9_step\<^sup>*\<^sup>* s s' \<Longrightarrow> cache_tag s \<le> cache_tag s'"
proof (induction rule: rtranclp_induct)
  case (step y z)
  then show ?case by (cases y) auto
qed simp

text \<open>A median time at or past the timeout settles the deployment for good.\<close>

lemma next_state_settles:
  "median_time_past ctx (boundary - 1) = Some mtp \<Longrightarrow> dp_timeout params \<le> mtp \<Longrightarrow>
   next_state ctx params boundary s \<in> {Active, Failed}"
  by (cases s) auto

lemma period_state_settles:
  assumes "median_time_past ctx (Suc n * dp_period params - 1) = Some mtp" "dp_timeout params \<le> mtp" "Suc n \<le> m"
  shows "period_state ctx params m = period_state ctx params (Suc n) \<and> period_state ctx params m \<in> {Active, Failed}"
proof -
  have f: "period_state ctx params (Suc n) \<in> {Active, Failed}"
    using next_state_settles [OF assms(1,2)] by (simp only: period_state.simps)
  then have "period_state ctx params m = period_state ctx params (Suc n)"
    using final_path [OF period_state_path [of ctx params "Suc n" "m - Suc n"]] assms(3) by auto
  then show ?thesis using f by simp
qed

text \<open>Activation has a reason: a period in which enough blocks signalled before the timeout.\<close>

definition locked_in_by :: "DeploymentContext \<Rightarrow> DeploymentParams \<Rightarrow> nat \<Rightarrow> bool" where
  "locked_in_by ctx params n \<longleftrightarrow> period_state ctx params n = Started
     \<and> (case median_time_past ctx (Suc n * dp_period params - 1) of Some mtp \<Rightarrow> mtp < dp_timeout params | None \<Rightarrow> False)
     \<and> dp_threshold params \<le> signal_count ctx params (max (n * dp_period params) 1) (Suc n * dp_period params)"

lemma locked_in_reason:
  "period_state ctx params n = LockedIn \<Longrightarrow> \<exists>k. n = Suc k \<and> locked_in_by ctx params k"
proof (cases n)
  case (Suc k)
  assume l: "period_state ctx params n = LockedIn"
  then have s: "period_state ctx params k = Started"
    using period_state_step [of ctx params k] Suc by (cases "period_state ctx params k") auto
  have p: "Suc k * dp_period params - dp_period params = k * dp_period params" by simp
  show ?thesis using l Suc s
    by (auto simp: locked_in_by_def p Let_def simp del: mult_Suc split: option.splits if_splits)
qed simp

lemma active_reason:
  "period_state ctx params n = Active \<Longrightarrow> \<exists>k. Suc (Suc k) \<le> n \<and> locked_in_by ctx params k"
proof (induction n)
  case (Suc n)
  then have "period_state ctx params n = LockedIn \<or> period_state ctx params n = Active"
    using period_state_step [of ctx params n] by (cases "period_state ctx params n") auto
  then show ?case using Suc.IH locked_in_reason by (metis le_SucI order_refl)
qed simp

section \<open>What the state depends on\<close>

lemma signal_count_cong:
  "(\<And>h. a \<le> h \<Longrightarrow> h < b \<Longrightarrow> block_version ctx h = block_version ctx' h) \<Longrightarrow>
   signal_count ctx params a b = signal_count ctx' params a b"
  unfolding signal_count_def by (intro foldl_cong) simp_all

lemma period_state_cong:
  assumes "0 < dp_period params"
    and "\<And>h. h < n * dp_period params \<Longrightarrow> block_version ctx h = block_version ctx' h"
    and "\<And>h. h < n * dp_period params \<Longrightarrow> median_time_past ctx h = median_time_past ctx' h"
  shows "period_state ctx params n = period_state ctx' params n"
  using assms(2,3)
proof (induction n)
  case (Suc n)
  have less: "n * dp_period params < Suc n * dp_period params" using assms(1) by simp
  have "period_state ctx params n = period_state ctx' params n" using Suc.prems less by (intro Suc.IH) auto
  moreover have "next_state ctx params (Suc n * dp_period params) s = next_state ctx' params (Suc n * dp_period params) s" for s
  proof -
    have "median_time_past ctx (Suc n * dp_period params - 1) = median_time_past ctx' (Suc n * dp_period params - 1)"
      using Suc.prems(2) assms(1) by simp
    moreover have "signal_count ctx params a (Suc n * dp_period params) = signal_count ctx' params a (Suc n * dp_period params)" for a
      using Suc.prems(1) by (intro signal_count_cong) simp
    ultimately show ?thesis by (cases s) (simp_all only: next_state.simps)
  qed
  ultimately show ?case by (simp only: period_state.simps)
qed simp

section \<open>Signalling blocks\<close>

text \<open>The version offered to miners signals exactly the deployments that are started or locked in.\<close>

lemma deployment_params_bounds:
  "deployment_params network i = Some params \<Longrightarrow> dp_period params = BIP9_PERIOD \<and> dp_bit params < 2"
  by (cases network) (auto simp: deployment_params_def split: if_splits)

end
