(* ===== verification/Block_Rules.thy ===== *)
theory Block_Rules
  imports Tx_Rules Spend_Sim Bip9
begin

text \<open>
  Block validation without the chain state (\<open>src/crates/consensus/src/verify_block.rs\<close>): script flags
  by height, Merkle root and mutation, size, coinbase placement, signature
  operations, witness commitment, weight, and the binding of a body to its header.
\<close>

abbreviation MAX_BLOCK_WEIGHT :: nat where "MAX_BLOCK_WEIGHT \<equiv> 4000000"
abbreviation WITNESS_SCALE_FACTOR :: nat where "WITNESS_SCALE_FACTOR \<equiv> 4"
abbreviation MERKLE_NODE_SERIALIZED_SIZE :: nat where "MERKLE_NODE_SERIALIZED_SIZE \<equiv> 64"
abbreviation MINIMUM_WITNESS_COMMITMENT :: nat where "MINIMUM_WITNESS_COMMITMENT \<equiv> 38"

definition WITNESS_COMMITMENT_PREFIX :: bytes where
  "WITNESS_COMMITMENT_PREFIX = [0x6a, 0x24, 0xaa, 0x21, 0xa9, 0xed]"

section \<open>Flags\<close>

definition verify_flags :: "Network \<Rightarrow> nat \<Rightarrow> hash256 \<Rightarrow> SoftforkState \<Rightarrow> VerifyFlags" where
  "verify_flags network height block_hash softfork_state =
     (let flags = NONE;
          flags = (if \<not> is_bip16_p2sh_exception network block_hash then flags_union flags P2SH else flags);
          flags = (if is_bip66_active network height then flags_union flags DERSIG else flags);
          flags = (if is_bip65_active network height then flags_union flags CHECKLOCKTIMEVERIFY else flags);
          flags = (if csv_active softfork_state then flags_union flags CHECKSEQUENCEVERIFY else flags);
          flags = (if segwit_active softfork_state then flags_union (flags_union flags WITNESS) NULLDUMMY else flags);
          flags = (if is_taproot_active network height then flags_union flags TAPROOT else flags) in
      flags)"

section \<open>Rules\<close>

definition is_sixty_four_byte_mutation :: "Tx list \<Rightarrow> bool" where
  "is_sixty_four_byte_mutation txs \<longleftrightarrow>
     (case first_opt txs of Some first \<Rightarrow> \<not> is_coinbase first | None \<Rightarrow> False)
     \<and> list_ex (\<lambda>tx. tx_base_size tx = MERKLE_NODE_SERIALIZED_SIZE) txs"

definition verify_merkle_root_and_mutation :: "Block \<Rightarrow> BlockFacts \<Rightarrow> ConsensusError + unit" where
  "verify_merkle_root_and_mutation block facts =
     bindE (case facts_merkle_root facts of
         Some root \<Rightarrow> Inr (root, facts_merkle_mutated facts)
       | None \<Rightarrow> if b_txs block = [] then Inr (replicate 32 0, False) else Inl MerkleRoot) (\<lambda>(root, mutated).
     if h_merkle_root (b_header block) \<noteq> root then Inl MerkleRoot
     else if mutated then Inl MerkleMutation
     else Inr ())"

definition verify_block_merkle_and_size :: "Block \<Rightarrow> BlockFacts \<Rightarrow> ConsensusError + unit" where
  "verify_block_merkle_and_size block facts =
     (if tx_count facts \<noteq> length (b_txs block) then Inl MerkleRoot
      else bindE (verify_merkle_root_and_mutation block facts) (\<lambda>_.
        let size = block_stripped_size block; max_size = MAX_BLOCK_WEIGHT div WITNESS_SCALE_FACTOR in
        guardE (b_txs block = [] \<or> size > max_size) (BlockBaseSize size max_size)))"

fun extra_coinbase :: "nat \<Rightarrow> Tx list \<Rightarrow> ConsensusError + unit" where
  "extra_coinbase tx_index [] = Inr ()"
| "extra_coinbase tx_index (tx # txs) =
     (if is_coinbase tx then Inl (ExtraCoinbase tx_index) else extra_coinbase (tx_index + 1) txs)"

definition verify_coinbase_placement :: "Tx list \<Rightarrow> ConsensusError + unit" where
  "verify_coinbase_placement txs = (case txs of
     [] \<Rightarrow> Inr ()
   | first # rest \<Rightarrow>
       if \<not> is_coinbase first then
         Inl (if is_sixty_four_byte_mutation txs then SixtyFourByteMutation else MissingCoinbase)
       else extra_coinbase 1 rest)"

fun structure_and_sigops :: "nat \<Rightarrow> Tx list \<Rightarrow> ConsensusError + nat" where
  "structure_and_sigops sigop_cost [] = Inr sigop_cost"
| "structure_and_sigops sigop_cost (tx # txs) =
     bindE (verify_transaction_structure tx) (\<lambda>_.
       structure_and_sigops (sat_add32 sigop_cost (sat_mul32 (count_tx_legacy tx) 4)) txs)"

definition verify_block_transactions_and_legacy_sigops :: "Tx list \<Rightarrow> ConsensusError + unit" where
  "verify_block_transactions_and_legacy_sigops txs =
     bindE (structure_and_sigops 0 txs) (\<lambda>sigop_cost.
     guardE (sigop_cost > MAX_BLOCK_SIGOPS_COST) (SigopsLimit sigop_cost MAX_BLOCK_SIGOPS_COST))"

text \<open>\<open>rposition\<close>: the last output that looks like a commitment.\<close>

definition is_commitment_output :: "TxOut \<Rightarrow> bool" where
  "is_commitment_output output \<longleftrightarrow> length (out_script_pubkey output) \<ge> MINIMUM_WITNESS_COMMITMENT
     \<and> slice (out_script_pubkey output) 0 6 = WITNESS_COMMITMENT_PREFIX"

definition witness_commitment_index :: "Tx \<Rightarrow> nat option" where
  "witness_commitment_index coinbase =
     last_opt (filter (\<lambda>i. is_commitment_output (tx_outputs coinbase ! i)) [0..<length (tx_outputs coinbase)])"

definition witness_commitment :: "Block \<Rightarrow> bytes option" where
  "witness_commitment block =
     Option.bind (first_opt (b_txs block)) (\<lambda>coinbase.
     Option.bind (witness_commitment_index coinbase) (\<lambda>index.
     Option.bind (get_at (tx_outputs coinbase) index) (\<lambda>output.
     get_range (out_script_pubkey output) 6 MINIMUM_WITNESS_COMMITMENT)))"

definition witness_commitment_hash_matches ::
    "hash256 lanes_hash \<Rightarrow> (bytes \<Rightarrow> bytes) \<Rightarrow> Block \<Rightarrow> hash256 list \<Rightarrow> bytes \<Rightarrow> bytes \<Rightarrow> bool" where
  "witness_commitment_hash_matches avx2 sh block wtxids commitment reserved =
     (if length wtxids \<noteq> length (b_txs block) then False
      else let leaves = map (\<lambda>(index, id). if index = 0 then replicate 32 0 else id) (enumerate 0 wtxids) in
        case compute_merkle_root avx2 (hash_merkle_pair sh) leaves of
          None \<Rightarrow> False
        | Some root \<Rightarrow> double_sha256 sh (root @ reserved) = commitment)"

definition coinbase_nonce :: "Block \<Rightarrow> ConsensusError + bytes" where
  "coinbase_nonce block = (case Option.bind (first_opt (b_txs block)) (\<lambda>tx. first_opt (tx_inputs tx)) of
     None \<Rightarrow> Inl WitnessNonceSize
   | Some inp \<Rightarrow>
       if length (in_witness inp) \<noteq> 1 \<or> length (in_witness inp ! 0) \<noteq> 32 then Inl WitnessNonceSize
       else Inr (in_witness inp ! 0))"

definition check_witness_malleation ::
    "hash256 lanes_hash \<Rightarrow> (bytes \<Rightarrow> bytes) \<Rightarrow> Block \<Rightarrow> bool \<Rightarrow> hash256 list \<Rightarrow> ConsensusError + unit" where
  "check_witness_malleation avx2 sh block segwit wtxids =
     (let no_witness = guardE (list_ex has_witness (b_txs block)) UnexpectedWitness in
      if segwit then (case witness_commitment block of
          Some commitment \<Rightarrow>
            bindE (coinbase_nonce block) (\<lambda>nonce.
            guardE (\<not> witness_commitment_hash_matches avx2 sh block wtxids commitment nonce) WitnessCommitment)
        | None \<Rightarrow> no_witness)
      else no_witness)"

definition verify_block_witness_rules ::
    "hash256 lanes_hash \<Rightarrow> (bytes \<Rightarrow> bytes) \<Rightarrow> Block \<Rightarrow> bool \<Rightarrow> BlockFacts \<Rightarrow> ConsensusError + unit" where
  "verify_block_witness_rules avx2 sh block segwit facts = (case facts_wtxids facts of
     Some wtxids \<Rightarrow> check_witness_malleation avx2 sh block segwit wtxids
   | None \<Rightarrow>
       if segwit \<and> witness_commitment block \<noteq> None then Inl WitnessNonceSize
       else guardE (facts_has_witness facts) UnexpectedWitness)"

definition verify_block_weight :: "BlockFacts \<Rightarrow> ConsensusError + unit" where
  "verify_block_weight facts =
     guardE (facts_weight facts > MAX_BLOCK_WEIGHT) (BlockWeight (facts_weight facts) MAX_BLOCK_WEIGHT)"

definition verify_block_rules_precomputed ::
    "hash256 lanes_hash \<Rightarrow> (bytes \<Rightarrow> bytes) \<Rightarrow> Block \<Rightarrow> bool \<Rightarrow> BlockFacts \<Rightarrow> ConsensusError + unit" where
  "verify_block_rules_precomputed avx2 sh block segwit facts =
     bindE (verify_block_merkle_and_size block facts) (\<lambda>_.
     bindE (verify_coinbase_placement (b_txs block)) (\<lambda>_.
     bindE (verify_block_transactions_and_legacy_sigops (b_txs block)) (\<lambda>_.
     bindE (verify_block_witness_rules avx2 sh block segwit facts) (\<lambda>_.
     verify_block_weight facts))))"

definition verify_block_rules :: "hash256 lanes_hash \<Rightarrow> (bytes \<Rightarrow> bytes) \<Rightarrow> Block \<Rightarrow> ConsensusError + unit" where
  "verify_block_rules avx2 sh block =
     (let txids = map (txid sh) (b_txs block);
          facts = from_txids avx2 sh (b_txs block) txids;
          facts = (if facts_has_witness facts then or_insert_wtxids_from sh (b_txs block) facts else facts) in
      verify_block_rules_precomputed avx2 sh block True facts)"

definition verify_block_non_contextual :: "hash256 lanes_hash \<Rightarrow> (bytes \<Rightarrow> bytes) \<Rightarrow> Block \<Rightarrow> ConsensusError + unit" where
  "verify_block_non_contextual avx2 sh block =
     (let facts = from_txids avx2 sh (b_txs block) (map (txid sh) (b_txs block)) in
      bindE (verify_block_merkle_and_size block facts) (\<lambda>_.
      bindE (verify_coinbase_placement (b_txs block)) (\<lambda>_.
      verify_block_transactions_and_legacy_sigops (b_txs block))))"

definition verify_merkle_root_with_txids ::
    "hash256 lanes_hash \<Rightarrow> (bytes \<Rightarrow> bytes) \<Rightarrow> Block \<Rightarrow> hash256 list \<Rightarrow> ConsensusError + unit" where
  "verify_merkle_root_with_txids avx2 sh block txids =
     (case merkle_root_and_mutation_borrowed avx2 (hash_merkle_pair sh) txids of
        None \<Rightarrow> Inl MerkleRoot
      | Some (root, mutated) \<Rightarrow>
          if h_merkle_root (b_header block) \<noteq> root then Inl MerkleRoot
          else if mutated then Inl MerkleMutation
          else Inr ())"

definition check_block_body_binding :: "hash256 lanes_hash \<Rightarrow> (bytes \<Rightarrow> bytes) \<Rightarrow> Block \<Rightarrow> bool \<Rightarrow> ConsensusError + unit" where
  "check_block_body_binding avx2 sh block segwit =
     bindE (verify_merkle_root_with_txids avx2 sh block (map (txid sh) (b_txs block))) (\<lambda>_.
     if is_sixty_four_byte_mutation (b_txs block) then Inl SixtyFourByteMutation
     else
       let commitment = witness_commitment block in
       if commitment = None \<and> \<not> list_ex has_witness (b_txs block) then Inr ()
       else bindE (if segwit \<and> commitment \<noteq> None then map_err id (bindE (coinbase_nonce block) (\<lambda>_. Inr ())) else Inr ()) (\<lambda>_.
         check_witness_malleation avx2 sh block segwit (map (wtxid sh) (b_txs block))))"

section \<open>Rules only get stricter\<close>

lemma bit_if_union: "bit (if c then flags_union f g else f) i \<longleftrightarrow> bit f i \<or> c \<and> bit g i"
  by (simp add: flags_union_def bit_or_iff)

lemma bit_verify_flags:
  "bit (verify_flags network height block_hash sf) i \<longleftrightarrow>
    i = 0 \<and> \<not> is_bip16_p2sh_exception network block_hash \<or> i = 2 \<and> is_bip66_active network height
    \<or> i = 9 \<and> is_bip65_active network height \<or> i = 10 \<and> csv_active sf
    \<or> (i = 11 \<or> i = 4) \<and> segwit_active sf \<or> i = 17 \<and> is_taproot_active network height"
  unfolding verify_flags_def Let_def
  by (auto simp: bit_if_union flags_union_def bit_or_iff flag_bits)

lemma verify_flags_mono:
  assumes "height \<le> height'" "csv_active sf \<longrightarrow> csv_active sf'" "segwit_active sf \<longrightarrow> segwit_active sf'"
    and "\<not> is_bip16_p2sh_exception network block_hash'"
  shows "flags_le (verify_flags network height block_hash sf) (verify_flags network height' block_hash' sf')"
  using assms by (auto simp: flags_le_bit bit_verify_flags activation_defs)

section \<open>What the rules establish\<close>

lemma tx_base_size_pos: "1 \<le> tx_base_size tx"
  unfolding tx_base_size_def by (simp add: sat_add_def u64_max_def)

lemma length_le_stripped_size:
  assumes "block_stripped_size b \<le> 1000000"
  shows "length (b_txs b) < 2 ^ 64"
proof -
  have "length txs \<le> sum_list (map tx_base_size txs)" for txs
  proof (induction txs)
    case (Cons tx txs)
    then show ?case using tx_base_size_pos [of tx] by simp
  qed simp
  moreover have "sum_list (map tx_base_size (b_txs b)) \<le> 1000000"
    using assms by (auto simp: block_stripped_size_def sat_add_def u64_max_def)
  ultimately have "length (b_txs b) \<le> 1000000" by (rule le_trans)
  then show ?thesis by simp
qed

lemma weight_bounds_tx:
  assumes "decoded_block_weight txs \<le> 4000000" "tx \<in> set txs"
  shows "tx_consensus_size tx \<le> 4000000"
proof -
  have start: "sat_add64 a b = min u64_max (a + b)" for a b by (simp add: sat_add_def)
  have "min u64_max (k + (\<Sum>tx\<leftarrow>txs. tx_consensus_size tx)) \<le> 4000000" if "k = 80 + encoded_len (length txs)" for k
    using assms(1) unfolding decoded_block_weight_def Let_def start [of 80 "encoded_len (length txs)"] foldl_sizes that
    by (auto simp: sat_add_def u64_max_def)
  then have "(\<Sum>tx\<leftarrow>txs. tx_consensus_size tx) \<le> 4000000" by (force simp: u64_max_def)
  then show ?thesis using member_le_sum_list [of "tx_consensus_size tx" "map tx_consensus_size txs"] assms(2) by force
qed

lemma structure_and_sigops_all:
  "structure_and_sigops c txs = Inr n \<Longrightarrow> list_all (\<lambda>tx. tx_inputs tx \<noteq> [] \<and> tx_outputs tx \<noteq> []) txs"
  by (induction txs arbitrary: c) (auto simp: verify_structure_iff)

definition witness_leaves :: "(bytes \<Rightarrow> bytes) \<Rightarrow> Tx list \<Rightarrow> hash256 list" where
  "witness_leaves sh txs = replicate 32 0 # map (wtxid sh) (tl txs)"

lemma witness_leaves_eq:
  assumes "txs \<noteq> []"
  shows "map (\<lambda>(index, id). if index = 0 then replicate 32 0 else id) (enumerate 0 (map (wtxid sh) txs)) = witness_leaves sh txs"
proof -
  have tail: "map (\<lambda>(index :: nat, id). if index = 0 then z else id) (enumerate (Suc k) ids) = ids" for k ids and z :: hash256
    by (induction ids arbitrary: k) simp_all
  from assms obtain t ts where "txs = t # ts" by (cases txs) auto
  then show ?thesis using tail [of "replicate 32 0" 0 "map (wtxid sh) ts"] by (simp add: witness_leaves_def)
qed

lemma coinbase_nonce_Inr:
  "coinbase_nonce b = Inr n \<Longrightarrow> is_coinbase (hd (b_txs b)) \<Longrightarrow> in_witness (hd (tx_inputs (hd (b_txs b)))) = [n] \<and> length n = 32"
  by (cases "b_txs b"; cases "tx_inputs (hd (b_txs b))")
    (auto simp: coinbase_nonce_def length_Suc_conv split: if_splits)

text \<open>The facts of an accepted block about its Merkle tree and its witness commitment.\<close>

definition commits_witness :: "(bytes \<Rightarrow> bytes) \<Rightarrow> Block \<Rightarrow> bool" where
  "commits_witness sh b \<longleftrightarrow> (case witness_commitment b of
     None \<Rightarrow> \<not> list_ex has_witness (b_txs b)
   | Some c \<Rightarrow> \<exists>n. in_witness (hd (tx_inputs (hd (b_txs b)))) = [n] \<and> length n = 32
       \<and> double_sha256 sh (lw_root (hash_merkle_pair sh) (witness_leaves sh (b_txs b)) @ n) = c)"

lemma from_txids_simps [simp]:
  "facts_wtxids (from_txids avx2 sh txs ids) = None" "facts_txids (from_txids avx2 sh txs ids) = ids"
  "facts_has_witness (from_txids avx2 sh txs ids) = list_ex has_witness txs"
  "facts_weight (from_txids avx2 sh txs ids) = decoded_block_weight txs"
  by (auto simp: from_txids_def split: prod.splits)

lemma or_insert_simps [simp]:
  "facts_txids (or_insert_wtxids_from sh txs f) = facts_txids f" "facts_weight (or_insert_wtxids_from sh txs f) = facts_weight f"
  "facts_merkle_root (or_insert_wtxids_from sh txs f) = facts_merkle_root f"
  "facts_merkle_mutated (or_insert_wtxids_from sh txs f) = facts_merkle_mutated f"
  "facts_has_witness (or_insert_wtxids_from sh txs f) = facts_has_witness f"
  by (auto simp: or_insert_wtxids_from_def split: option.splits)

definition digest_hash :: "(bytes \<Rightarrow> bytes) \<Rightarrow> bool" where
  "digest_hash sh \<longleftrightarrow> (\<forall>x. length (sh x) = 32)"

lemma digest_nodes: "digest_hash sh \<Longrightarrow> hash_node (txid sh tx) \<and> hash_node (wtxid sh tx) \<and> hash_node (hash_merkle_pair sh a b)"
  by (simp add: digest_hash_def txid_def wtxid_def hash_merkle_pair_def double_sha256_def)

lemma witness_rules_commit:
  assumes ok: "verify_block_witness_rules avx2 sh b True facts = Inr ()" and cb: "is_coinbase (hd (b_txs b))" "b_txs b \<noteq> []"
    and kernel: "kernel_ok hash_node avx2 (hash_merkle_pair sh)" and digest: "digest_hash sh"
    and w: "facts_wtxids facts = (if facts_has_witness facts then Some (map (wtxid sh) (b_txs b)) else None)"
      "facts_has_witness facts = list_ex has_witness (b_txs b)"
  shows "commits_witness sh b"
proof (cases "witness_commitment b")
  case None
  then show ?thesis
    using ok w by (auto simp: commits_witness_def verify_block_witness_rules_def check_witness_malleation_def split: if_splits option.splits)
next
  case (Some c)
  then have "facts_has_witness facts" using ok w by (auto simp: verify_block_witness_rules_def split: if_splits)
  then obtain n where n: "coinbase_nonce b = Inr n"
      "witness_commitment_hash_matches avx2 sh b (map (wtxid sh) (b_txs b)) c n"
    using ok Some w by (auto simp: verify_block_witness_rules_def check_witness_malleation_def)
  have "list_all hash_node (witness_leaves sh (b_txs b))"
    using digest_nodes [OF digest] by (auto simp: witness_leaves_def list_all_iff)
  from compute_merkle_root_eq [OF kernel this]
  have "double_sha256 sh (lw_root (hash_merkle_pair sh) (witness_leaves sh (b_txs b)) @ n) = c"
    using n(2) by (auto simp: witness_commitment_hash_matches_def Let_def witness_leaves_eq [OF cb(2)] tree_root_def
        split: option.splits if_splits)
  then show ?thesis
    using coinbase_nonce_Inr [OF n(1) cb(1)] Some by (auto simp: commits_witness_def)
qed

lemma verify_block_rules_facts:
  assumes ok: "verify_block_rules avx2 sh b = Inr ()"
    and kernel: "kernel_ok hash_node avx2 (hash_merkle_pair sh)" and digest: "digest_hash sh"
  shows "b_txs b \<noteq> []" "lw_root (hash_merkle_pair sh) (map (txid sh) (b_txs b)) = h_merkle_root (b_header b)"
    "\<not> lw_mut (hash_merkle_pair sh) (map (txid sh) (b_txs b))" "is_coinbase (hd (b_txs b))"
    "list_all (\<lambda>tx. tx_inputs tx \<noteq> [] \<and> tx_outputs tx \<noteq> []) (b_txs b)"
    "list_all (\<lambda>tx. tx_consensus_size tx \<le> 4000000) (b_txs b)" "commits_witness sh b"
proof -
  let ?f0 = "from_txids avx2 sh (b_txs b) (map (txid sh) (b_txs b))"
  define f where "f = (if facts_has_witness ?f0 then or_insert_wtxids_from sh (b_txs b) ?f0 else ?f0)"
  have rules: "verify_block_merkle_and_size b f = Inr ()" "verify_coinbase_placement (b_txs b) = Inr ()"
    "verify_block_transactions_and_legacy_sigops (b_txs b) = Inr ()" "verify_block_witness_rules avx2 sh b True f = Inr ()"
    "verify_block_weight f = Inr ()"
    using ok by (auto simp: verify_block_rules_def Let_def f_def verify_block_rules_precomputed_def)
  show ne: "b_txs b \<noteq> []" using rules(1) by (auto simp: verify_block_merkle_and_size_def split: if_splits)
  have "length (b_txs b) < 2 ^ 64"
    using rules(1) by (intro length_le_stripped_size) (auto simp: verify_block_merkle_and_size_def Let_def split: if_splits)
  moreover have "list_all hash_node (map (txid sh) (b_txs b))" using digest_nodes [OF digest] by (simp add: list_all_iff)
  ultimately have "merkle_root_and_mutation_borrowed avx2 (hash_merkle_pair sh) (map (txid sh) (b_txs b)) =
      tree_root (hash_merkle_pair sh) (map (txid sh) (b_txs b))"
    using merkle_root_borrowed_eq [OF kernel] by simp
  then have root: "facts_merkle_root f = Some (lw_root (hash_merkle_pair sh) (map (txid sh) (b_txs b)))"
    "facts_merkle_mutated f = lw_mut (hash_merkle_pair sh) (map (txid sh) (b_txs b))"
    using ne by (simp_all add: f_def from_txids_def facts_merkle_def tree_root_def)
  show "lw_root (hash_merkle_pair sh) (map (txid sh) (b_txs b)) = h_merkle_root (b_header b)"
    "\<not> lw_mut (hash_merkle_pair sh) (map (txid sh) (b_txs b))"
    using rules(1) root by (auto simp: verify_block_merkle_and_size_def verify_merkle_root_and_mutation_def split: if_splits)
  show cb: "is_coinbase (hd (b_txs b))"
    using rules(2) ne by (auto simp: verify_coinbase_placement_def split: list.splits if_splits)
  show "list_all (\<lambda>tx. tx_inputs tx \<noteq> [] \<and> tx_outputs tx \<noteq> []) (b_txs b)"
    using rules(3) structure_and_sigops_all by (auto simp: verify_block_transactions_and_legacy_sigops_def)
  show "list_all (\<lambda>tx. tx_consensus_size tx \<le> 4000000) (b_txs b)"
    using rules(5) weight_bounds_tx by (auto simp: verify_block_weight_def list_all_iff f_def not_less split: if_splits)
  show "commits_witness sh b"
    using or_insert_wtxids_eq [of ?f0 sh "b_txs b"]
    by (intro witness_rules_commit [OF rules(4) cb ne kernel digest]) (simp_all add: f_def)
qed

end
