(* ===== verification/Block_Unique.thy ===== *)
theory Block_Unique
  imports Block_Rules Layout
begin

text \<open>
  A header determines the block that passes the rules of \<open>verify_block.rs\<close>: two accepted blocks
  with one Merkle root have the same transactions, witnesses included, unless
  two of the strings hashed for them collide.  The Merkle tree fixes the
  transactions without witnesses, the commitment in the coinbase fixes the witnesses.
\<close>

definition tree_strings :: "(bytes \<Rightarrow> bytes) \<Rightarrow> hash256 list \<Rightarrow> bytes set" where
  "tree_strings sh leaves = (\<lambda>(l, r). l @ r) ` set (hashed_pairs (hash_merkle_pair sh) leaves)"

definition block_strings :: "(bytes \<Rightarrow> bytes) \<Rightarrow> Block \<Rightarrow> bytes set" where
  "block_strings sh b = set (map encode_tx_base (b_txs b)) \<union> set (map encode_tx (b_txs b))
     \<union> tree_strings sh (map (txid sh) (b_txs b)) \<union> tree_strings sh (witness_leaves sh (b_txs b))
     \<union> (\<lambda>n. lw_root (hash_merkle_pair sh) (witness_leaves sh (b_txs b)) @ n) ` set (in_witness (hd (tx_inputs (hd (b_txs b)))))"

definition collision_free :: "(bytes \<Rightarrow> bytes) \<Rightarrow> Block \<Rightarrow> Block \<Rightarrow> bool" where
  "collision_free sh a b \<longleftrightarrow> inj_on (double_sha256 sh) (block_strings sh a \<union> block_strings sh b)"

lemma inj_pairs:
  assumes inj: "inj_on (double_sha256 sh) S" and sub: "tree_strings sh xs \<subseteq> S" "tree_strings sh ys \<subseteq> S"
    and digest: "digest_hash sh" and nodes: "list_all hash_node xs" "list_all hash_node ys"
  shows "inj_on (case_prod (hash_merkle_pair sh)) (set (hashed_pairs (hash_merkle_pair sh) xs) \<union> set (hashed_pairs (hash_merkle_pair sh) ys))"
proof (rule inj_onI)
  let ?P = "set (hashed_pairs (hash_merkle_pair sh) xs) \<union> set (hashed_pairs (hash_merkle_pair sh) ys)"
  fix p q
  assume pq: "p \<in> ?P" "q \<in> ?P" "case_prod (hash_merkle_pair sh) p = case_prod (hash_merkle_pair sh) q"
  have closed: "hash_node (hash_merkle_pair sh a b)" for a b using digest_nodes [OF digest] by blast
  have node: "hash_node (fst r) \<and> hash_node (snd r)" if "r \<in> ?P" for r
    using that hashed_pairs_node [of hash_node, OF closed nodes(1), of r] hashed_pairs_node [of hash_node, OF closed nodes(2), of r] by auto
  have mem: "fst r @ snd r \<in> S" if "r \<in> ?P" for r
    using that sub by (force simp: tree_strings_def split: prod.splits)
  have "fst p @ snd p = fst q @ snd q"
    using inj_onD [OF inj _ mem [OF pq(1)] mem [OF pq(2)]] pq(3) by (simp add: hash_merkle_pair_def split: prod.splits)
  then show "p = q" using node [OF pq(1)] node [OF pq(2)] by (simp add: prod_eq_iff)
qed

lemma lw_root_node:
  assumes "digest_hash sh" "list_all hash_node xs" "xs \<noteq> []"
  shows "hash_node (lw_root (hash_merkle_pair sh) xs)"
  using assms(2,3)
proof (induction "length xs" arbitrary: xs rule: less_induct)
  case less
  show ?case
  proof (cases "length xs > 1")
    case True
    have "list_all hash_node (parents (hash_merkle_pair sh) xs)"
      using digest_nodes [OF assms(1)] less.prems(1) by (intro parents_node [of hash_node None]) (auto simp: kernel_ok_def)
    moreover have "length (parents (hash_merkle_pair sh) xs) < length xs" using True by simp
    ultimately show ?thesis
      using less.hyps [of "parents (hash_merkle_pair sh) xs"] lw_step [OF True] less.prems(2) by simp
  next
    case False
    then obtain x where "xs = [x]" using less.prems(2) by (cases xs) auto
    then show ?thesis using less.prems(1) by simp
  qed
qed

lemma strip_no_witness: "\<not> has_witness tx \<Longrightarrow> strip_witness tx = tx"
proof -
  assume "\<not> has_witness tx"
  then have "map (\<lambda>i. i\<lparr>in_witness := []\<rparr>) (tx_inputs tx) = tx_inputs tx"
    by (intro map_idI) (auto simp: has_witness_def list_ex_iff)
  then show ?thesis by (simp add: strip_witness_def)
qed

lemma strip_all_no_witness: "\<not> list_ex has_witness txs \<Longrightarrow> map strip_witness txs = txs"
  by (induction txs) (simp_all add: strip_no_witness)

lemma tx_outputs_strip: "tx_outputs (strip_witness tx) = tx_outputs tx"
  by (simp add: strip_witness_def)

lemma length_inputs_strip: "length (tx_inputs (strip_witness tx)) = length (tx_inputs tx)"
  by (simp add: strip_witness_def)

lemma strip_single:
  assumes "strip_witness a = strip_witness b" "is_coinbase a" "is_coinbase b"
    and "in_witness (hd (tx_inputs a)) = in_witness (hd (tx_inputs b))"
  shows "a = b"
proof -
  obtain i j where ij: "tx_inputs a = [i]" "tx_inputs b = [j]"
    using assms(2,3) by (auto simp: is_coinbase_def length_Suc_conv)
  have "i\<lparr>in_witness := []\<rparr> = j\<lparr>in_witness := []\<rparr>" "tx_version a = tx_version b" "tx_outputs a = tx_outputs b" "tx_lock_time a = tx_lock_time b"
    using assms(1) ij by (auto simp: strip_witness_def dest: arg_cong [where f = tx_inputs] arg_cong [where f = tx_version]
        arg_cong [where f = tx_outputs] arg_cong [where f = tx_lock_time])
  then have "i = j" using assms(4) ij
    by (cases i; cases j) simp
  then show ?thesis
    using ij \<open>tx_version a = _\<close> \<open>tx_outputs a = _\<close> \<open>tx_lock_time a = _\<close> by (cases a; cases b) simp
qed

lemma map_inj_list: "map f xs = map g ys \<Longrightarrow> (\<And>x y. x \<in> set xs \<Longrightarrow> y \<in> set ys \<Longrightarrow> f x = g y \<Longrightarrow> h x = h y) \<Longrightarrow> map h xs = map h ys"
  by (induction xs arbitrary: ys) (auto simp: Cons_eq_map_conv map_eq_Cons_conv)

text \<open>What acceptance says of one block, in the form the comparison uses.\<close>

definition sealed :: "(bytes \<Rightarrow> bytes) \<Rightarrow> Block \<Rightarrow> bool" where
  "sealed sh b \<longleftrightarrow> b_txs b \<noteq> [] \<and> lw_root (hash_merkle_pair sh) (map (txid sh) (b_txs b)) = h_merkle_root (b_header b)
     \<and> \<not> lw_mut (hash_merkle_pair sh) (map (txid sh) (b_txs b)) \<and> is_coinbase (hd (b_txs b))
     \<and> list_all (\<lambda>tx. decodable tx \<and> length (encode_tx tx) \<le> u32_max \<and> length (encode_tx_base tx) \<le> u32_max) (b_txs b)
     \<and> commits_witness sh b"

lemma sealedD:
  assumes "sealed sh b"
  shows "b_txs b \<noteq> []" "lw_root (hash_merkle_pair sh) (map (txid sh) (b_txs b)) = h_merkle_root (b_header b)"
    "\<not> lw_mut (hash_merkle_pair sh) (map (txid sh) (b_txs b))" "is_coinbase (hd (b_txs b))"
    "tx \<in> set (b_txs b) \<Longrightarrow> decodable tx" "tx \<in> set (b_txs b) \<Longrightarrow> length (encode_tx tx) \<le> u32_max"
    "tx \<in> set (b_txs b) \<Longrightarrow> length (encode_tx_base tx) \<le> u32_max" "commits_witness sh b"
  using assms unfolding sealed_def list_all_iff by blast+

lemma block_strings_parts:
  "tx \<in> set (b_txs b) \<Longrightarrow> encode_tx_base tx \<in> block_strings sh b" "tx \<in> set (b_txs b) \<Longrightarrow> encode_tx tx \<in> block_strings sh b"
  "tree_strings sh (map (txid sh) (b_txs b)) \<subseteq> block_strings sh b" "tree_strings sh (witness_leaves sh (b_txs b)) \<subseteq> block_strings sh b"
  "in_witness (hd (tx_inputs (hd (b_txs b)))) = [n] \<Longrightarrow>
    lw_root (hash_merkle_pair sh) (witness_leaves sh (b_txs b)) @ n \<in> block_strings sh b"
  unfolding block_strings_def by auto

lemma collision_freeD:
  "collision_free sh a b \<Longrightarrow> double_sha256 sh x = double_sha256 sh y \<Longrightarrow> x \<in> block_strings sh a \<Longrightarrow> y \<in> block_strings sh b \<Longrightarrow> x = y"
  unfolding collision_free_def inj_on_def by blast

lemma collision_free_pairs:
  assumes "collision_free sh a b" "tree_strings sh xs \<subseteq> block_strings sh a" "tree_strings sh ys \<subseteq> block_strings sh b"
    and "digest_hash sh" "list_all hash_node xs" "list_all hash_node ys"
  shows "inj_on (case_prod (hash_merkle_pair sh)) (set (hashed_pairs (hash_merkle_pair sh) xs) \<union> set (hashed_pairs (hash_merkle_pair sh) ys))"
  using assms(2,3) by (intro inj_pairs [OF assms(1) [unfolded collision_free_def] _ _ assms(4-6)]) blast+

lemma sealedI:
  assumes "verify_block_rules avx2 sh b = Inr ()" "kernel_ok hash_node avx2 (hash_merkle_pair sh)" "digest_hash sh"
    and "list_all tx_hashes_wf (b_txs b)"
  shows "sealed sh b"
proof -
  note facts = verify_block_rules_facts [OF assms(1-3)]
  have "length (encode_tx tx) \<le> u32_max" "length (encode_tx_base tx) \<le> u32_max" if "tx \<in> set (b_txs b)" for tx
  proof -
    have wf: "tx_hashes_wf tx" using assms(4) that by (simp add: list_all_iff)
    have "tx_consensus_size tx \<le> 4000000" using facts(6) that by (simp add: list_all_iff)
    then have len: "length (encode_tx tx) \<le> 4000000"
      unfolding tx_consensus_size_eq [OF wf] by (simp add: u64_max_def min_def split: if_splits)
    then show "length (encode_tx tx) \<le> u32_max" by (simp add: u32_max_def)
    have "length (encode_tx_base tx) \<le> length (encode_tx tx)"
      using length_encode_tx_witness [of tx] by (cases "has_witness tx") (simp_all add: encode_tx_def)
    then show "length (encode_tx_base tx) \<le> u32_max" using len by (simp add: u32_max_def)
  qed
  then show ?thesis
    using facts assms(4) unfolding sealed_def by (auto simp: list_all_iff decodable_def)
qed

lemma sealed_strip_unique:
  assumes a: "sealed sh a" and b: "sealed sh b" and root: "h_merkle_root (b_header a) = h_merkle_root (b_header b)"
    and depth: "tree_depth (length (b_txs a)) = tree_depth (length (b_txs b))"
    and inj: "collision_free sh a b" and digest: "digest_hash sh"
  shows "map strip_witness (b_txs a) = map strip_witness (b_txs b)"
proof -
  have nodes: "list_all hash_node (map (txid sh) txs)" for txs using digest_nodes [OF digest] by (simp add: list_all_iff)
  note pairs = collision_free_pairs [OF inj block_strings_parts(3) block_strings_parts(3) digest nodes nodes]
  note roots = trans [OF trans [OF sealedD(2) [OF a] root] sealedD(2) [OF b, symmetric]]
  have "map (txid sh) (b_txs a) \<noteq> []" "map (txid sh) (b_txs b) \<noteq> []"
    using sealedD(1) [OF a] sealedD(1) [OF b] by (simp_all only: map_is_Nil_conv not_False_eq_True)
  moreover have "tree_depth (length (map (txid sh) (b_txs a))) = tree_depth (length (map (txid sh) (b_txs b)))"
    unfolding length_map by (rule depth)
  ultimately have "map (txid sh) (b_txs a) = map (txid sh) (b_txs b)"
    using merkle_root_unique [OF roots sealedD(3) [OF a] sealedD(3) [OF b] _ _ _ pairs] by blast
  then show ?thesis
  proof (rule map_inj_list)
    fix x y
    assume xy: "x \<in> set (b_txs a)" "y \<in> set (b_txs b)" "txid sh x = txid sh y"
    have "encode_tx_base x = encode_tx_base y"
      by (rule collision_freeD [OF inj xy(3) [unfolded txid_def] block_strings_parts(1) [OF xy(1)] block_strings_parts(1) [OF xy(2)]])
    then show "strip_witness x = strip_witness y"
      by (rule encode_tx_base_inj [OF _ sealedD(5) [OF a xy(1)] sealedD(5) [OF b xy(2)] sealedD(7) [OF a xy(1)]])
  qed
qed

lemma witness_commitment_strip:
  "map strip_witness (b_txs a) = map strip_witness (b_txs b) \<Longrightarrow> witness_commitment a = witness_commitment b"
proof -
  assume e: "map strip_witness (b_txs a) = map strip_witness (b_txs b)"
  show ?thesis
  proof (cases "b_txs a")
    case Nil
    then show ?thesis using e by (simp add: witness_commitment_def)
  next
    case (Cons x xs)
    then obtain y ys where y: "b_txs b = y # ys" "strip_witness x = strip_witness y" using e by (auto simp: Cons_eq_map_conv)
    then have "tx_outputs x = tx_outputs y" using tx_outputs_strip by metis
    then show ?thesis using Cons y by (simp add: witness_commitment_def witness_commitment_index_def)
  qed
qed

lemma sealed_nonce:
  assumes "sealed sh b" "witness_commitment b = Some c"
  obtains n where "in_witness (hd (tx_inputs (hd (b_txs b)))) = [n]"
    "double_sha256 sh (lw_root (hash_merkle_pair sh) (witness_leaves sh (b_txs b)) @ n) = c"
  using sealedD(8) [OF assms(1)] assms(2) unfolding commits_witness_def by auto

lemma sealed_witness_unique:
  assumes a: "sealed sh a" and b: "sealed sh b" and len: "length (b_txs a) = length (b_txs b)"
    and c: "witness_commitment a = Some c" "witness_commitment b = Some c"
    and inj: "collision_free sh a b" and digest: "digest_hash sh"
  shows "tl (b_txs a) = tl (b_txs b)" "in_witness (hd (tx_inputs (hd (b_txs a)))) = in_witness (hd (tx_inputs (hd (b_txs b))))"
proof -
  let ?h = "hash_merkle_pair sh"
  let ?la = "witness_leaves sh (b_txs a)" and ?lb = "witness_leaves sh (b_txs b)"
  obtain n where n: "in_witness (hd (tx_inputs (hd (b_txs a)))) = [n]" "double_sha256 sh (lw_root ?h ?la @ n) = c"
    using a c(1) by (rule sealed_nonce)
  obtain m where m: "in_witness (hd (tx_inputs (hd (b_txs b)))) = [m]" "double_sha256 sh (lw_root ?h ?lb @ m) = c"
    using b c(2) by (rule sealed_nonce)
  have nodes: "list_all hash_node (witness_leaves sh txs)" "witness_leaves sh txs \<noteq> []" for txs
    using digest_nodes [OF digest] by (simp_all add: list_all_iff witness_leaves_def)
  have "lw_root ?h ?la @ n = lw_root ?h ?lb @ m"
    by (rule collision_freeD [OF inj trans [OF n(2) m(2) [symmetric]] block_strings_parts(5) [OF n(1)] block_strings_parts(5) [OF m(1)]])
  moreover have "length (lw_root ?h ?la) = length (lw_root ?h ?lb)"
    using lw_root_node [OF digest nodes] by metis
  ultimately have nm: "lw_root ?h ?la = lw_root ?h ?lb" "n = m"
    by (blast dest: append_eq_append_conv [THEN iffD1, OF disjI1])+
  show "in_witness (hd (tx_inputs (hd (b_txs a)))) = in_witness (hd (tx_inputs (hd (b_txs b))))"
    using n m nm(2) by simp
  have "?la = ?lb"
    by (rule merkle_root_inj [OF nm(1) _ nodes(2)
          collision_free_pairs [OF inj block_strings_parts(4) block_strings_parts(4) digest nodes(1) nodes(1)]])
      (simp add: witness_leaves_def len)
  then have "map (wtxid sh) (tl (b_txs a)) = map (wtxid sh) (tl (b_txs b))" by (simp add: witness_leaves_def)
  then have "map id (tl (b_txs a)) = map id (tl (b_txs b))"
  proof (rule map_inj_list)
    fix x y
    assume "x \<in> set (tl (b_txs a))" "y \<in> set (tl (b_txs b))" and w: "wtxid sh x = wtxid sh y"
    then have xy: "x \<in> set (b_txs a)" "y \<in> set (b_txs b)"
      using list.set_sel(2) [OF sealedD(1) [OF a]] list.set_sel(2) [OF sealedD(1) [OF b]] by blast+
    have "encode_tx x = encode_tx y"
      by (rule collision_freeD [OF inj w [unfolded wtxid_def] block_strings_parts(2) [OF xy(1)] block_strings_parts(2) [OF xy(2)]])
    then show "id x = id y"
      using encode_tx_inj [OF _ sealedD(5) [OF a xy(1)] sealedD(5) [OF b xy(2)] sealedD(6) [OF a xy(1)]] by simp
  qed
  then show "tl (b_txs a) = tl (b_txs b)" by simp
qed

lemma sealed_unique:
  assumes a: "sealed sh a" and b: "sealed sh b" and root: "h_merkle_root (b_header a) = h_merkle_root (b_header b)"
    and depth: "tree_depth (length (b_txs a)) = tree_depth (length (b_txs b))"
    and inj: "collision_free sh a b" and digest: "digest_hash sh"
  shows "b_txs a = b_txs b"
proof -
  note strip = sealed_strip_unique [OF assms]
  note commitment = witness_commitment_strip [OF strip]
  show ?thesis
  proof (cases "witness_commitment a")
    case None
    then have "\<not> list_ex has_witness (b_txs a)" "\<not> list_ex has_witness (b_txs b)"
      using sealedD(8) [OF a] sealedD(8) [OF b] unfolding commits_witness_def commitment [symmetric] None option.case by blast+
    then show ?thesis using strip strip_all_no_witness [of "b_txs a"] strip_all_no_witness [of "b_txs b"] by metis
  next
    case (Some c)
    have "length (b_txs a) = length (b_txs b)" using arg_cong [OF strip, of length] by simp
    note w = sealed_witness_unique [OF a b this Some Some [unfolded commitment] inj digest]
    have "strip_witness (hd (b_txs a)) = strip_witness (hd (b_txs b))"
      using arg_cong [OF strip, of hd] sealedD(1) [OF a] sealedD(1) [OF b] by (simp add: hd_map)
    then have "hd (b_txs a) = hd (b_txs b)"
      using sealedD(4) [OF a] sealedD(4) [OF b] w(2) by (rule strip_single)
    then show ?thesis using w(1) sealedD(1) [OF a] sealedD(1) [OF b] by (cases "b_txs a"; cases "b_txs b") simp_all
  qed
qed

end
