(* ===== verification/Block_Scripts.thy ===== *)
theory Block_Scripts
  imports Tx_Rules Spend_Sim
begin

text \<open>
  The batched script checks of a block against the verification of its transactions one by
  one, and the script cache: an entry for a transaction whose scripts verify never
  changes the verdict on a block.
\<close>

section \<open>Without a signature cache the state stays empty\<close>

lemma execute_spend_no_cache: "execute_spend cr tx i spk f prevouts None = (Inr b, c) \<Longrightarrow> c = None"
proof -
  assume run: "execute_spend cr tx i spk f prevouts None = (Inr b, c)"
  let ?chk = "new_checker tx i (out_value (prevouts ! i)) prevouts"
  have sim: "simS no_cache (verify_script cr (\<lambda>a. tx_checker_ops cr (set_annex ?chk a)) ssig spk w (filled f))
      (verify_script cr (\<lambda>a. tx_checker_ops cr (set_annex ?chk a)) ssig spk w (filled f))" for ssig w
    by (rule spend_sim.verify_script_sim [OF flags_spend_sim [OF flags_le_refl]])
  show "c = None"
    using run simS_D [OF sim, of None None] by (auto simp: execute_spend_def Let_def no_cache_def)
qed

lemma verify_input_no_cache: "verify_input cr p i f None = (Inr b, c) \<Longrightarrow> c = None"
  by (auto simp: verify_input_def dest: execute_spend_no_cache split: if_splits)

lemma native_no_cache: "verify_input_script_native cr p i f None = (Inr u, c) \<Longrightarrow> c = None"
  by (auto simp: verify_input_script_native_def map_errS_def split: prod.splits dest: verify_input_no_cache)

lemma verify_inputs_native_first:
  "fst (verify_inputs_native cr p flags is None) =
    or_ok (first_error (map (\<lambda>i. fst (verify_input_script_native cr p i flags None)) is))"
proof (induction "is")
  case (Cons i "is")
  show ?case
  proof (cases "verify_input_script_native cr p i flags None")
    case (Pair r c)
    show ?thesis
    proof (cases r)
      case (Inr u)
      then have "c = None" using native_no_cache Pair by blast
      then show ?thesis using Cons Pair Inr by (simp add: fst_bindS)
    qed (simp add: Pair fst_bindS or_ok_def)
  qed
qed (simp add: or_ok_def)

section \<open>One transaction of a block\<close>

text \<open>The previous output of an outpoint, from the row that resolves the transaction's inputs.\<close>

definition row_utxos :: "Tx \<Rightarrow> TxOut option list \<Rightarrow> OutPoint \<Rightarrow> TxOut option" where
  "row_utxos tx row outpoint = Option.bind (map_of (zip (map in_prevout (tx_inputs tx)) row) outpoint) id"

lemma map_of_zip_get:
  assumes "distinct ks" "j < length ks"
  shows "map_of (zip ks vs) (ks ! j) = get_at vs j"
proof (cases "j < length vs")
  case True
  then have "(ks ! j, vs ! j) \<in> set (zip ks vs)" using assms(2) by (auto simp: set_zip)
  moreover have "distinct (map fst (zip ks vs))" using assms(1) by (simp add: map_fst_zip_take)
  ultimately show ?thesis using True by (simp add: get_at_def)
next
  case False
  have "ks ! j \<notin> set (take (length vs) ks)"
    using assms False by (auto simp: in_set_conv_nth nth_eq_iff_index_eq)
  then have "ks ! j \<notin> fst ` set (zip ks vs)" by (auto simp: in_set_conv_nth set_zip)
  then show ?thesis using False by (simp add: get_at_def map_of_eq_None_iff)
qed

lemma collect_prevouts_cong:
  "(\<And>j. j < length inps \<Longrightarrow> l (n + j) (in_prevout (inps ! j)) = l' (n + j) (in_prevout (inps ! j))) \<Longrightarrow>
   collect_prevouts l n inps v ps = collect_prevouts l' n inps v ps"
proof (induction inps arbitrary: n v ps)
  case (Cons inp inps)
  have "l n (in_prevout inp) = l' n (in_prevout inp)" using Cons.prems [of 0] by simp
  moreover have "collect_prevouts l (n + 1) inps w qs = collect_prevouts l' (n + 1) inps w qs" for w qs
    using Cons.prems [of "Suc _"] by (intro Cons.IH) auto
  ultimately show ?case unfolding collect_prevouts.simps by (simp only:)
qed simp

lemma prepare_row:
  "prepare_tx_checks tx height cutoff (row_lookup row) = prepare_tx_checks tx height cutoff (\<lambda>_. row_utxos tx row)"
proof -
  have "collect_prevouts (row_lookup row) 0 (tx_inputs tx) 0 [] = collect_prevouts (\<lambda>_. row_utxos tx row) 0 (tx_inputs tx) 0 []"
    if "verify_transaction_structure tx = Inr v" "\<not> is_coinbase tx" for v
  proof (rule collect_prevouts_cong)
    fix j
    assume j: "j < length (tx_inputs tx)"
    have "distinct (map in_prevout (tx_inputs tx))" using that by (simp add: verify_structure_iff)
    from map_of_zip_get [OF this, of j row] j
    show "row_lookup row (0 + j) (in_prevout (tx_inputs tx ! j)) = row_utxos tx row (in_prevout (tx_inputs tx ! j))"
      by (simp add: row_lookup_def row_utxos_def)
  qed
  then show ?thesis
    by (auto simp: prepare_tx_checks_def bindE_def split: sum.split)
qed

lemma tx_inputs_result_native:
  assumes "length prevouts = length (tx_inputs tx)"
  shows "tx_inputs_result (native_source cr) k tx prevouts flags = fst (verify_tx_scripts cr backend tx prevouts flags NativeEngine None)"
  using assms
  by (simp add: tx_inputs_result_def native_source_def verify_tx_scripts_def verify_inputs_native_first fst_bindS bindE_def
      split: sum.split)

lemma prep_prevouts_length:
  assumes "prepare_tx_checks tx height cutoff (\<lambda>_. utxos) = Inr (Some prep)"
  shows "length (prep_prevouts prep) = length (tx_inputs tx)"
  using assms by (auto simp: prepare_tx_checks_utxos Let_def split: if_splits)

text \<open>Without a cache hit a transaction's part of the reference is the full verification of the transaction.\<close>

lemma verify_transaction_native:
  "fst (verify_transaction cr backend tx utxos height cutoff flags NativeEngine None) =
    bindE (prepare_tx_checks tx height cutoff (\<lambda>_. utxos)) (\<lambda>r. case r of None \<Rightarrow> Inr ()
      | Some prep \<Rightarrow> bindE (tx_inputs_result (native_source cr) k tx (prep_prevouts prep) flags) (\<lambda>_.
          finalize_tx_value_and_sigops tx prep flags))"
proof (cases "prepare_tx_checks tx height cutoff (\<lambda>_. utxos)")
  case (Inr r)
  show ?thesis
  proof (cases r)
    case (Some prep)
    from tx_inputs_result_native [OF prep_prevouts_length [OF Inr [unfolded Some]], of cr k flags backend] show ?thesis
      using Inr Some
      by (auto simp: verify_transaction_def verify_transaction_with_locktime_cutoff_def is_supported_def fst_bindS bindE_def
          split: sum.split)
  qed (simp add: Inr verify_transaction_def verify_transaction_with_locktime_cutoff_def is_supported_def fst_bindS)
qed (simp add: verify_transaction_def verify_transaction_with_locktime_cutoff_def is_supported_def fst_bindS)

definition block_tx_results ::
    "crypto \<Rightarrow> backend \<Rightarrow> nat \<Rightarrow> nat \<Rightarrow> VerifyFlags \<Rightarrow> Tx list \<Rightarrow> TxOut option list list \<Rightarrow> (ConsensusError + unit) list" where
  "block_tx_results cr backend height cutoff flags txs rows =
     map2 (\<lambda>tx row. fst (verify_transaction cr backend tx (row_utxos tx row) height cutoff flags NativeEngine None)) txs rows"

lemma bindE_assoc: "bindE (bindE m f) g = bindE m (\<lambda>x. bindE (f x) g)"
  by (cases m) simp_all

lemma or_ok_first_error_Cons: "or_ok (first_error (r # rs)) = bindE r (\<lambda>_. or_ok (first_error rs))"
  by (cases r) (simp_all add: or_ok_def)

lemma sequential_native:
  "k + length txs = length rows \<Longrightarrow>
   sequential_checks (native_source cr) height cutoff flags rows wtxids k txs None =
    or_ok (first_error (block_tx_results cr backend height cutoff flags txs (drop k rows)))"
proof (induction txs arbitrary: k)
  case (Cons tx txs)
  then have "drop k rows = rows ! k # drop (Suc k) rows" by (simp add: Cons_nth_drop_Suc)
  then have "or_ok (first_error (block_tx_results cr backend height cutoff flags (tx # txs) (drop k rows))) =
      bindE (fst (verify_transaction cr backend tx (row_utxos tx (rows ! k)) height cutoff flags NativeEngine None))
        (\<lambda>_. or_ok (first_error (block_tx_results cr backend height cutoff flags txs (drop (Suc k) rows))))"
    by (simp add: block_tx_results_def or_ok_first_error_Cons)
  also have "\<dots> = sequential_checks (native_source cr) height cutoff flags rows wtxids k (tx # txs) None"
    using Cons.IH [of "Suc k"] Cons.prems
    by (auto simp: verify_transaction_native [where k = k] prepare_row window_hit_def bindE_def split: sum.split option.split)
  finally show ?case by simp
qed (simp add: block_tx_results_def or_ok_def)

section \<open>The script cache\<close>

text \<open>The scripts of a transaction verify, whenever it gets that far.\<close>

definition scripts_verify ::
    "'p script_source \<Rightarrow> nat \<Rightarrow> nat \<Rightarrow> VerifyFlags \<Rightarrow> TxOut option list list \<Rightarrow> nat \<Rightarrow> Tx \<Rightarrow> bool" where
  "scripts_verify src height cutoff flags rows k tx \<longleftrightarrow>
     (case prepare_tx_checks tx height cutoff (row_lookup (rows ! k)) of
        Inr (Some prep) \<Rightarrow> tx_inputs_result src k tx (prep_prevouts prep) flags = Inr ()
      | _ \<Rightarrow> True)"

text \<open>Every transaction the cache knows under these flags has scripts that verify.\<close>

fun cache_sound ::
    "'p script_source \<Rightarrow> nat \<Rightarrow> nat \<Rightarrow> VerifyFlags \<Rightarrow> TxOut option list list \<Rightarrow> hash256 list \<Rightarrow> CacheKey set \<Rightarrow> nat \<Rightarrow> Tx list \<Rightarrow> bool" where
  "cache_sound src height cutoff flags rows wtxids keys k [] \<longleftrightarrow> True"
| "cache_sound src height cutoff flags rows wtxids keys k (tx # txs) \<longleftrightarrow>
     ((wtxids ! k, flags) \<in> keys \<longrightarrow> scripts_verify src height cutoff flags rows k tx)
     \<and> cache_sound src height cutoff flags rows wtxids keys (k + 1) txs"

lemma cache_sound_mono:
  "cache_sound src height cutoff flags rows wtxids keys k txs \<Longrightarrow> keys' \<subseteq> keys \<Longrightarrow>
   cache_sound src height cutoff flags rows wtxids keys' k txs"
  by (induction txs arbitrary: k) auto

lemma takes_take_keys:
  assumes "takes_take tx_id flags w = (hit, w')"
  shows "hit \<longleftrightarrow> (tx_id, flags) \<in> live_keys (wc_cache w)" "live_keys (wc_cache w') \<subseteq> live_keys (wc_cache w)"
proof -
  obtain h c where t: "cache_take tx_id flags (wc_cache w) = (h, c)" by force
  then have "hit = h" "wc_cache w' = c" using assms by (auto simp: takes_take_def)
  then show "hit \<longleftrightarrow> (tx_id, flags) \<in> live_keys (wc_cache w)" "live_keys (wc_cache w') \<subseteq> live_keys (wc_cache w)"
    using take_keys [OF t] by auto
qed

lemma sequential_cache:
  "cache_sound src height cutoff flags rows wtxids (live_keys (wc_cache w)) k txs \<Longrightarrow>
   sequential_checks src height cutoff flags rows wtxids k txs (Some w) =
   sequential_checks src height cutoff flags rows ids k txs None"
proof (induction txs arbitrary: k w)
  case (Cons tx txs)
  obtain hit w' where t: "takes_take (wtxids ! k) flags w = (hit, w')" by force
  note keys = takes_take_keys [OF t]
  have tail: "sequential_checks src height cutoff flags rows wtxids (k + 1) txs (Some w2) =
      sequential_checks src height cutoff flags rows ids (k + 1) txs None" if "live_keys (wc_cache w2) \<subseteq> live_keys (wc_cache w)" for w2
  proof -
    have "cache_sound src height cutoff flags rows wtxids (live_keys (wc_cache w)) (k + 1) txs" using Cons.prems by simp
    from Cons.IH [OF cache_sound_mono [OF this that]] show ?thesis .
  qed
  show ?case
  proof (cases "prepare_tx_checks tx height cutoff (row_lookup (rows ! k))")
    case (Inr r)
    show ?thesis
    proof (cases r)
      case None
      then show ?thesis using Inr tail [of w] by simp
    next
      case (Some prep)
      have "hit \<Longrightarrow> tx_inputs_result src k tx (prep_prevouts prep) flags = Inr ()"
        using Cons.prems keys(1) Inr Some by (simp add: scripts_verify_def)
      then show ?thesis
        using Inr Some tail [OF keys(2)] by (cases hit) (simp_all add: window_hit_def t)
    qed
  qed simp
qed simp

text \<open>The identifiers the block check uses for the cache.\<close>

definition block_wtxids :: "(bytes \<Rightarrow> bytes) \<Rightarrow> BlockView \<Rightarrow> hash256 list" where
  "block_wtxids sh view = (case facts_wtxids (view_facts view) of
     Some ids \<Rightarrow> ids
   | None \<Rightarrow> if facts_has_witness (view_facts view) then fst (witness_ids sh view) else facts_txids (view_facts view))"

lemma block_scripts_cached:
  assumes "length (view_txs view) = length (view_resolved view)" "length (view_txs view) = length (block_wtxids sh view)"
    and "cache_sound src height cutoff flags (view_resolved view) (block_wtxids sh view) (live_keys cache) 0 (view_txs view)"
  shows "fst (verify_block_input_scripts sh src view height cutoff flags (Some cache)) =
    fst (verify_block_input_scripts sh src view height cutoff flags None)"
proof -
  obtain P C takes' where p: "prepare_block_input_checks src height cutoff flags (view_resolved view) (block_wtxids sh view) 0
      (view_txs view) (Some (takes_new cache)) [] [] = ((P, C), takes')"
    by (metis prod.exhaust)
  have "fst (verify_block_input_scripts sh src view height cutoff flags (Some cache)) =
      sequential_checks src height cutoff flags (view_resolved view) (block_wtxids sh view) 0 (view_txs view) (Some (takes_new cache))"
    using verify_prepared_unit [OF p] assms(1,2) p
    by (simp add: verify_block_input_scripts_def prepare_block_script_checks_def Let_def flip: block_wtxids_def)
  also have "\<dots> = sequential_checks src height cutoff flags (view_resolved view) [] 0 (view_txs view) None"
    using assms(3) by (intro sequential_cache) (simp add: takes_new_def)
  finally show ?thesis by (simp add: verify_block_scripts_sequential [OF assms(1)])
qed

end
