(* ===== verification/Block_Samples.thy ===== *)
theory Block_Samples
  imports Samples Block_Unique Block_Scripts
begin

text \<open>
  A block with one coinbase transaction, for evaluating the block rules on
  concrete input.  The hash function is \<open>pad 32\<close>, the first 32 bytes of the padded input.
\<close>

definition sample_coinbase :: Tx where
  "sample_coinbase = \<lparr> tx_version = 1,
     tx_inputs = [\<lparr> in_prevout = \<lparr> op_txid = replicate 32 0, op_vout = 0xffffffff \<rparr>, in_script_sig = [0x51, 0x51],
       in_sequence = 0xffffffff, in_witness = [] \<rparr>],
     tx_outputs = [\<lparr> out_value = 5000000000, out_script_pubkey = [0x51] \<rparr>], tx_lock_time = 0 \<rparr>"

definition sample_block :: Block where
  "sample_block = \<lparr> b_header = \<lparr> h_version = 1, h_prev_blockhash = replicate 32 1, h_merkle_root = txid (pad 32) sample_coinbase,
       h_time = 1700000000, h_bits = 0x207fffff, h_nonce = 0 \<rparr>, b_txs = [sample_coinbase] \<rparr>"

lemma max_code [code]: "u64_max = 18446744073709551615" "u32_max = 4294967295"
  by (simp_all add: u64_max_def u32_max_def)

lemma sample_block_rules: "verify_block_rules None (pad 32) sample_block = Inr ()"
  by code_simp

lemma sample_block_wf: "list_all tx_hashes_wf (b_txs sample_block)" "decodable_block sample_block"
  by code_simp+

text \<open>
  A block of the coinbase and the spend, with the outputs the spend uses, and a script cache
  that knows the spend.
\<close>

definition sample_view :: BlockView where
  "sample_view = \<lparr> view_txs = [sample_coinbase, sample_spend],
     view_facts = from_txids None (pad 32) [sample_coinbase, sample_spend] (map (txid (pad 32)) [sample_coinbase, sample_spend]),
     view_resolved = [[None], map Some sample_prevouts] \<rparr>"

definition sample_script_cache :: Inner where
  "sample_script_cache = cache_insert_script (txid (pad 32) sample_spend) P2SH cache_new"

lemma sample_view_lengths:
  "length (view_txs sample_view) = length (view_resolved sample_view)"
  "length (view_txs sample_view) = length (block_wtxids (pad 32) sample_view)"
  by code_simp+

text \<open>The spend is looked up and its scripts verify, which is what its entry stands for.\<close>

lemma sample_scripts_verify:
  "(case prepare_tx_checks sample_spend 100 0 (row_lookup (map Some sample_prevouts)) of
      Inr (Some prep) \<Rightarrow> tx_inputs_result (native_source sample_crypto) 1 sample_spend (prep_prevouts prep) P2SH = Inr ()
    | _ \<Rightarrow> False)"
  by code_simp

lemma sample_view_verifies:
  "fst (verify_block_input_scripts (pad 32) (native_source sample_crypto) sample_view 100 0 P2SH None) = Inr ()"
  by code_simp

lemma sample_view_hit:
  "map_option live (snd (verify_block_input_scripts (pad 32) (native_source sample_crypto) sample_view 100 0 P2SH
     (Some sample_script_cache))) = Some [] \<and> live sample_script_cache \<noteq> []"
  by code_simp

lemma pad_digest: "digest_hash (pad 32)"
  by (auto simp: digest_hash_def pad_def)

lemma sample_strings: "collision_free (pad 32) sample_block sample_block"
  by (simp add: collision_free_def block_strings_def tree_strings_def sample_block_def witness_leaves_def
      hashed_pairs.simps sample_coinbase_def encode_tx_def has_witness_def)

end
