(* ===== verification/Pow.thy ===== *)
theory Pow
  imports Network Tx
begin

text \<open>
  Proof of work (module \<open>pow\<close> of \<open>src/crates/chain/src/header_sync.rs\<close>): the compact encoding of
  256-bit targets, the work of a header, and the limit on difficulty changes that
  header synchronisation applies before it has the chain.  A \<open>ChainWork\<close>, the
  256-bit unsigned integer of the code, is a natural number with the wrap-around written out.

  The lemmas show that the encoding rounds a target down to the greatest target that
  has an encoding, and that the work of a header is \<open>2 ^ 256 div (target + 1)\<close>.
\<close>

type_synonym chain_work = nat

abbreviation W256 :: nat where "W256 \<equiv> 2 ^ 256"

section \<open>Compact targets\<close>

record DecodedCompact =
  dc_target :: chain_work
  dc_negative :: bool

definition decode_compact :: "u32 \<Rightarrow> DecodedCompact" where
  "decode_compact bits =
     (let exponent = unat (drop_bit 24 bits);
          mantissa = bits AND 0x007fffff;
          mantissa' = (if exponent \<le> 3 then drop_bit (8 * (3 - exponent)) mantissa else mantissa);
          target = (if exponent \<le> 3 then unat mantissa'
            else let shift = 8 * (exponent - 3) in
              if shift < 256 then unat mantissa' * 2 ^ shift mod W256 else 0)
      in \<lparr> dc_target = target, dc_negative = (mantissa' \<noteq> 0 \<and> bits AND 0x00800000 \<noteq> 0) \<rparr>)"

definition compact_overflows :: "u32 \<Rightarrow> bool" where
  "compact_overflows bits =
     (let size' = drop_bit 24 bits; word = bits AND 0x007fffff in
      word \<noteq> 0 \<and> (size' > 34 \<or> (word > 0xff \<and> size' > 33) \<or> (word > 0xffff \<and> size' > 32)))"

definition compact_to_target :: "u32 \<Rightarrow> chain_work" where
  "compact_to_target bits =
     (let decoded = decode_compact bits in if dc_negative decoded then 0 else dc_target decoded)"

definition compact_is_met_by :: "u32 \<Rightarrow> hash256 \<Rightarrow> bool" where
  "compact_is_met_by bits hash =
     (let target = compact_to_target bits in target \<noteq> 0 \<and> le_nat hash \<le> target)"

text \<open>The number of bits of a number, \<open>Uint::bit_len\<close>, and the checked conversion to 32 bits with 0 in place of a failure.\<close>

fun bit_len :: "nat \<Rightarrow> nat" where
  "bit_len n = (if n = 0 then 0 else Suc (bit_len (n div 2)))"

declare bit_len.simps [simp del]

definition u32_or_zero :: "nat \<Rightarrow> u32" where
  "u32_or_zero n = (if n < 2 ^ 32 then word_of_nat n else 0)"

definition get_compact :: "chain_work \<Rightarrow> u32" where
  "get_compact target =
     (if target = 0 then 0
      else let size' = (bit_len target + 7) div 8;
               compact = (if size' \<le> 3 then u32_or_zero (target mod 2 ^ 64 * 2 ^ (8 * (3 - size')) mod 2 ^ 64)
                 else u32_or_zero (target div 2 ^ (8 * (size' - 3)) mod 2 ^ 64));
               (compact', size'') = (if compact AND 0x00800000 \<noteq> 0 then (drop_bit 8 compact, size' + 1)
                 else (compact, size'))
      in compact' OR push_bit 24 (u32_or_zero size''))"

definition target_to_compact :: "chain_work \<Rightarrow> u32" where
  "target_to_compact target = get_compact target"

definition pow_limit_bits :: "Network \<Rightarrow> u32" where
  "pow_limit_bits network = target_to_compact (max_target network)"

section \<open>Work and difficulty changes\<close>

definition block_work :: "Header \<Rightarrow> chain_work" where
  "block_work header =
     (let target = compact_to_target (h_bits header) in
      if target = 0 \<or> compact_overflows (h_bits header) then 0
      else ((W256 - 1 - target) div ((target + 1) mod W256) + 1) mod W256)"

definition checked_mul256 :: "chain_work \<Rightarrow> chain_work \<Rightarrow> chain_work option" where
  "checked_mul256 a b = (if a * b < W256 then Some (a * b) else None)"

definition permitted_difficulty_transition :: "Network \<Rightarrow> nat \<Rightarrow> u32 \<Rightarrow> u32 \<Rightarrow> bool" where
  "permitted_difficulty_transition network height old_bits new_bits =
     (if allow_min_difficulty_blocks network then True
      else let interval = retarget_interval network in
        if interval = 0 \<or> height mod interval \<noteq> 0 then old_bits = new_bits
        else let pow_limit = max_target network;
                 old_target = compact_to_target old_bits;
                 observed = compact_to_target new_bits;
                 largest = min (case checked_mul256 old_target 4 of Some t \<Rightarrow> t | None \<Rightarrow> pow_limit) pow_limit
          in if compact_to_target (target_to_compact largest) < observed then False
             else let smallest = min (old_target div 4) pow_limit in
               compact_to_target (target_to_compact smallest) \<le> observed)"

section \<open>Encoded targets\<close>

text \<open>Arithmetic readings of the bit operations.\<close>

lemma unat_bits_split:
  "unat (drop_bit 24 bits) = unat (bits :: u32) div 2 ^ 24"
  "unat (bits AND 0x007fffff) = unat bits mod 2 ^ 23"
proof -
  show "unat (drop_bit 24 bits) = unat bits div 2 ^ 24"
    by (simp only: unat_drop_bit_eq) (simp only: drop_bit_eq_div)
  have "bits AND 0x007fffff = take_bit 23 bits"
    by (simp add: take_bit_eq_mask mask_eq_exp_minus_1)
  then show "unat (bits AND 0x007fffff) = unat bits mod 2 ^ 23"
    by (simp only: unsigned_take_bit_eq) (simp only: take_bit_eq_mod)
qed

lemma sign_bit_iff: "(bits :: u32) AND 0x00800000 \<noteq> 0 \<longleftrightarrow> odd (unat bits div 2 ^ 23)"
proof -
  have "(0x00800000 :: u32) = push_bit 23 1" by simp
  then have "bits AND 0x00800000 \<noteq> 0 \<longleftrightarrow> bit bits 23"
    by (metis and_exp_eq_0_iff_not_bit push_bit_of_1)
  also have "\<dots> \<longleftrightarrow> odd (unat bits div 2 ^ 23)"
  proof -
    have "bit (unat bits) 23 \<longleftrightarrow> bit bits 23" by (simp add: bit_unsigned_iff)
    then show ?thesis by (simp only: bit_iff_odd [of "unat bits" 23])
  qed
  finally show ?thesis .
qed

text \<open>The value of an encoding without its sign, from the exponent and the mantissa.\<close>

definition compact_nat :: "nat \<Rightarrow> nat \<Rightarrow> nat" where
  "compact_nat e m = (if e \<le> 3 then m div 256 ^ (3 - e) else m * 256 ^ (e - 3) mod W256)"

lemma pow256: "(256 :: nat) ^ n = 2 ^ (8 * n)"
  by (simp add: power_mult)

lemma decode_compact_eq:
  fixes bits :: u32
  defines "x \<equiv> unat bits"
  shows "dc_target (decode_compact bits) = compact_nat (x div 2 ^ 24) (x mod 2 ^ 23)"
    and "dc_negative (decode_compact bits) \<longleftrightarrow> odd (x div 2 ^ 23)
      \<and> (if x div 2 ^ 24 \<le> 3 then x mod 2 ^ 23 div 256 ^ (3 - x div 2 ^ 24) \<noteq> 0 else x mod 2 ^ 23 \<noteq> 0)"
proof -
  let ?e = "x div 2 ^ 24" and ?m = "x mod 2 ^ 23"
  have e: "unat (drop_bit 24 bits) = ?e" and m: "unat (bits AND 0x007fffff) = ?m"
    by (simp_all only: unat_bits_split x_def)
  have d: "unat (drop_bit (8 * (3 - ?e)) (bits AND 0x007fffff)) = ?m div 256 ^ (3 - ?e)"
    by (simp only: unat_drop_bit_eq) (simp only: drop_bit_eq_div m pow256)
  have z: "(w = 0) = (unat w = 0)" for w :: u32 by (simp add: unat_eq_0)
  have big: "?m * 256 ^ (?e - 3) mod W256 = 0" if "\<not> 8 * (?e - 3) < 256"
  proof -
    have "W256 dvd 256 ^ (?e - 3)" unfolding pow256 using that by (intro le_imp_power_dvd) simp
    then show ?thesis by (simp add: dvd_imp_mod_0)
  qed
  show "dc_target (decode_compact bits) = compact_nat ?e ?m"
  proof (cases "?e \<le> 3")
    case True
    then show ?thesis by (simp only: decode_compact_def Let_def e d if_True compact_nat_def DecodedCompact.simps)
  next
    case False
    then show ?thesis using big
      by (simp only: decode_compact_def Let_def e m if_False compact_nat_def DecodedCompact.simps pow256 split: if_splits) simp
  qed
  have "dc_negative (decode_compact bits) \<longleftrightarrow>
      (if ?e \<le> 3 then drop_bit (8 * (3 - ?e)) (bits AND 0x007fffff) else bits AND 0x007fffff) \<noteq> 0 \<and> odd (x div 2 ^ 23)"
    by (simp only: decode_compact_def Let_def e DecodedCompact.simps sign_bit_iff x_def)
  then show "dc_negative (decode_compact bits) \<longleftrightarrow> odd (x div 2 ^ 23)
      \<and> (if ?e \<le> 3 then ?m div 256 ^ (3 - ?e) \<noteq> 0 else ?m \<noteq> 0)"
    by (cases "?e \<le> 3") (auto simp only: z d m if_True if_False simp_thms)
qed

text \<open>Every target is a mantissa of 23 bits times a power of 256.\<close>

lemma compact_to_target_form: "\<exists>m e. m < 2 ^ 23 \<and> compact_to_target bits = m * 256 ^ e"
proof -
  let ?e = "unat bits div 2 ^ 24" and ?m = "unat bits mod 2 ^ 23"
  have m: "?m < 2 ^ 23" by simp
  have "\<exists>m e. m < 2 ^ 23 \<and> compact_nat ?e ?m = m * 256 ^ e"
  proof (cases "?e \<le> 3")
    case True
    have "?m div 256 ^ (3 - ?e) < 2 ^ 23" using m by (meson div_le_dividend le_less_trans)
    then show ?thesis using True by (intro exI [of _ "?m div 256 ^ (3 - ?e)"] exI [of _ 0]) (simp add: compact_nat_def)
  next
    case False
    show ?thesis
    proof (cases "?e - 3 \<le> 32")
      case True
      then have "W256 = 256 ^ (32 - (?e - 3)) * (256 :: nat) ^ (?e - 3)"
        unfolding power_add [symmetric] by simp
      then have "?m * 256 ^ (?e - 3) mod W256 = (?m mod 256 ^ (32 - (?e - 3))) * 256 ^ (?e - 3)"
        by (simp only: mod_mult_mult2)
      moreover have "?m mod 256 ^ (32 - (?e - 3)) < 2 ^ 23" using m by (meson mod_less_eq_dividend le_less_trans)
      ultimately show ?thesis using False by (metis compact_nat_def)
    next
      case F: False
      have "W256 dvd 256 ^ (?e - 3)" unfolding pow256 using F by (intro le_imp_power_dvd) simp
      then have "compact_nat ?e ?m = 0" using False by (simp add: compact_nat_def dvd_imp_mod_0)
      then show ?thesis by (intro exI [of _ 0]) simp
    qed
  qed
  moreover have "compact_to_target bits = (if dc_negative (decode_compact bits) then 0 else compact_nat ?e ?m)"
    by (simp only: compact_to_target_def Let_def decode_compact_eq(1))
  ultimately show ?thesis by (metis mult_0 zero_less_numeral zero_less_power)
qed

lemma compact_to_target_less: "compact_to_target bits < W256"
proof -
  have "compact_nat e (x mod 2 ^ 23) < W256" for e x
  proof -
    have "x mod 2 ^ 23 div 256 ^ (3 - e) \<le> x mod 2 ^ 23" by simp
    also have "\<dots> < 2 ^ 23" by simp
    also have "(2 :: nat) ^ 23 < W256" by simp
    finally show ?thesis by (simp only: compact_nat_def split: if_splits) simp
  qed
  then show ?thesis by (simp only: compact_to_target_def Let_def decode_compact_eq(1) split: if_splits) simp
qed

section \<open>Encoding rounds down\<close>

lemma bit_len_bounds: "0 < n \<Longrightarrow> 2 ^ (bit_len n - 1) \<le> n \<and> n < 2 ^ bit_len n \<and> 0 < bit_len n"
proof (induction n rule: bit_len.induct)
  case (1 n)
  show ?case
  proof (cases "n div 2 = 0")
    case True
    then have "n = 1" using 1(2) by auto
    then show ?thesis by (simp add: bit_len.simps)
  next
    case False
    then have IH: "2 ^ (bit_len (n div 2) - 1) \<le> n div 2" "n div 2 < 2 ^ bit_len (n div 2)" "0 < bit_len (n div 2)"
      using 1 by auto
    have b: "bit_len n = Suc (bit_len (n div 2))" using 1(2) by (subst bit_len.simps) simp
    obtain k where k: "bit_len (n div 2) = Suc k" using IH(3) by (metis gr0_implies_Suc)
    show ?thesis using IH unfolding b k by simp linarith
  qed
qed

lemma compact_size_bounds:
  assumes "0 < t" "s = (bit_len t + 7) div 8"
  shows "256 ^ (s - 1) \<le> t" "t < 256 ^ s" "0 < s"
proof -
  have b: "2 ^ (bit_len t - 1) \<le> t" "t < 2 ^ bit_len t" "0 < bit_len t" using bit_len_bounds [OF assms(1)] by auto
  show "0 < s" using assms(2) b(3) by simp
  have "8 * (s - 1) \<le> bit_len t - 1" "bit_len t \<le> 8 * s" using assms(2) b(3) by linarith+
  then have "(2 :: nat) ^ (8 * (s - 1)) \<le> 2 ^ (bit_len t - 1)" "(2 :: nat) ^ bit_len t \<le> 2 ^ (8 * s)" by simp_all
  then show "256 ^ (s - 1) \<le> t" "t < 256 ^ s" using b(1,2) unfolding pow256 by linarith+
qed

text \<open>The mantissa before the sign bit is freed, and the encoding of a mantissa and a size.\<close>

definition compact_mantissa :: "nat \<Rightarrow> nat \<Rightarrow> nat" where
  "compact_mantissa s t = (if s \<le> 3 then t * 256 ^ (3 - s) else t div 256 ^ (s - 3))"

lemma compact_mantissa_bounds:
  assumes "256 ^ (s - 1) \<le> t" "t < 256 ^ s" "0 < s"
  shows "2 ^ 16 \<le> compact_mantissa s t" "compact_mantissa s t < 2 ^ 24"
proof -
  have p: "(2 :: nat) ^ 16 = 256 ^ 2" "(2 :: nat) ^ 24 = 256 ^ 3" by simp_all
  show "2 ^ 16 \<le> compact_mantissa s t"
  proof (cases "s \<le> 3")
    case True
    have "256 ^ (s - 1) * 256 ^ (3 - s) \<le> t * 256 ^ (3 - s)" using assms(1) by (rule mult_le_mono1)
    then show ?thesis using True assms(3) unfolding power_add [symmetric] p by (simp add: compact_mantissa_def)
  next
    case False
    then have "s - 1 = 2 + (s - 3)" by simp
    then have "256 ^ 2 * 256 ^ (s - 3) \<le> t" using assms(1) by (simp only: power_add)
    then show ?thesis using False unfolding p by (simp only: compact_mantissa_def if_False less_eq_div_iff_mult_less_eq zero_less_power zero_less_numeral)
  qed
  show "compact_mantissa s t < 2 ^ 24"
  proof (cases "s \<le> 3")
    case True
    have "t * 256 ^ (3 - s) < 256 ^ s * 256 ^ (3 - s)" using assms(2) by simp
    then show ?thesis using True unfolding power_add [symmetric] p by (simp add: compact_mantissa_def)
  next
    case False
    then have "t < 256 ^ 3 * 256 ^ (s - 3)" using assms(2) unfolding power_add [symmetric] by simp
    then show ?thesis using False unfolding p by (simp only: compact_mantissa_def if_False less_mult_imp_div_less)
  qed
qed

lemma unat_u32_of_nat: "n < 2 ^ 32 \<Longrightarrow> unat (word_of_nat n :: u32) = n"
  by (simp add: unsigned_of_nat take_bit_nat_eq_self)

lemma unat_compact_word:
  assumes "m < 2 ^ 24" "z < 2 ^ 8"
  shows "unat (word_of_nat m OR push_bit 24 (word_of_nat z) :: u32) = m + z * 2 ^ 24"
proof -
  have "unat (word_of_nat m :: u32) = m" "unat (word_of_nat z :: u32) = z" using assms by (simp_all add: unat_u32_of_nat)
  moreover have "unat (push_bit 24 (word_of_nat z :: u32)) = push_bit 24 z"
  proof -
    have "unat (push_bit 24 (word_of_nat z :: u32)) = take_bit 32 (push_bit 24 (unat (word_of_nat z :: u32)))"
      by (simp only: unsigned_push_bit_eq) simp
    also have "\<dots> = push_bit 24 z"
      using assms(2) \<open>unat (word_of_nat z :: u32) = z\<close> by (simp add: take_bit_eq_mod push_bit_eq_mult)
    finally show ?thesis .
  qed
  ultimately have "unat (word_of_nat m OR push_bit 24 (word_of_nat z) :: u32) = m OR push_bit 24 z"
    by (simp only: unsigned_or_eq)
  also have "\<dots> = m + 2 ^ 24 * z" using assms(1) by (intro nat_or_push_bit)
  finally show ?thesis by (simp add: mult.commute)
qed

lemma get_compact_unat:
  assumes "0 < t" "t < W256"
  defines "s \<equiv> (bit_len t + 7) div 8"
  defines "c \<equiv> compact_mantissa s t"
  shows "unat (get_compact t) = (if 2 ^ 23 \<le> c then c div 256 + (s + 1) * 2 ^ 24 else c + s * 2 ^ 24)" "s \<le> 32"
proof -
  note sb = compact_size_bounds [OF assms(1) s_def [THEN meta_eq_to_obj_eq]]
  have c: "c < 2 ^ 24" unfolding c_def by (rule compact_mantissa_bounds(2) [OF sb])
  have "(256 :: nat) ^ (s - 1) < 256 ^ 32" using sb(1) assms(2) by (simp add: le_less_trans)
  then have "s - 1 < 32" by (simp only: power_strict_increasing_iff one_less_numeral_iff semiring_norm)
  then show s: "s \<le> 32" by simp
  have w: "u32_or_zero (if s \<le> 3 then t mod 2 ^ 64 * 2 ^ (8 * (3 - s)) mod 2 ^ 64 else t div 2 ^ (8 * (s - 3)) mod 2 ^ 64)
      = word_of_nat c"
  proof -
    have small: "c mod 2 ^ 64 = c" "c < 2 ^ 32" using c by simp_all
    have "(if s \<le> 3 then t mod 2 ^ 64 * 2 ^ (8 * (3 - s)) mod 2 ^ 64 else t div 2 ^ (8 * (s - 3)) mod 2 ^ 64) = c mod 2 ^ 64"
      unfolding c_def compact_mantissa_def pow256 by (simp add: mod_mult_left_eq)
    then show ?thesis using small by (simp only: u32_or_zero_def if_True)
  qed
  have uc: "unat (word_of_nat c :: u32) = c" using c by (simp add: unat_u32_of_nat)
  have sign: "(word_of_nat c :: u32) AND 0x00800000 \<noteq> 0 \<longleftrightarrow> 2 ^ 23 \<le> c"
  proof -
    define d where "d = c div 2 ^ 23"
    have "d < 2" "(d = 0) = (c < 2 ^ 23)" using c by (simp_all add: d_def less_mult_imp_div_less div_eq_0_iff)
    then have "odd d \<longleftrightarrow> 2 ^ 23 \<le> c" by (cases "d = 0") (simp_all add: less_2_cases_iff)
    then show ?thesis by (simp only: sign_bit_iff uc d_def)
  qed
  have shift: "drop_bit 8 (word_of_nat c :: u32) = word_of_nat (c div 256)"
  proof (rule word_unat_eq_iff [THEN iffD2])
    have "unat (drop_bit 8 (word_of_nat c :: u32)) = c div 256"
      by (simp only: unat_drop_bit_eq) (simp add: drop_bit_eq_div uc)
    moreover have "unat (word_of_nat (c div 256) :: u32) = c div 256" using c by (simp add: unat_u32_of_nat)
    ultimately show "unat (drop_bit 8 (word_of_nat c :: u32)) = unat (word_of_nat (c div 256) :: u32)" by simp
  qed
  have z: "u32_or_zero n = word_of_nat n" if "n \<le> 33" for n using that by (simp add: u32_or_zero_def)
  have "get_compact t = (if 2 ^ 23 \<le> c then word_of_nat (c div 256) OR push_bit 24 (word_of_nat (s + 1))
      else word_of_nat c OR push_bit 24 (word_of_nat s))"
  proof -
    have "t \<noteq> 0" using assms(1) by simp
    have "get_compact t = (let (compact', size'') = (if (word_of_nat c :: u32) AND 0x00800000 \<noteq> 0
        then (drop_bit 8 (word_of_nat c), s + 1) else (word_of_nat c, s)) in compact' OR push_bit 24 (u32_or_zero size''))"
      using w \<open>t \<noteq> 0\<close> by (simp only: get_compact_def s_def [symmetric] Let_def if_False if_distrib [of u32_or_zero] split: if_splits)
    then show ?thesis using s by (simp add: sign shift z del: of_nat_Suc of_nat_add)
  qed
  moreover have "unat (word_of_nat (c div 256) OR push_bit 24 (word_of_nat (s + 1)) :: u32) = c div 256 + (s + 1) * 2 ^ 24"
    "unat (word_of_nat c OR push_bit 24 (word_of_nat s) :: u32) = c + s * 2 ^ 24"
    by (rule unat_compact_word; use c s in simp)+
  ultimately show "unat (get_compact t) = (if 2 ^ 23 \<le> c then c div 256 + (s + 1) * 2 ^ 24 else c + s * 2 ^ 24)"
    by (cases "2 ^ 23 \<le> c") (simp_all only: if_True if_False)
qed

text \<open>An encoding with the sign bit clear is worth its mantissa scaled by its exponent.\<close>

lemma compact_to_target_pair:
  assumes "unat bits = m + z * 2 ^ 24" "m < 2 ^ 23"
  shows "compact_to_target bits = compact_nat z m"
proof -
  have "(m + z * 2 ^ 24) div 2 ^ 24 = z" using assms(2) by simp
  moreover have "(m + z * 2 ^ 24) mod 2 ^ 23 = m" "even ((m + z * 2 ^ 24) div 2 ^ 23)"
  proof -
    have "m + z * 2 ^ 24 = m + (z * 2) * 2 ^ 23" by simp
    moreover have "(m + (z * 2) * 2 ^ 23) mod 2 ^ 23 = m" using assms(2) by (simp only: mod_mult_self1 mod_less)
    moreover have "(m + (z * 2) * 2 ^ 23) div 2 ^ 23 = z * 2" using assms(2) by simp
    ultimately show "(m + z * 2 ^ 24) mod 2 ^ 23 = m" "even ((m + z * 2 ^ 24) div 2 ^ 23)" by (simp_all only: even_mult_iff) simp
  qed
  ultimately show ?thesis
    by (simp only: compact_to_target_def Let_def decode_compact_eq assms(1) if_False simp_thms)
qed

text \<open>Rounding to an encoding drops the low bytes below the leading ones.\<close>

lemma compact_roundtrip:
  assumes "t < W256"
  shows "\<exists>k. compact_to_target (target_to_compact t) = t div 256 ^ k * 256 ^ k \<and> (k = 0 \<or> 2 ^ 15 \<le> t div 256 ^ k)"
proof (cases "t = 0")
  case True
  then show ?thesis
    using compact_to_target_pair [of "get_compact 0" 0 0] by (simp add: target_to_compact_def get_compact_def compact_nat_def)
next
  case False
  define s where "s = (bit_len t + 7) div 8"
  define c where "c = compact_mantissa s t"
  have t: "0 < t" using False by simp
  note sb = compact_size_bounds [OF t s_def] and u = get_compact_unat [OF t assms, folded s_def, folded c_def]
  have c: "2 ^ 16 \<le> c" "c < 2 ^ 24" unfolding c_def by (rule compact_mantissa_bounds [OF sb])+
  have fit: "t div n * n mod W256 = t div n * n" for n
    using assms by (meson div_times_less_eq_dividend le_less_trans mod_less)
  have dm: "t * 256 ^ a div 256 ^ b = t * 256 ^ (a - b)" if "b \<le> a" for a b
    using that by (metis dvd_triv_right le_add_diff_inverse2 nonzero_mult_div_cancel_right power_add mult.assoc power_not_zero zero_neq_numeral)
  show ?thesis
  proof (cases "2 ^ 23 \<le> c")
    case True
    have m: "c div 256 < 2 ^ 23" "2 ^ 15 \<le> c div 256" using c True by simp_all
    have v: "compact_to_target (target_to_compact t) = compact_nat (s + 1) (c div 256)"
      using u(1) True m(1) by (simp only: target_to_compact_def if_True compact_to_target_pair)
    show ?thesis
    proof (cases "s \<le> 2")
      case s: True
      have "c div 256 = t * 256 ^ (2 - s)"
        using dm [of 1 "3 - s"] s by (simp add: c_def compact_mantissa_def Suc_diff_le numeral_3_eq_3 numeral_2_eq_2)
      then have "compact_nat (s + 1) (c div 256) = t" using s by (simp add: compact_nat_def)
      then show ?thesis using v by (intro exI [of _ 0]) simp
    next
      case s: False
      have "c div 256 = t div 256 ^ (s - 2)"
      proof (cases "s = 3")
        case False
        then have "s - 2 = Suc (s - 3)" using s by simp
        then show ?thesis using s by (simp add: c_def compact_mantissa_def div_mult2_eq [symmetric] mult.commute)
      qed (simp add: c_def compact_mantissa_def)
      moreover have "s + 1 - 3 = s - 2" "\<not> s + 1 \<le> 3" using s by simp_all
      ultimately have "compact_nat (s + 1) (c div 256) = t div 256 ^ (s - 2) * 256 ^ (s - 2)"
        by (simp only: compact_nat_def if_False fit)
      then show ?thesis using v m(2) \<open>c div 256 = t div 256 ^ (s - 2)\<close> by (intro exI [of _ "s - 2"]) simp
    qed
  next
    case False
    have v: "compact_to_target (target_to_compact t) = compact_nat s c"
      using u(1) False by (simp only: target_to_compact_def if_False compact_to_target_pair not_le)
    show ?thesis
    proof (cases "s \<le> 3")
      case True
      then have "compact_nat s c = t" using dm [of "3 - s" "3 - s"] by (simp add: compact_nat_def c_def compact_mantissa_def)
      then show ?thesis using v by (intro exI [of _ 0]) simp
    next
      case s: False
      then have "c = t div 256 ^ (s - 3)" by (simp add: c_def compact_mantissa_def)
      moreover have "compact_nat s c = t div 256 ^ (s - 3) * 256 ^ (s - 3)"
        using s calculation by (simp only: compact_nat_def if_False fit)
      ultimately show ?thesis using v c(1) by (intro exI [of _ "s - 3"]) simp
    qed
  qed
qed

text \<open>The rounded target is the greatest one with an encoding.\<close>

lemma compact_rounds_down: "t < W256 \<Longrightarrow> compact_to_target (target_to_compact t) \<le> t"
  using compact_roundtrip [of t] by (auto simp: div_times_less_eq_dividend)

lemma compact_rounds_greatest:
  assumes "t < W256" "compact_to_target bits \<le> t"
  shows "compact_to_target bits \<le> compact_to_target (target_to_compact t)"
proof -
  obtain k where k: "compact_to_target (target_to_compact t) = t div 256 ^ k * 256 ^ k" "k = 0 \<or> 2 ^ 15 \<le> t div 256 ^ k"
    using compact_roundtrip [OF assms(1)] by blast
  obtain m e where me: "m < 2 ^ 23" "compact_to_target bits = m * 256 ^ e" using compact_to_target_form by blast
  show ?thesis
  proof (cases "k \<le> e")
    case True
    then have e: "m * 256 ^ e = m * 256 ^ (e - k) * 256 ^ k" by (simp flip: power_add)
    then have "m * 256 ^ (e - k) \<le> t div 256 ^ k"
      using assms(2) me(2) by (metis less_eq_div_iff_mult_less_eq zero_less_numeral zero_less_power)
    then show ?thesis unfolding k(1) me(2) e by (rule mult_le_mono1)
  next
    case False
    have "m * 256 ^ e \<le> 2 ^ 23 * 256 ^ (k - 1)" using me(1) False by (intro mult_le_mono power_increasing) simp_all
    also have "\<dots> = 2 ^ 15 * 256 ^ k" using False by (cases k) simp_all
    also have "\<dots> \<le> t div 256 ^ k * 256 ^ k" using k(2) False by (intro mult_le_mono1) simp
    finally show ?thesis using k(1) me(2) by simp
  qed
qed

lemma compact_target_idem [simp]: "compact_to_target (target_to_compact (compact_to_target bits)) = compact_to_target bits"
  by (meson compact_rounds_down compact_rounds_greatest compact_to_target_less le_antisym order_refl)

lemma compact_rounds_mono:
  "a \<le> b \<Longrightarrow> b < W256 \<Longrightarrow> compact_to_target (target_to_compact a) \<le> compact_to_target (target_to_compact b)"
  by (meson compact_rounds_down compact_rounds_greatest le_less_trans le_trans)

section \<open>Work\<close>

lemma block_work_eq:
  "block_work header = (let target = compact_to_target (h_bits header) in
     if target = 0 \<or> compact_overflows (h_bits header) then 0 else W256 div (target + 1))"
proof -
  define t where "t = compact_to_target (h_bits header)"
  have "((W256 - 1 - t) div ((t + 1) mod W256) + 1) mod W256 = W256 div (t + 1)" if "t \<noteq> 0"
  proof -
    obtain m e where me: "m < 2 ^ 23" "t = m * 256 ^ e" using compact_to_target_form t_def by metis
    have "t < W256" unfolding t_def by (rule compact_to_target_less)
    moreover have "t \<noteq> W256 - 1"
    proof
      assume "t = W256 - 1"
      have "\<not> 256 dvd W256 - 1" by (simp add: dvd_eq_mod_eq_0)
      then have "e = 0" using me(2) \<open>t = W256 - 1\<close> by (metis dvd_mult dvd_power gr0I)
      then show False using me \<open>t = W256 - 1\<close> by simp
    qed
    ultimately have t: "t + 1 < W256" by simp
    have "W256 = (W256 - 1 - t) + (t + 1)" using t by simp
    then have "W256 div (t + 1) = (W256 - 1 - t) div (t + 1) + 1" by (metis add.commute add_eq_0_iff_both_eq_0 div_add_self1 one_neq_zero)
    moreover have "W256 div (t + 1) < W256" using that by (intro div_less_dividend) simp_all
    ultimately show ?thesis using t by simp
  qed
  then show ?thesis by (simp add: block_work_def Let_def t_def)
qed

end
