(* ===== verification/Block_Tree.thy ===== *)
theory Block_Tree
  imports Pow
begin

text \<open>
  The header tree of the node (\<open>src/crates/chain/src/tree.rs\<close>, \<open>tree/active_index.rs\<close>, \<open>node.rs\<close>,
  \<open>count.rs\<close>).  The slab of nodes is a list, as nodes are never removed; a \<open>NodeId\<close>
  is an index into it; the hash table is the list of the ids it holds; the published tip is the
  value behind the atomic pointer.  Operations that write through \<open>&mut self\<close> and return a
  \<open>Result\<close> keep what they wrote before an error.  Loops that walk
  the parent pointers without a bound return \<open>None\<close> when they would not end.
\<close>

type_synonym node_id = nat
type_synonym chain_tx_count = "nat option"

datatype NodeStatus = StHeaderValid | StActive | StStale | StInvalid

record BlockTreeNode =
  n_parent :: "node_id option"
  n_height :: nat
  n_hash :: hash256
  n_header :: Header
  n_chainwork :: chain_work
  n_chain_tx_count :: chain_tx_count
  n_status :: NodeStatus

record TipSnapshot =
  tip_id :: node_id
  tip_height :: nat
  tip_chainwork :: chain_work
  tip_hash :: hash256
  tip_chain_tx_count :: chain_tx_count

record ActiveHeightIndex =
  ix_entries :: "node_id list"
  ix_trusted :: bool

record BlockTree =
  t_nodes :: "BlockTreeNode list"
  t_by_hash :: "node_id list"
  t_active_by_height :: ActiveHeightIndex
  t_tip :: "TipSnapshot option"
  t_bip9_cache :: "(node_id \<times> nat) \<rightharpoonup> nat"

datatype ChainError =
    NodeIdOverflow nat
  | UnknownNode node_id
  | DuplicateHeader hash256
  | KnownInvalidHeader hash256
  | MissingParent hash256
  | InvalidParent node_id
  | BadVersion u32 nat nat
  | TimewarpAttack nat nat nat
  | NonContinuousHeader hash256 hash256
  | ZeroTarget hash256
  | TargetExceedsLimit hash256 chain_work chain_work
  | TargetBitsOverflow u32
  | InvalidPow hash256 chain_work
  | NbitsMismatch u32 u32 nat
  | ChainworkOverflow hash256
  | HeightOverflow node_id
  | NoCommonAncestor node_id node_id
  | TimestampTooEarly hash256 nat nat
  | TimestampTooFarAhead hash256 nat nat

section \<open>Transaction counts\<close>

definition UNKNOWN :: chain_tx_count where "UNKNOWN = None"

definition from_wire :: "nat \<Rightarrow> chain_tx_count" where
  "from_wire raw = (if raw = 0 then UNKNOWN else Some raw)"

definition to_wire :: "chain_tx_count \<Rightarrow> nat" where
  "to_wire c = (case c of Some count \<Rightarrow> count | None \<Rightarrow> 0)"

definition count_advance :: "chain_tx_count \<Rightarrow> nat \<Rightarrow> nat \<Rightarrow> chain_tx_count" where
  "count_advance c height delta = (case c of
     Some known \<Rightarrow> if known + delta \<le> u64_max then Some (known + delta) else UNKNOWN
   | None \<Rightarrow> if height = 0 then Some delta else UNKNOWN)"

definition count_rewind :: "chain_tx_count \<Rightarrow> nat \<Rightarrow> chain_tx_count" where
  "count_rewind c delta = (case c of
     Some known \<Rightarrow> if delta \<le> known then Some (known - delta) else UNKNOWN
   | None \<Rightarrow> UNKNOWN)"

section \<open>The index of the active chain\<close>

definition index_new :: ActiveHeightIndex where
  "index_new = \<lparr> ix_entries = [], ix_trusted = False \<rparr>"

definition index_get :: "ActiveHeightIndex \<Rightarrow> nat \<Rightarrow> node_id option" where
  "index_get ix height = get_at (ix_entries ix) height"

definition index_last :: "ActiveHeightIndex \<Rightarrow> node_id option" where
  "index_last ix = last_opt (ix_entries ix)"

definition clear_tainted :: "ActiveHeightIndex \<Rightarrow> ActiveHeightIndex" where
  "clear_tainted ix = \<lparr> ix_entries = [], ix_trusted = False \<rparr>"

definition extend_validated :: "ActiveHeightIndex \<Rightarrow> node_id \<Rightarrow> nat \<Rightarrow> node_id \<Rightarrow> bool \<times> ActiveHeightIndex" where
  "extend_validated ix parent tip_h tip =
     (if ix_trusted ix \<and> index_last ix = Some parent \<and> length (ix_entries ix) \<le> u32_max \<and> length (ix_entries ix) = tip_h
      then (True, ix\<lparr>ix_entries := ix_entries ix @ [tip]\<rparr>) else (False, ix))"

definition commit_validated_rebuild :: "node_id list \<Rightarrow> ActiveHeightIndex \<Rightarrow> ActiveHeightIndex" where
  "commit_validated_rebuild entries ix = \<lparr> ix_entries = entries, ix_trusted = True \<rparr>"

section \<open>Reading the tree\<close>

definition tree_new :: BlockTree where
  "tree_new = \<lparr> t_nodes = [], t_by_hash = [], t_active_by_height = index_new, t_tip = None, t_bip9_cache = Map.empty \<rparr>"

definition tree_len :: "BlockTree \<Rightarrow> nat" where
  "tree_len t = length (t_nodes t)"

text \<open>\<open>node_opt\<close> is \<open>self.node(id).ok()\<close>.\<close>

definition node_opt :: "BlockTree \<Rightarrow> node_id \<Rightarrow> BlockTreeNode option" where
  "node_opt t i = get_at (t_nodes t) i"

definition tree_node :: "BlockTree \<Rightarrow> node_id \<Rightarrow> ChainError + BlockTreeNode" where
  "tree_node t i = ok_or (UnknownNode i) (node_opt t i)"

definition lookup :: "BlockTree \<Rightarrow> hash256 \<Rightarrow> node_id option" where
  "lookup t hash = List.find (\<lambda>i. case node_opt t i of Some node \<Rightarrow> n_hash node = hash | None \<Rightarrow> False) (t_by_hash t)"

definition node_by_hash :: "BlockTree \<Rightarrow> hash256 \<Rightarrow> BlockTreeNode option" where
  "node_by_hash t hash = Option.bind (lookup t hash) (node_opt t)"

definition height_of_hash :: "BlockTree \<Rightarrow> hash256 \<Rightarrow> nat option" where
  "height_of_hash t hash = map_option n_height (node_by_hash t hash)"

definition parent_id :: "BlockTree \<Rightarrow> node_id \<Rightarrow> ChainError + node_id option" where
  "parent_id t i = bindE (tree_node t i) (\<lambda>node. Inr (n_parent node))"

definition leaf_node_ids :: "BlockTree \<Rightarrow> node_id list" where
  "leaf_node_ids t = (let parents = List.map_filter n_parent (t_nodes t) in
     filter (\<lambda>i. i \<notin> set parents \<and> i \<le> u32_max) [0..<length (t_nodes t)])"

definition tip_snapshot :: "BlockTree \<Rightarrow> node_id \<Rightarrow> ChainError + TipSnapshot" where
  "tip_snapshot t i = bindE (tree_node t i) (\<lambda>node.
     Inr \<lparr> tip_id = i, tip_height = n_height node, tip_chainwork = n_chainwork node, tip_hash = n_hash node,
       tip_chain_tx_count = n_chain_tx_count node \<rparr>)"

subsection \<open>Common ancestors\<close>

text \<open>The bounded climb from a node outside the active chain until it meets that chain.\<close>

fun index_climb :: "BlockTree \<Rightarrow> nat \<Rightarrow> nat \<Rightarrow> node_id \<Rightarrow> node_id option" where
  "index_climb t 0 height other = None"
| "index_climb t (Suc n) height other = Option.bind (node_opt t other) (\<lambda>node.
     if index_get (t_active_by_height t) (n_height node) = Some other
     then index_get (t_active_by_height t) (min height (n_height node))
     else Option.bind (n_parent node) (index_climb t n height))"

fun ancestry :: "BlockTree \<Rightarrow> nat \<Rightarrow> nat \<Rightarrow> node_id \<Rightarrow> (node_id \<times> nat) option" where
  "ancestry t 0 depth i = None"
| "ancestry t (Suc n) depth i = Option.bind (node_opt t i) (\<lambda>node.
     case n_parent node of Some parent \<Rightarrow> ancestry t n (depth + 1) parent | None \<Rightarrow> Some (i, depth))"

fun climb :: "BlockTree \<Rightarrow> nat \<Rightarrow> node_id \<Rightarrow> node_id option" where
  "climb t 0 i = Some i"
| "climb t (Suc n) i = Option.bind (node_opt t i) (\<lambda>node. Option.bind (n_parent node) (climb t n))"

text \<open>
  The last loop has no bound in the code.  It starts at two nodes of the same depth, so
  it ends within that depth; the model bounds it by the number of nodes, which no
  depth exceeds once \<open>ancestry\<close> has returned.
\<close>

fun meet :: "BlockTree \<Rightarrow> nat \<Rightarrow> node_id \<Rightarrow> node_id \<Rightarrow> node_id option" where
  "meet t n a b = (if a = b then Some a else case n of
     0 \<Rightarrow> None
   | Suc m \<Rightarrow> Option.bind (climb t 1 a) (\<lambda>a'. Option.bind (climb t 1 b) (\<lambda>b'. meet t m a' b')))"

declare meet.simps [simp del]

definition walked_common_ancestor :: "BlockTree \<Rightarrow> node_id \<Rightarrow> node_id \<Rightarrow> node_id option" where
  "walked_common_ancestor t a b =
     Option.bind (ancestry t (tree_len t) 0 a) (\<lambda>(a_root, a_depth).
     Option.bind (ancestry t (tree_len t) 0 b) (\<lambda>(b_root, b_depth).
     if a_root \<noteq> b_root then None
     else Option.bind (climb t (a_depth - b_depth) a) (\<lambda>a'.
       Option.bind (climb t (b_depth - a_depth) b) (\<lambda>b'. meet t (tree_len t) a' b'))))"

definition find_common_ancestor :: "BlockTree \<Rightarrow> node_id \<Rightarrow> node_id \<Rightarrow> node_id option" where
  "find_common_ancestor t a b =
     (if ix_trusted (t_active_by_height t) then
        Option.bind (node_opt t a) (\<lambda>na.
        if index_get (t_active_by_height t) (n_height na) = Some a then index_climb t (tree_len t) (n_height na) b
        else Option.bind (node_opt t b) (\<lambda>nb.
          if index_get (t_active_by_height t) (n_height nb) = Some b then index_climb t (tree_len t) (n_height nb) a
          else walked_common_ancestor t a b))
      else walked_common_ancestor t a b)"

subsection \<open>Nodes by height\<close>

fun height_walk :: "BlockTree \<Rightarrow> node_id \<Rightarrow> nat \<Rightarrow> nat \<Rightarrow> node_id \<Rightarrow> nat \<Rightarrow> (unit + node_id option) \<times> nat" where
  "height_walk t start_id target_height remaining cursor prev_height = (case node_opt t cursor of
     None \<Rightarrow> (Inr None, remaining)
   | Some node \<Rightarrow>
       if cursor \<noteq> start_id \<and> n_height node \<ge> prev_height then (Inr None, remaining)
       else if n_height node < target_height then (Inr None, remaining)
       else if ix_trusted (t_active_by_height t) \<and> index_get (t_active_by_height t) (n_height node) = Some cursor
         then (Inr (index_get (t_active_by_height t) target_height), remaining)
       else if n_height node = target_height then (Inr (Some cursor), remaining)
       else (case n_parent node of
           None \<Rightarrow> (Inr None, remaining)
         | Some parent \<Rightarrow> (case remaining of
             0 \<Rightarrow> (Inl (), remaining)
           | Suc remaining' \<Rightarrow> height_walk t start_id target_height remaining' parent (n_height node))))"

declare height_walk.simps [simp del]

definition node_at_height_from_bounded :: "BlockTree \<Rightarrow> node_id \<Rightarrow> nat \<Rightarrow> nat \<Rightarrow> (unit + node_id option) \<times> nat" where
  "node_at_height_from_bounded t start_id target_height remaining = (case node_opt t start_id of
     None \<Rightarrow> (Inr None, remaining)
   | Some start_node \<Rightarrow>
       if target_height > n_height start_node then (Inr None, remaining)
       else height_walk t start_id target_height remaining start_id (n_height start_node))"

definition node_at_height_from :: "BlockTree \<Rightarrow> node_id \<Rightarrow> nat \<Rightarrow> node_id option" where
  "node_at_height_from t start_id target_height =
     (case fst (node_at_height_from_bounded t start_id target_height u64_max) of Inr r \<Rightarrow> r | Inl _ \<Rightarrow> None)"

definition active_node_at_height :: "BlockTree \<Rightarrow> nat \<Rightarrow> BlockTreeNode option" where
  "active_node_at_height t height =
     Option.bind (t_tip t) (\<lambda>tip. Option.bind (node_at_height_from t (tip_id tip) height) (node_opt t))"

definition active_height_of :: "BlockTree \<Rightarrow> node_id \<Rightarrow> hash256 \<Rightarrow> nat option" where
  "active_height_of t tip hash =
     Option.bind (node_by_hash t hash) (\<lambda>candidate.
     Option.bind (node_at_height_from t tip (n_height candidate)) (\<lambda>active_id.
     Option.bind (node_opt t active_id) (\<lambda>active.
     if n_hash active = hash then Some (n_height active) else None)))"

abbreviation MEDIAN_TIME_PAST_WINDOW :: nat where "MEDIAN_TIME_PAST_WINDOW \<equiv> 11"

fun window_times :: "BlockTree \<Rightarrow> nat \<Rightarrow> node_id \<Rightarrow> nat list" where
  "window_times t 0 cursor = []"
| "window_times t (Suc n) cursor = (case node_opt t cursor of
     None \<Rightarrow> []
   | Some node \<Rightarrow> unat (h_time (n_header node)) # (case n_parent node of None \<Rightarrow> [] | Some parent \<Rightarrow> window_times t n parent))"

definition median_time_past_at :: "BlockTree \<Rightarrow> node_id \<Rightarrow> nat option" where
  "median_time_past_at t start_id =
     (let times = window_times t MEDIAN_TIME_PAST_WINDOW start_id in
      if times = [] then None else Some (sort times ! (length times div 2)))"

definition median_time_past_before_height :: "BlockTree \<Rightarrow> node_id \<Rightarrow> nat \<Rightarrow> nat option" where
  "median_time_past_before_height t tip height =
     (if height = 0 then None
      else Option.bind (node_at_height_from t tip (height - 1)) (median_time_past_at t))"

subsection \<open>Block locators\<close>

definition active_height_step_is_consistent :: "BlockTree \<Rightarrow> node_id \<Rightarrow> BlockTreeNode \<Rightarrow> nat \<Rightarrow> bool" where
  "active_height_step_is_consistent t i node height =
     (let parent_matches = (if height = 0 then n_parent node = None
        else (case (n_parent node, index_get (t_active_by_height t) (height - 1)) of
            (Some parent, Some expected) \<Rightarrow> parent = expected
          | _ \<Rightarrow> False)) in
      if \<not> parent_matches then False
      else if height \<ge> u32_max then True
      else (case index_get (t_active_by_height t) (height + 1) of
          None \<Rightarrow> True
        | Some child_id \<Rightarrow> (case node_opt t child_id of Some child \<Rightarrow> n_parent child = Some i | None \<Rightarrow> False)))"

text \<open>The arguments are the room left, the locator so far, the next height and the step.\<close>

fun indexed_locator_loop :: "BlockTree \<Rightarrow> node_id \<Rightarrow> nat \<Rightarrow> hash256 list \<Rightarrow> nat \<Rightarrow> nat \<Rightarrow> hash256 list option" where
  "indexed_locator_loop t tip 0 locator target_height step = Some locator"
| "indexed_locator_loop t tip (Suc room) locator target_height step =
     Option.bind (index_get (t_active_by_height t) target_height) (\<lambda>i.
     Option.bind (node_opt t i) (\<lambda>node.
     if (locator = [] \<and> i \<noteq> tip) \<or> n_height node \<noteq> target_height
         \<or> \<not> active_height_step_is_consistent t i node target_height then None
     else let locator' = locator @ [n_hash node] in
       if target_height = 0 then Some locator'
       else indexed_locator_loop t tip room locator' (target_height - step)
         (if length locator' > 10 then sat_mul32 step 2 else step)))"

definition indexed_block_locator :: "BlockTree \<Rightarrow> node_id \<Rightarrow> nat \<Rightarrow> hash256 list option" where
  "indexed_block_locator t tip max_entries =
     (if max_entries = 0 \<or> \<not> ix_trusted (t_active_by_height t) \<or> index_last (t_active_by_height t) \<noteq> Some tip then None
      else Option.bind (node_opt t tip) (\<lambda>node. indexed_locator_loop t tip max_entries [] (n_height node) 1))"

fun walk_loop :: "BlockTree \<Rightarrow> nat \<Rightarrow> node_id \<Rightarrow> node_id" where
  "walk_loop t 0 walker = walker"
| "walk_loop t (Suc n) walker = (case node_opt t walker of
     None \<Rightarrow> walker
   | Some node \<Rightarrow> (case n_parent node of None \<Rightarrow> walker | Some parent \<Rightarrow> walk_loop t n parent))"

definition walk_parent_steps :: "BlockTree \<Rightarrow> node_id \<Rightarrow> nat \<Rightarrow> node_id option" where
  "walk_parent_steps t from steps =
     (if steps \<noteq> 0 \<and> (case node_opt t from of Some node \<Rightarrow> n_parent node \<noteq> None | None \<Rightarrow> False)
      then Some (walk_loop t steps from) else None)"

fun walked_locator_loop :: "BlockTree \<Rightarrow> nat \<Rightarrow> hash256 list \<Rightarrow> node_id \<Rightarrow> nat \<Rightarrow> hash256 list" where
  "walked_locator_loop t 0 locator current step = locator"
| "walked_locator_loop t (Suc room) locator current step = (case node_opt t current of
     None \<Rightarrow> locator
   | Some node \<Rightarrow> let locator' = locator @ [n_hash node] in
       (case walk_parent_steps t current step of
          None \<Rightarrow> locator'
        | Some walker \<Rightarrow> walked_locator_loop t room locator' walker
            (if length locator' > 10 then sat_mul64 step 2 else step)))"

definition walked_block_locator :: "BlockTree \<Rightarrow> node_id \<Rightarrow> nat \<Rightarrow> hash256 list" where
  "walked_block_locator t tip max_entries = walked_locator_loop t max_entries [] tip 1"

definition block_locator :: "BlockTree \<Rightarrow> node_id \<Rightarrow> nat \<Rightarrow> hash256 list" where
  "block_locator t tip max_entries = (case indexed_block_locator t tip max_entries of
     Some locator \<Rightarrow> locator
   | None \<Rightarrow> walked_block_locator t tip max_entries)"

section \<open>Changing the tree\<close>

definition set_node :: "node_id \<Rightarrow> (BlockTreeNode \<Rightarrow> BlockTreeNode) \<Rightarrow> (BlockTree, ChainError, unit) sresult" where
  "set_node i f t = (case node_opt t i of
     None \<Rightarrow> (Inl (UnknownNode i), t)
   | Some node \<Rightarrow> (Inr (), t\<lparr>t_nodes := (t_nodes t)[i := f node]\<rparr>))"

definition refresh_published_tip :: "node_id \<Rightarrow> BlockTree \<Rightarrow> BlockTree" where
  "refresh_published_tip i t = (case t_tip t of
     None \<Rightarrow> t
   | Some tip \<Rightarrow> if tip_id tip \<noteq> i then t
       else (case tip_snapshot t i of Inr snapshot \<Rightarrow> t\<lparr>t_tip := Some snapshot\<rparr> | Inl _ \<Rightarrow> t))"

definition restore_chain_tx_count :: "node_id \<Rightarrow> chain_tx_count \<Rightarrow> (BlockTree, ChainError, unit) sresult" where
  "restore_chain_tx_count i count =
     bindS (set_node i (\<lambda>node. node\<lparr>n_chain_tx_count := count\<rparr>)) (\<lambda>_ t. (Inr (), refresh_published_tip i t))"

definition record_applied_tx_count :: "node_id \<Rightarrow> nat \<Rightarrow> (BlockTree, ChainError, unit) sresult" where
  "record_applied_tx_count i block_tx_count t =
     bindS (liftS (tree_node t i)) (\<lambda>node.
     bindS (liftS (case n_parent node of
         Some parent \<Rightarrow> bindE (tree_node t parent) (\<lambda>p. Inr (n_chain_tx_count p))
       | None \<Rightarrow> Inr UNKNOWN)) (\<lambda>parent_count.
     restore_chain_tx_count i (count_advance parent_count (n_height node) block_tx_count))) t"

text \<open>
  \<open>refresh_active_height_index\<close>: the index is extended when the tip is a child of its
  last entry and rebuilt from the parent pointers otherwise.  The walk stops at a node seen before.
\<close>

function rebuild_chain :: "BlockTree \<Rightarrow> node_id list \<Rightarrow> node_id \<Rightarrow> node_id list option" where
  "rebuild_chain t seen i =
     (if i \<in> set seen then None
      else case node_opt t i of
        None \<Rightarrow> None
      | Some node \<Rightarrow> (case n_parent node of
          None \<Rightarrow> Some (i # seen)
        | Some parent \<Rightarrow> rebuild_chain t (i # seen) parent))"
  by pat_completeness auto
termination
proof (relation "measure (\<lambda>(t, seen, i). card ({..<length (t_nodes t)} - set seen))")
  fix t :: BlockTree and seen i node parent
  assume a: "i \<notin> set seen" "node_opt t i = Some node"
  then have "i \<in> {..<length (t_nodes t)} - set seen" by (auto simp: node_opt_def get_at_def split: if_splits)
  then have "{..<length (t_nodes t)} - set (i # seen) \<subset> {..<length (t_nodes t)} - set seen" by auto
  then show "((t, i # seen, parent), (t, seen, i)) \<in> measure (\<lambda>(t, seen, i). card ({..<length (t_nodes t)} - set seen))"
    by (simp add: psubset_card_mono)
qed simp

declare rebuild_chain.simps [simp del]

definition refresh_active_height_index :: "node_id \<Rightarrow> BlockTree \<Rightarrow> BlockTree" where
  "refresh_active_height_index tip t = (case node_opt t tip of
     None \<Rightarrow> t\<lparr>t_active_by_height := clear_tainted (t_active_by_height t)\<rparr>
   | Some node \<Rightarrow>
      (case (case n_parent node of
           Some parent \<Rightarrow> extend_validated (t_active_by_height t) parent (n_height node) tip
         | None \<Rightarrow> (False, t_active_by_height t)) of
         (True, ix) \<Rightarrow> t\<lparr>t_active_by_height := ix\<rparr>
       | (False, ix) \<Rightarrow> (case rebuild_chain t [] tip of
           None \<Rightarrow> t\<lparr>t_active_by_height := clear_tainted ix\<rparr>
         | Some rebuilt \<Rightarrow>
             if list_all (\<lambda>(offset, i). case node_opt t i of Some n \<Rightarrow> n_height n = offset | None \<Rightarrow> False)
                 (enumerate 0 rebuilt)
             then t\<lparr>t_active_by_height := commit_validated_rebuild rebuilt ix\<rparr>
             else t\<lparr>t_active_by_height := clear_tainted ix\<rparr>)))"

definition publish_tip_if_best :: "node_id \<Rightarrow> (BlockTree, ChainError, hash256 option) sresult" where
  "publish_tip_if_best i t = (case tree_node t i of
     Inl e \<Rightarrow> (Inl e, t)
   | Inr node \<Rightarrow>
       if n_status node = StInvalid then (Inr None, t)
       else if (case t_tip t of Some tip \<Rightarrow> n_chainwork node \<le> tip_chainwork tip | None \<Rightarrow> False) then (Inr None, t)
       else
         bindS (case t_tip t of
             Some old_tip \<Rightarrow>
               if tip_id old_tip = i then liftS (Inr None)
               else
                 let extends_old_tip = (n_parent node = Some (tip_id old_tip)
                       \<or> find_common_ancestor t (tip_id old_tip) i = Some (tip_id old_tip)) in
                 bindS (set_node (tip_id old_tip) (\<lambda>n. n\<lparr>n_status := StStale\<rparr>)) (\<lambda>_.
                 liftS (Inr (if extends_old_tip then None else Some (tip_hash old_tip))))
           | None \<Rightarrow> liftS (Inr None)) (\<lambda>demoted_tip.
         bindS (set_node i (\<lambda>n. n\<lparr>n_status := StActive\<rparr>)) (\<lambda>_ t.
           bindS (liftS (tip_snapshot t i)) (\<lambda>snapshot t.
             (Inr demoted_tip, refresh_active_height_index i (t\<lparr>t_tip := Some snapshot\<rparr>))) t)) t)"

record Inserted =
  ins_id :: node_id
  ins_demoted_tip :: "hash256 option"

text \<open>The place of a new header: height, chain work and status from the parent.\<close>

definition node_place ::
    "BlockTree \<Rightarrow> node_id option \<Rightarrow> Header \<Rightarrow> hash256 \<Rightarrow> NodeStatus \<Rightarrow> ChainError + nat \<times> chain_work \<times> NodeStatus" where
  "node_place t parent header hash status = (case parent of
     Some parent' \<Rightarrow>
       bindE (tree_node t parent') (\<lambda>parent_node.
       let expected_prev = n_hash parent_node; actual_prev = h_prev_blockhash header in
       bindE (guardE (actual_prev \<noteq> expected_prev) (NonContinuousHeader expected_prev actual_prev)) (\<lambda>_.
       bindE (guardE (n_height parent_node + 1 > u32_max) (HeightOverflow parent')) (\<lambda>_.
       bindE (guardE (n_chainwork parent_node + block_work header \<ge> W256) (ChainworkOverflow hash)) (\<lambda>_.
       Inr (n_height parent_node + 1, n_chainwork parent_node + block_work header,
         if n_status parent_node = StInvalid then StInvalid else status)))))
   | None \<Rightarrow> Inr (0, block_work header, status))"

definition insert_node_with_hash ::
    "node_id option \<Rightarrow> Header \<Rightarrow> hash256 \<Rightarrow> NodeStatus \<Rightarrow> (BlockTree, ChainError, Inserted) sresult" where
  "insert_node_with_hash parent header hash status t =
     (if lookup t hash \<noteq> None then (Inl (DuplicateHeader hash), t)
      else case node_place t parent header hash status of
        Inl e \<Rightarrow> (Inl e, t)
      | Inr (height, chainwork, status') \<Rightarrow>
          let index = length (t_nodes t);
              t' = t\<lparr>t_nodes := t_nodes t @ [\<lparr> n_parent = parent, n_height = height, n_hash = hash, n_header = header,
                n_chainwork = chainwork, n_chain_tx_count = UNKNOWN, n_status = status' \<rparr>]\<rparr> in
          if index > u32_max then (Inl (NodeIdOverflow index), t')
          else
            bindS (publish_tip_if_best index) (\<lambda>demoted_tip.
              liftS (Inr \<lparr> ins_id = index, ins_demoted_tip = demoted_tip \<rparr>)) (t'\<lparr>t_by_hash := t_by_hash t @ [index]\<rparr>))"

definition insert_header_with_hash ::
    "Header \<Rightarrow> hash256 \<Rightarrow> NodeStatus \<Rightarrow> (BlockTree, ChainError, Inserted) sresult" where
  "insert_header_with_hash header hash status t =
     (if t_nodes t = [] then insert_node_with_hash None header hash status t
      else case lookup t (h_prev_blockhash header) of
        None \<Rightarrow> (Inl (MissingParent (h_prev_blockhash header)), t)
      | Some parent \<Rightarrow> insert_node_with_hash (Some parent) header hash status t)"

definition insert_header ::
    "(bytes \<Rightarrow> bytes) \<Rightarrow> Header \<Rightarrow> NodeStatus \<Rightarrow> (BlockTree, ChainError, node_id) sresult" where
  "insert_header sh header status =
     bindS (insert_header_with_hash header (compute_hash sh header) status) (\<lambda>inserted. liftS (Inr (ins_id inserted)))"

definition insert_node ::
    "(bytes \<Rightarrow> bytes) \<Rightarrow> node_id option \<Rightarrow> Header \<Rightarrow> NodeStatus \<Rightarrow> (BlockTree, ChainError, node_id) sresult" where
  "insert_node sh parent header status =
     bindS (insert_node_with_hash parent header (compute_hash sh header) status) (\<lambda>inserted. liftS (Inr (ins_id inserted)))"

definition cache_bip9_state :: "node_id \<Rightarrow> nat \<Rightarrow> nat \<Rightarrow> BlockTree \<Rightarrow> BlockTree" where
  "cache_bip9_state i deployment_id tag t = t\<lparr>t_bip9_cache := (t_bip9_cache t)((i, deployment_id) \<mapsto> tag)\<rparr>"

definition cached_bip9_state :: "BlockTree \<Rightarrow> node_id \<Rightarrow> nat \<Rightarrow> nat option" where
  "cached_bip9_state t i deployment_id = t_bip9_cache t (i, deployment_id)"

definition invalidate_nodes :: "bool list \<Rightarrow> ((node_id \<times> nat) \<rightharpoonup> nat) \<Rightarrow> ((node_id \<times> nat) \<rightharpoonup> nat)" where
  "invalidate_nodes invalid entries = (\<lambda>(i, d). if get_at invalid i = Some True then None else entries (i, d))"

subsection \<open>Invalidation\<close>

definition children_of :: "BlockTree \<Rightarrow> node_id \<Rightarrow> node_id list" where
  "children_of t i = filter (\<lambda>c. n_parent (t_nodes t ! c) = Some i) [0..<length (t_nodes t)]"

definition mark_child :: "bool list \<times> node_id list \<Rightarrow> node_id \<Rightarrow> bool list \<times> node_id list" where
  "mark_child s child = (case s of (invalid, worklist) \<Rightarrow>
     if get_at invalid child = Some False then (invalid[child := True], child # worklist) else (invalid, worklist))"

lemma mark_child_measure:
  "2 * count_list (fst (mark_child s child)) False + length (snd (mark_child s child))
     \<le> 2 * count_list (fst s) False + length (snd s)"
proof -
  obtain invalid worklist where s: "s = (invalid, worklist)" by (cases s)
  have "count_list (invalid[child := True]) False + 1 = count_list invalid False" if "get_at invalid child = Some False"
  proof -
    have c: "child < length invalid" "invalid ! child = False" using that by (auto simp: get_at_def split: if_splits)
    have "invalid = take child invalid @ False # drop (Suc child) invalid" using c by (metis id_take_nth_drop)
    moreover have "invalid[child := True] = take child invalid @ True # drop (Suc child) invalid"
      using c(1) by (rule upd_conv_take_nth_drop)
    ultimately show ?thesis
      by (metis (no_types, lifting) count_list.simps(2) count_list_append add.assoc)
  qed
  then show ?thesis by (auto simp: s mark_child_def)
qed

lemma mark_children_measure:
  "2 * count_list (fst (foldl mark_child s cs)) False + length (snd (foldl mark_child s cs))
     \<le> 2 * count_list (fst s) False + length (snd s)"
proof (induction cs arbitrary: s)
  case (Cons c cs)
  show ?case using Cons.IH [of "mark_child s c"] mark_child_measure [of s c] by (simp only: foldl.simps order_trans)
qed simp

function invalid_closure :: "BlockTree \<Rightarrow> bool list \<Rightarrow> node_id list \<Rightarrow> bool list" where
  "invalid_closure t invalid [] = invalid"
| "invalid_closure t invalid (i # worklist) =
     invalid_closure t (fst (foldl mark_child (invalid, worklist) (children_of t i)))
       (snd (foldl mark_child (invalid, worklist) (children_of t i)))"
  by pat_completeness auto
termination
proof (relation "measure (\<lambda>(t, invalid, worklist). 2 * count_list invalid False + length worklist)")
  fix t :: BlockTree and invalid i worklist
  note mark_children_measure [of "(invalid, worklist)" "children_of t i"]
  then show "((t, fst (foldl mark_child (invalid, worklist) (children_of t i)),
          snd (foldl mark_child (invalid, worklist) (children_of t i))), (t, invalid, i # worklist))
      \<in> measure (\<lambda>(t, invalid, worklist). 2 * count_list invalid False + length worklist)"
    by (simp add: case_prod_beta)
qed simp

text \<open>The better of two candidates by work, then by age; the code folds it over the nodes in order.\<close>

definition better_tip :: "BlockTree \<Rightarrow> node_id \<Rightarrow> node_id \<Rightarrow> node_id" where
  "better_tip t left right =
     (if n_chainwork (t_nodes t ! left) > n_chainwork (t_nodes t ! right)
         \<or> n_chainwork (t_nodes t ! left) = n_chainwork (t_nodes t ! right) \<and> right > left
      then left else right)"

definition best_tip :: "BlockTree \<Rightarrow> bool list \<Rightarrow> node_id option" where
  "best_tip t invalid =
     (case filter (\<lambda>i. \<not> invalid ! i \<and> n_status (t_nodes t ! i) \<noteq> StInvalid) [0..<length (t_nodes t)] of
        [] \<Rightarrow> None
      | i # is \<Rightarrow> Some (foldl (better_tip t) i is))"

definition invalidation_plan :: "BlockTree \<Rightarrow> node_id \<Rightarrow> ChainError + bool list \<times> node_id option" where
  "invalidation_plan t root =
     bindE (tree_node t root) (\<lambda>_.
     case List.find (\<lambda>i. n_parent (t_nodes t ! i) \<noteq> None \<and> i > u32_max) [0..<length (t_nodes t)] of
       Some index \<Rightarrow> Inl (NodeIdOverflow index)
     | None \<Rightarrow>
         let invalid = invalid_closure t ((replicate (length (t_nodes t)) False)[root := True]) [root] in
         (case best_tip t invalid of
            None \<Rightarrow> Inr (invalid, None)
          | Some index \<Rightarrow> if index > u32_max then Inl (NodeIdOverflow index) else Inr (invalid, Some index)))"

definition tip_after_invalidation :: "BlockTree \<Rightarrow> node_id \<Rightarrow> ChainError + node_id option" where
  "tip_after_invalidation t root = bindE (invalidation_plan t root) (\<lambda>(_, best). Inr best)"

record InvalidationOutcome =
  io_invalid :: "hash256 list"
  io_demoted_tip :: "hash256 option"

definition mark_invalid :: "bool list \<Rightarrow> BlockTree \<Rightarrow> BlockTree" where
  "mark_invalid invalid t =
     t\<lparr>t_nodes := map2 (\<lambda>bad node. if bad then node\<lparr>n_status := StInvalid\<rparr> else node) invalid (t_nodes t)\<rparr>"

definition invalidate_subtree :: "node_id \<Rightarrow> (BlockTree, ChainError, InvalidationOutcome) sresult" where
  "invalidate_subtree root t = (case invalidation_plan t root of
     Inl e \<Rightarrow> (Inl e, t)
   | Inr (invalid, best) \<Rightarrow>
       bindS (case (t_tip t, best) of
           (Some old_tip, Some best') \<Rightarrow>
             if best' \<noteq> tip_id old_tip \<and> \<not> invalid ! tip_id old_tip then
               let demoted_tip = (if find_common_ancestor t (tip_id old_tip) best' \<noteq> Some (tip_id old_tip)
                     then Some (tip_hash old_tip) else None) in
               bindS (set_node (tip_id old_tip) (\<lambda>n. n\<lparr>n_status := StStale\<rparr>)) (\<lambda>_. liftS (Inr demoted_tip))
             else liftS (Inr None)
         | _ \<Rightarrow> liftS (Inr None)) (\<lambda>demoted_tip t.
       let t = t\<lparr>t_tip := None, t_active_by_height := clear_tainted (t_active_by_height t)\<rparr>;
           hashes = map (n_hash \<circ> snd) (filter fst (zip invalid (t_nodes t)));
           t = mark_invalid invalid t;
           t = t\<lparr>t_bip9_cache := invalidate_nodes invalid (t_bip9_cache t)\<rparr> in
       bindS (case best of None \<Rightarrow> liftS (Inr None) | Some best' \<Rightarrow> publish_tip_if_best best') (\<lambda>_.
       liftS (Inr \<lparr> io_invalid = hashes, io_demoted_tip = demoted_tip \<rparr>)) t) t)"

section \<open>Walks to the root\<close>

text \<open>A result that may never come: \<open>None\<close> is a loop that does not end.\<close>

definition bindT :: "('e + 'a) option \<Rightarrow> ('a \<Rightarrow> ('e + 'b) option) \<Rightarrow> ('e + 'b) option" where
  "bindT m f = (case m of None \<Rightarrow> None | Some (Inl e) \<Rightarrow> Some (Inl e) | Some (Inr x) \<Rightarrow> f x)"

partial_function (option) ancestor_chain_from ::
    "BlockTree \<Rightarrow> node_id list \<Rightarrow> node_id \<Rightarrow> (ChainError + node_id list) option" where
  [code]: "ancestor_chain_from t out i = (case tree_node t i of
     Inl e \<Rightarrow> Some (Inl e)
   | Inr node \<Rightarrow> (case n_parent node of
       None \<Rightarrow> Some (Inr (out @ [i]))
     | Some parent \<Rightarrow> ancestor_chain_from t (out @ [i]) parent))"

definition ancestor_chain :: "BlockTree \<Rightarrow> node_id \<Rightarrow> (ChainError + node_id list) option" where
  "ancestor_chain t start = ancestor_chain_from t [] start"

fun side_nodes :: "BlockTree \<Rightarrow> chain_work \<Rightarrow> bool list \<Rightarrow> node_id list \<Rightarrow> node_id list \<Rightarrow> ChainError + node_id list" where
  "side_nodes t tip_work kept side [] = Inr side"
| "side_nodes t tip_work kept side (i # is) = (case n_parent (t_nodes t ! i) of
     None \<Rightarrow> side_nodes t tip_work kept side is
   | Some parent \<Rightarrow>
       if kept ! i \<or> n_status (t_nodes t ! i) = StInvalid \<or> n_chainwork (t_nodes t ! i) > tip_work
           \<or> get_at kept parent \<noteq> Some True
       then side_nodes t tip_work kept side is
       else if i > u32_max then Inl (NodeIdOverflow i)
       else side_nodes t tip_work (kept[i := True]) (side @ [i]) is)"

text \<open>The nodes marked first are those of \<open>ancestor_chain\<close>, found by the same walk.\<close>

definition replayable_side_nodes :: "BlockTree \<Rightarrow> node_id \<Rightarrow> (ChainError + node_id list) option" where
  "replayable_side_nodes t tip =
     bindT (Some (tree_node t tip)) (\<lambda>tip_node.
     bindT (ancestor_chain t tip) (\<lambda>chain.
     Some (side_nodes t (n_chainwork tip_node) (map (\<lambda>i. i \<in> set chain) [0..<length (t_nodes t)]) []
       [0..<length (t_nodes t)])))"

end
