(* ===== verification/Tree_Inv.thy ===== *)
theory Tree_Inv
  imports Block_Tree
begin

text \<open>
  Correctness of the header tree.  \<open>anc\<close> follows parent pointers; the locale \<open>forest\<close> is what
  the walks rely on: parents come before their children and heights count the steps to
  the root.  The invariant \<open>tree_inv\<close> says that every node is placed by its parent, that the
  hash table holds every node once, that invalidity is inherited, that the published tip is
  the oldest node of most work among the valid ones, and that the index lists its chain.
  It holds of every tree that these operations build, with no store through the shared tip
  pointer from outside.
\<close>

section \<open>Ancestors\<close>

fun anc :: "(nat \<Rightarrow> nat option) \<Rightarrow> nat \<Rightarrow> nat \<Rightarrow> nat option" where
  "anc par 0 i = Some i"
| "anc par (Suc k) i = Option.bind (par i) (anc par k)"

definition is_anc :: "(nat \<Rightarrow> nat option) \<Rightarrow> nat \<Rightarrow> nat \<Rightarrow> bool" where
  "is_anc par a i \<longleftrightarrow> (\<exists>k. anc par k i = Some a)"

text \<open>The lowest common ancestor: every other common ancestor lies above it.\<close>

definition lowest_common :: "(nat \<Rightarrow> nat option) \<Rightarrow> nat \<Rightarrow> nat \<Rightarrow> nat \<Rightarrow> bool" where
  "lowest_common par a b c \<longleftrightarrow> is_anc par c a \<and> is_anc par c b
     \<and> (\<forall>d. is_anc par d a \<and> is_anc par d b \<longrightarrow> is_anc par d c)"

lemma anc_add: "anc par (j + k) i = Option.bind (anc par j i) (anc par k)"
  by (induction j arbitrary: i) (auto split: Option.bind_splits)

lemma anc_Suc_last: "anc par (Suc k) i = Option.bind (anc par k i) par"
proof -
  have "anc par 1 = par" by (rule ext) (simp split: Option.bind_splits)
  then show ?thesis using anc_add [of par k 1 i] by simp
qed

lemma anc_1 [simp]: "anc par (Suc 0) i = par i"
  by (cases "par i") simp_all

lemma is_anc_refl [simp]: "is_anc par i i"
  unfolding is_anc_def by (rule exI [of _ 0]) simp

lemma is_anc_trans: "is_anc par a b \<Longrightarrow> is_anc par b c \<Longrightarrow> is_anc par a c"
  unfolding is_anc_def by (metis anc_add bind.bind_lunit)

lemma is_anc_step: "is_anc par a i \<longleftrightarrow> a = i \<or> (\<exists>p. par i = Some p \<and> is_anc par a p)"
proof
  assume "is_anc par a i"
  then obtain k where "anc par k i = Some a" by (auto simp: is_anc_def)
  then show "a = i \<or> (\<exists>p. par i = Some p \<and> is_anc par a p)"
    by (cases k) (auto simp: is_anc_def bind_eq_Some_conv)
next
  assume "a = i \<or> (\<exists>p. par i = Some p \<and> is_anc par a p)"
  then show "is_anc par a i"
    by (metis anc_1 is_anc_def is_anc_refl is_anc_trans)
qed

locale forest =
  fixes ok :: "'t \<Rightarrow> bool" and par :: "'t \<Rightarrow> nat \<Rightarrow> nat option" and ht :: "'t \<Rightarrow> nat \<Rightarrow> nat"
  assumes par_less: "ok t \<Longrightarrow> par t i = Some p \<Longrightarrow> p < i"
    and ht_root: "ok t \<Longrightarrow> par t i = None \<Longrightarrow> ht t i = 0"
    and ht_par: "ok t \<Longrightarrow> par t i = Some p \<Longrightarrow> ht t i = Suc (ht t p)"
begin

lemma anc_height: "ok t \<Longrightarrow> anc (par t) k i = Some a \<Longrightarrow> ht t i = ht t a + k"
  by (induction k arbitrary: i) (auto simp: bind_eq_Some_conv ht_par)

lemma anc_total: "ok t \<Longrightarrow> k \<le> ht t i \<Longrightarrow> \<exists>a. anc (par t) k i = Some a"
proof (induction k arbitrary: i)
  case (Suc k)
  then obtain p where p: "par t i = Some p" using ht_root [OF Suc.prems(1), of i] by (cases "par t i") auto
  then have "k \<le> ht t p" using Suc.prems(2) ht_par [OF Suc.prems(1) p] by simp
  then show ?case using Suc.IH Suc.prems(1) p by simp
qed simp

lemma anc_le: "ok t \<Longrightarrow> anc (par t) k i = Some a \<Longrightarrow> a + k \<le> i"
proof (induction k arbitrary: i)
  case (Suc k)
  then obtain p where p: "par t i = Some p" "anc (par t) k p = Some a" by (auto simp: bind_eq_Some_conv)
  then show ?case using Suc.IH [of p] Suc.prems(1) par_less [of t i p] by simp
qed simp

lemma ht_le: "ok t \<Longrightarrow> ht t i \<le> i"
  using anc_total [of t "ht t i" i] anc_le [of t "ht t i" i] by auto

lemma anc_None: "ok t \<Longrightarrow> ht t i < k \<Longrightarrow> anc (par t) k i = None"
  using anc_height [of t k i] by (cases "anc (par t) k i") auto

lemma anc_root: "ok t \<Longrightarrow> \<exists>r. anc (par t) (ht t i) i = Some r \<and> par t r = None"
proof -
  assume ok: "ok t"
  then obtain r where r: "anc (par t) (ht t i) i = Some r" using anc_total by blast
  then have "par t r = None" using anc_None [OF ok, of i "Suc (ht t i)"] anc_Suc_last [of "par t" "ht t i" i] by simp
  then show ?thesis using r by blast
qed

lemma is_anc_iff:
  "ok t \<Longrightarrow> is_anc (par t) a i \<longleftrightarrow> ht t a \<le> ht t i \<and> anc (par t) (ht t i - ht t a) i = Some a"
  unfolding is_anc_def by (auto dest: anc_height)

lemma is_anc_unique:
  "ok t \<Longrightarrow> is_anc (par t) a i \<Longrightarrow> is_anc (par t) b i \<Longrightarrow> ht t a = ht t b \<Longrightarrow> a = b"
  by (simp add: is_anc_iff)

lemma is_anc_between:
  assumes "ok t" "is_anc (par t) a i" "is_anc (par t) b i" "ht t a \<le> ht t b"
  shows "is_anc (par t) a b"
proof -
  have "ht t i - ht t a = (ht t i - ht t b) + (ht t b - ht t a)" using assms is_anc_iff [OF assms(1)] by auto
  then have "Option.bind (anc (par t) (ht t i - ht t b) i) (anc (par t) (ht t b - ht t a)) = Some a"
    using assms(2) is_anc_iff [OF assms(1), of a i] anc_add [of "par t" "ht t i - ht t b" "ht t b - ht t a" i] by simp
  then show ?thesis using assms(3) is_anc_iff [OF assms(1), of b i] by (auto simp: is_anc_def)
qed

lemma is_anc_antisym: "ok t \<Longrightarrow> is_anc (par t) a b \<Longrightarrow> is_anc (par t) b a \<Longrightarrow> a = b"
  using is_anc_unique [of t a b b] is_anc_iff [of t a b] is_anc_iff [of t b a] by simp

lemma lowest_common_unique:
  "ok t \<Longrightarrow> lowest_common (par t) a b c \<Longrightarrow> lowest_common (par t) a b c' \<Longrightarrow> c = c'"
  unfolding lowest_common_def by (meson is_anc_antisym)

text \<open>A common ancestor below which the two branches differ is the lowest one.\<close>

lemma lowest_commonI:
  assumes "ok t" "is_anc (par t) c a" "is_anc (par t) c b"
    and "\<And>d. is_anc (par t) d a \<Longrightarrow> is_anc (par t) d b \<Longrightarrow> ht t d \<le> ht t c"
  shows "lowest_common (par t) a b c"
  unfolding lowest_common_def using assms is_anc_between by blast

lemma lowest_common_root:
  assumes "ok t" "is_anc (par t) d a" "is_anc (par t) d b"
    "anc (par t) (ht t a) a = Some r" "anc (par t) (ht t b) b = Some r'"
  shows "r = r'"
proof -
  obtain q where q: "anc (par t) (ht t d) d = Some q" using anc_total [OF assms(1), of "ht t d" d] by blast
  have "is_anc (par t) q d" "ht t q = 0" using q anc_height [OF assms(1) q] by (auto simp: is_anc_def)
  moreover have "ht t r = 0" "ht t r' = 0" "is_anc (par t) r a" "is_anc (par t) r' b"
    using assms(4,5) anc_height [OF assms(1) assms(4)] anc_height [OF assms(1) assms(5)] by (auto simp: is_anc_def)
  ultimately have "q = r" "q = r'"
    using is_anc_unique [OF assms(1)] is_anc_trans [of "par t" q d a] is_anc_trans [of "par t" q d b] assms(2,3) by auto
  then show ?thesis by simp
qed

end

lemma anc_cong:
  assumes "\<And>j. j \<le> i \<Longrightarrow> par j = par' j" "\<And>j p. par j = Some p \<Longrightarrow> p < j"
  shows "anc par k i = anc par' k i"
  using assms(1)
proof (induction k arbitrary: i)
  case (Suc k)
  show ?case
  proof (cases "par i")
    case None
    then show ?thesis using Suc.prems [of i] by simp
  next
    case (Some p)
    have "anc par k p = anc par' k p" using Suc.prems assms(2) [OF Some] by (intro Suc.IH) auto
    then show ?thesis using Some Suc.prems [of i] by simp
  qed
qed simp

section \<open>The invariant\<close>

definition parent_of :: "BlockTree \<Rightarrow> node_id \<Rightarrow> node_id option" where
  "parent_of t i = Option.bind (node_opt t i) n_parent"

definition height_of :: "BlockTree \<Rightarrow> node_id \<Rightarrow> nat" where
  "height_of t i = (case node_opt t i of Some node \<Rightarrow> n_height node | None \<Rightarrow> 0)"

definition place_ok :: "BlockTreeNode list \<Rightarrow> node_id \<Rightarrow> bool" where
  "place_ok ns i \<longleftrightarrow> (case n_parent (ns ! i) of
     None \<Rightarrow> n_height (ns ! i) = 0 \<and> n_chainwork (ns ! i) = block_work (n_header (ns ! i))
   | Some p \<Rightarrow> p < i \<and> n_height (ns ! i) = Suc (n_height (ns ! p)) \<and> n_height (ns ! i) \<le> u32_max
       \<and> n_chainwork (ns ! i) = n_chainwork (ns ! p) + block_work (n_header (ns ! i)) \<and> n_chainwork (ns ! i) < W256
       \<and> h_prev_blockhash (n_header (ns ! i)) = n_hash (ns ! p))"

definition nodes_ok :: "BlockTree \<Rightarrow> bool" where
  "nodes_ok t \<longleftrightarrow> (\<forall>i < length (t_nodes t). place_ok (t_nodes t) i)"

definition status_ok :: "BlockTree \<Rightarrow> bool" where
  "status_ok t \<longleftrightarrow> (\<forall>i < length (t_nodes t). \<forall>p. n_parent (t_nodes t ! i) = Some p \<longrightarrow>
     n_status (t_nodes t ! p) = StInvalid \<longrightarrow> n_status (t_nodes t ! i) = StInvalid)"

definition base_inv :: "BlockTree \<Rightarrow> bool" where
  "base_inv t \<longleftrightarrow> nodes_ok t \<and> status_ok t \<and> distinct (map n_hash (t_nodes t)) \<and> t_by_hash t = [0..<length (t_nodes t)]"

definition valid_node :: "BlockTree \<Rightarrow> node_id \<Rightarrow> bool" where
  "valid_node t i \<longleftrightarrow> i < length (t_nodes t) \<and> n_status (t_nodes t ! i) \<noteq> StInvalid"

text \<open>The oldest among the valid nodes of most work.\<close>

definition is_best :: "BlockTree \<Rightarrow> node_id \<Rightarrow> bool" where
  "is_best t i \<longleftrightarrow> valid_node t i \<and> (\<forall>j. valid_node t j \<longrightarrow>
     n_chainwork (t_nodes t ! j) < n_chainwork (t_nodes t ! i)
     \<or> n_chainwork (t_nodes t ! j) = n_chainwork (t_nodes t ! i) \<and> i \<le> j)"

definition ix_ok :: "BlockTree \<Rightarrow> node_id \<Rightarrow> bool" where
  "ix_ok t i \<longleftrightarrow> ix_trusted (t_active_by_height t)
     \<and> length (ix_entries (t_active_by_height t)) = Suc (height_of t i)
     \<and> (\<forall>h \<le> height_of t i. anc (parent_of t) (height_of t i - h) i = Some (ix_entries (t_active_by_height t) ! h))"

definition tip_ok :: "BlockTree \<Rightarrow> bool" where
  "tip_ok t \<longleftrightarrow> (case t_tip t of
     None \<Rightarrow> (\<forall>i. \<not> valid_node t i) \<and> \<not> ix_trusted (t_active_by_height t)
   | Some tip \<Rightarrow> is_best t (tip_id tip) \<and> tip_snapshot t (tip_id tip) = Inr tip \<and> ix_ok t (tip_id tip))"

definition tree_inv :: "BlockTree \<Rightarrow> bool" where
  "tree_inv t \<longleftrightarrow> base_inv t \<and> tip_ok t"

lemma node_opt_eq: "node_opt t i = (if i < length (t_nodes t) then Some (t_nodes t ! i) else None)"
  by (simp add: node_opt_def get_at_def)

lemma tree_node_eq: "tree_node t i = (if i < length (t_nodes t) then Inr (t_nodes t ! i) else Inl (UnknownNode i))"
  by (simp add: tree_node_def node_opt_eq)

lemma parent_of_eq: "parent_of t i = (if i < length (t_nodes t) then n_parent (t_nodes t ! i) else None)"
  by (simp add: parent_of_def node_opt_eq)

lemma height_of_eq: "height_of t i = (if i < length (t_nodes t) then n_height (t_nodes t ! i) else 0)"
  by (simp add: height_of_def node_opt_eq)

lemma nodes_okD:
  assumes "nodes_ok t" "i < length (t_nodes t)" "n_parent (t_nodes t ! i) = Some p"
  shows "p < i" "n_height (t_nodes t ! i) = Suc (n_height (t_nodes t ! p))" "n_height (t_nodes t ! i) \<le> u32_max"
    "h_prev_blockhash (n_header (t_nodes t ! i)) = n_hash (t_nodes t ! p)"
    "n_chainwork (t_nodes t ! i) = n_chainwork (t_nodes t ! p) + block_work (n_header (t_nodes t ! i))"
  using assms by (auto simp: nodes_ok_def place_ok_def)

lemma nodes_ok_root:
  "nodes_ok t \<Longrightarrow> i < length (t_nodes t) \<Longrightarrow> n_parent (t_nodes t ! i) = None \<Longrightarrow> n_height (t_nodes t ! i) = 0"
  by (auto simp: nodes_ok_def place_ok_def)

interpretation tree: forest nodes_ok parent_of height_of
proof unfold_locales
  fix t i p
  assume ok: "nodes_ok t" and p: "parent_of t i = Some p"
  then have i: "i < length (t_nodes t)" "n_parent (t_nodes t ! i) = Some p" by (auto simp: parent_of_eq split: if_splits)
  note d = nodes_okD [OF ok i]
  then show "p < i" by simp
  then show "height_of t i = Suc (height_of t p)" using i d by (simp add: height_of_eq)
next
  fix t i
  assume "nodes_ok t" "parent_of t i = None"
  then show "height_of t i = 0" using nodes_ok_root by (auto simp: parent_of_eq height_of_eq)
qed

lemma parent_in_tree: "nodes_ok t \<Longrightarrow> i < length (t_nodes t) \<Longrightarrow> anc (parent_of t) k i = Some a \<Longrightarrow> a < length (t_nodes t)"
  using tree.anc_le [of t k i a] by simp

section \<open>The shape of a tree\<close>

text \<open>What never changes of a node once it is in the tree.\<close>

definition shape :: "BlockTreeNode \<Rightarrow> node_id option \<times> nat \<times> hash256 \<times> Header \<times> chain_work" where
  "shape node = (n_parent node, n_height node, n_hash node, n_header node, n_chainwork node)"

definition shapes :: "BlockTree \<Rightarrow> (node_id option \<times> nat \<times> hash256 \<times> Header \<times> chain_work) list" where
  "shapes t = map shape (t_nodes t)"

text \<open>A later tree has the nodes of the earlier one, in place.\<close>

definition grows :: "BlockTree \<Rightarrow> BlockTree \<Rightarrow> bool" where
  "grows t t' \<longleftrightarrow> (\<exists>ss. shapes t' = shapes t @ ss)"

lemma shape_eq:
  "shape n = shape n' \<longleftrightarrow> n_parent n = n_parent n' \<and> n_height n = n_height n' \<and> n_hash n = n_hash n'
     \<and> n_header n = n_header n' \<and> n_chainwork n = n_chainwork n'"
  by (simp add: shape_def)

lemma length_shapes [simp]: "length (shapes t) = length (t_nodes t)"
  by (simp add: shapes_def)

lemma grows_refl [simp]: "grows t t"
  by (simp add: grows_def)

lemma grows_shapes: "shapes t' = shapes t \<Longrightarrow> grows t t'"
  by (simp add: grows_def)

lemma grows_trans: "grows t t' \<Longrightarrow> grows t' t'' \<Longrightarrow> grows t t''"
  by (auto simp: grows_def)

lemma grows_length: "grows t t' \<Longrightarrow> length (t_nodes t) \<le> length (t_nodes t')"
  unfolding grows_def by (metis length_append length_shapes le_add1)

lemma grows_nth:
  assumes "grows t t'" "i < length (t_nodes t)"
  shows "shape (t_nodes t' ! i) = shape (t_nodes t ! i)" "i < length (t_nodes t')"
proof -
  obtain ss where ss: "shapes t' = shapes t @ ss" using assms(1) by (auto simp: grows_def)
  show i: "i < length (t_nodes t')" using grows_length [OF assms(1)] assms(2) by simp
  have "shapes t' ! i = shapes t ! i" using ss assms(2) by (simp add: nth_append)
  then show "shape (t_nodes t' ! i) = shape (t_nodes t ! i)" using i assms(2) by (simp add: shapes_def)
qed

lemma grows_parent_of: "grows t t' \<Longrightarrow> i < length (t_nodes t) \<Longrightarrow> parent_of t' i = parent_of t i"
  using grows_nth [of t t' i] by (simp add: parent_of_eq shape_eq)

lemma grows_height_of: "grows t t' \<Longrightarrow> i < length (t_nodes t) \<Longrightarrow> height_of t' i = height_of t i"
  using grows_nth [of t t' i] by (simp add: height_of_eq shape_eq)

lemma grows_anc:
  assumes "nodes_ok t" "grows t t'" "i < length (t_nodes t)"
  shows "anc (parent_of t') k i = anc (parent_of t) k i"
  by (rule sym, rule anc_cong) (use assms grows_parent_of tree.par_less in auto)

lemma nodes_ok_shapes:
  assumes "nodes_ok t" "shapes t' = shapes t"
  shows "nodes_ok t'"
proof -
  have l: "length (t_nodes t') = length (t_nodes t)" using assms(2) by (metis length_shapes)
  have sh: "shape (t_nodes t' ! i) = shape (t_nodes t ! i)" if "i < length (t_nodes t)" for i
    using grows_nth [OF grows_shapes [OF assms(2)] that] by simp
  have "place_ok (t_nodes t') i" if i: "i < length (t_nodes t)" for i
  proof -
    have "p < length (t_nodes t)" if "n_parent (t_nodes t ! i) = Some p" for p
      using nodes_okD(1) [OF assms(1) i that] i by simp
    then show ?thesis using assms(1) i sh [OF i] sh by (auto simp: nodes_ok_def place_ok_def shape_eq split: option.splits)
  qed
  then show ?thesis by (simp add: nodes_ok_def l)
qed

lemma distinct_shapes: "shapes t' = shapes t \<Longrightarrow> map n_hash (t_nodes t') = map n_hash (t_nodes t)"
proof -
  assume "shapes t' = shapes t"
  then have "map (\<lambda>s. fst (snd (snd s))) (shapes t') = map (\<lambda>s. fst (snd (snd s))) (shapes t)" by simp
  then show ?thesis by (simp add: shapes_def shape_def comp_def)
qed

section \<open>Small steps\<close>

text \<open>A change that keeps shapes and the set of valid nodes.\<close>

definition calm :: "BlockTree \<Rightarrow> BlockTree \<Rightarrow> bool" where
  "calm t t' \<longleftrightarrow> shapes t' = shapes t \<and> t_by_hash t' = t_by_hash t \<and> (\<forall>i. valid_node t' i = valid_node t i)"

lemma calm_base_inv:
  assumes "base_inv t" "calm t t'"
  shows "base_inv t'"
proof -
  have s: "shapes t' = shapes t" and l: "length (t_nodes t') = length (t_nodes t)"
    using assms(2) by (auto simp: calm_def) (metis length_shapes)
  have ok: "nodes_ok t" "nodes_ok t'" using assms nodes_ok_shapes [OF _ s] by (auto simp: base_inv_def)
  have v: "n_status (t_nodes t' ! i) = StInvalid \<longleftrightarrow> n_status (t_nodes t ! i) = StInvalid" if "i < length (t_nodes t)" for i
    using assms(2) that l by (auto simp: calm_def valid_node_def)
  have "status_ok t'"
    unfolding status_ok_def
  proof (intro allI impI)
    fix i p
    assume i: "i < length (t_nodes t')" "n_parent (t_nodes t' ! i) = Some p" "n_status (t_nodes t' ! p) = StInvalid"
    have "n_parent (t_nodes t ! i) = Some p"
      using i(1,2) grows_nth(1) [OF grows_shapes [OF s], of i] l by (simp add: shape_eq)
    moreover have "p < i" using nodes_okD(1) [OF ok(2) i(1,2)] .
    ultimately show "n_status (t_nodes t' ! i) = StInvalid"
      using assms(1) i v [of p] v [of i] l by (auto simp: base_inv_def status_ok_def)
  qed
  then show ?thesis using assms ok(2) distinct_shapes [OF s] l by (simp add: base_inv_def calm_def)
qed

lemma calm_is_best: "calm t t' \<Longrightarrow> is_best t' i \<longleftrightarrow> is_best t i"
proof -
  assume c: "calm t t'"
  then have "n_chainwork (t_nodes t' ! j) = n_chainwork (t_nodes t ! j)" if "valid_node t j" for j
    using grows_nth(1) [OF grows_shapes, of t' t j] that by (simp add: calm_def valid_node_def shape_eq)
  then show ?thesis using c by (auto simp: is_best_def calm_def)
qed

lemma calm_ix_ok:
  assumes "nodes_ok t" "shapes t' = shapes t" "t_active_by_height t' = t_active_by_height t" "i < length (t_nodes t)"
  shows "ix_ok t' i \<longleftrightarrow> ix_ok t i"
  using assms grows_anc [OF assms(1) grows_shapes [OF assms(2)] assms(4)] grows_height_of [OF grows_shapes [OF assms(2)] assms(4)]
  by (simp add: ix_ok_def)

lemma calm_refl [simp]: "calm t t"
  by (simp add: calm_def)

lemma calm_trans: "calm t t' \<Longrightarrow> calm t' t'' \<Longrightarrow> calm t t''"
  by (simp add: calm_def)

lemma set_node_eq:
  "set_node i f t = (if i < length (t_nodes t) then (Inr (), t\<lparr>t_nodes := (t_nodes t)[i := f (t_nodes t ! i)]\<rparr>)
     else (Inl (UnknownNode i), t))"
  by (simp add: set_node_def node_opt_eq)

lemma set_node_calm:
  assumes "i < length (t_nodes t)" "\<And>n. shape (f n) = shape n"
    "n_status (f (t_nodes t ! i)) = StInvalid \<longleftrightarrow> n_status (t_nodes t ! i) = StInvalid"
  shows "calm t (t\<lparr>t_nodes := (t_nodes t)[i := f (t_nodes t ! i)]\<rparr>)"
proof -
  have "map shape ((t_nodes t)[i := f (t_nodes t ! i)]) = map shape (t_nodes t)"
    using assms(1,2) by (simp add: map_update list_update_same_conv)
  then show ?thesis using assms(1,3) by (auto simp: calm_def shapes_def valid_node_def nth_list_update)
qed

section \<open>Publishing a tip\<close>

lemma rebuild_chain_path:
  assumes "nodes_ok t" "i < length (t_nodes t)" "\<forall>s \<in> set seen. i < s"
  shows "\<exists>q. rebuild_chain t seen i = Some (q @ seen) \<and> length q = Suc (height_of t i)
    \<and> (\<forall>h \<le> height_of t i. anc (parent_of t) (height_of t i - h) i = Some (q ! h))"
  using assms(2,3)
proof (induction i arbitrary: seen rule: less_induct)
  case (less i)
  have i: "i \<notin> set seen" "node_opt t i = Some (t_nodes t ! i)" using less.prems by (auto simp: node_opt_eq)
  show ?case
  proof (cases "n_parent (t_nodes t ! i)")
    case None
    then have "height_of t i = 0" using tree.ht_root [OF assms(1), of i] less.prems(1) by (simp add: parent_of_eq)
    then show ?thesis using i None by (subst rebuild_chain.simps) (auto intro!: exI [of _ "[i]"])
  next
    case (Some p)
    have p: "p < i" "p < length (t_nodes t)" "parent_of t i = Some p"
      using nodes_okD(1) [OF assms(1) less.prems(1) Some] less.prems(1) Some by (auto simp: parent_of_eq)
    then obtain q where q: "rebuild_chain t (i # seen) p = Some (q @ i # seen)" "length q = Suc (height_of t p)"
      "\<forall>h \<le> height_of t p. anc (parent_of t) (height_of t p - h) p = Some (q ! h)"
      using less.IH [of p "i # seen"] less.prems(2) by fastforce
    have h: "height_of t i = Suc (height_of t p)" using tree.ht_par [OF assms(1) p(3)] .
    have "anc (parent_of t) (height_of t i - h') i = Some ((q @ [i]) ! h')" if "h' \<le> height_of t i" for h'
    proof (cases "h' = height_of t i")
      case False
      then have "height_of t i - h' = Suc (height_of t p - h')" using that h by simp
      then show ?thesis using q(2,3) p(3) False that h by (simp add: nth_append)
    qed (use q(2) h in \<open>simp add: nth_append\<close>)
    moreover have "rebuild_chain t seen i = Some ((q @ [i]) @ seen)" using i Some q(1) by (subst rebuild_chain.simps) simp
    ultimately show ?thesis using q(2) h by (intro exI [of _ "q @ [i]"]) simp
  qed
qed

lemma anc_height_below:
  assumes "nodes_ok t" "i < length (t_nodes t)" "anc (parent_of t) (height_of t i - h) i = Some a" "h \<le> height_of t i"
  shows "a < length (t_nodes t)" "n_height (t_nodes t ! a) = h"
  using parent_in_tree [OF assms(1,2,3)] tree.anc_height [OF assms(1,3)] assms(4) by (auto simp: height_of_eq)

lemma refresh_index_ok:
  assumes "nodes_ok t" "i < length (t_nodes t)"
    and "ix_trusted (t_active_by_height t) \<Longrightarrow> \<exists>j < length (t_nodes t). ix_ok t j"
  shows "\<exists>ix. refresh_active_height_index i t = t\<lparr>t_active_by_height := ix\<rparr> \<and> ix_ok (t\<lparr>t_active_by_height := ix\<rparr>) i"
proof -
  have i: "node_opt t i = Some (t_nodes t ! i)" using assms(2) by (simp add: node_opt_eq)
  have ok_ix: "ix_ok (t\<lparr>t_active_by_height := ix\<rparr>) j \<longleftrightarrow> ix_trusted ix \<and> length (ix_entries ix) = Suc (height_of t j)
     \<and> (\<forall>h \<le> height_of t j. anc (parent_of t) (height_of t j - h) j = Some (ix_entries ix ! h))" for ix j
  proof -
    have "parent_of (t\<lparr>t_active_by_height := ix\<rparr>) = parent_of t" "height_of (t\<lparr>t_active_by_height := ix\<rparr>) = height_of t"
      by (auto simp: parent_of_eq height_of_eq)
    then show ?thesis by (simp add: ix_ok_def)
  qed
  obtain ext ix where e: "(case n_parent (t_nodes t ! i) of
      Some parent \<Rightarrow> extend_validated (t_active_by_height t) parent (n_height (t_nodes t ! i)) i
    | None \<Rightarrow> (False, t_active_by_height t)) = (ext, ix)" by fastforce
  show ?thesis
  proof (cases ext)
    case True
    then obtain p where p: "n_parent (t_nodes t ! i) = Some p" "extend_validated (t_active_by_height t) p (n_height (t_nodes t ! i)) i = (True, ix)"
      using e by (cases "n_parent (t_nodes t ! i)") auto
    then have x: "ix_trusted (t_active_by_height t)" "index_last (t_active_by_height t) = Some p"
        "length (ix_entries (t_active_by_height t)) = height_of t i"
        "ix = (t_active_by_height t)\<lparr>ix_entries := ix_entries (t_active_by_height t) @ [i]\<rparr>"
      using assms(2) by (auto simp: extend_validated_def height_of_eq split: if_splits)
    obtain j where j: "j < length (t_nodes t)" "ix_ok t j" using assms(3) x(1) by blast
    have "ix_entries (t_active_by_height t) ! height_of t j = j" "length (ix_entries (t_active_by_height t)) = Suc (height_of t j)"
      using j(2) by (auto simp: ix_ok_def)
    then have "p = j" using x(2) by (auto simp: index_last_def last_opt_def last_conv_nth split: if_splits)
    have h: "height_of t i = Suc (height_of t j)" using x(3) j(2) by (simp add: ix_ok_def)
    have "anc (parent_of t) (height_of t i - h') i = Some (ix_entries ix ! h')" if "h' \<le> height_of t i" for h'
    proof (cases "h' = height_of t i")
      case False
      then have "height_of t i - h' = Suc (height_of t j - h')" using that h by simp
      moreover have "parent_of t i = Some j" using p(1) \<open>p = j\<close> assms(2) by (simp add: parent_of_eq)
      ultimately show ?thesis using j(2) False that h x(4) by (simp add: ix_ok_def nth_append)
    qed (use x(3,4) in \<open>simp add: nth_append\<close>)
    then have "ix_ok (t\<lparr>t_active_by_height := ix\<rparr>) i" using x h unfolding ok_ix by simp
    then show ?thesis using e True i by (auto simp: refresh_active_height_index_def)
  next
    case False
    obtain q where q: "rebuild_chain t [] i = Some q" "length q = Suc (height_of t i)"
      "\<forall>h \<le> height_of t i. anc (parent_of t) (height_of t i - h) i = Some (q ! h)"
      using rebuild_chain_path [OF assms(1,2), of "[]"] by auto
    have "list_all (\<lambda>(offset, a). case node_opt t a of Some n \<Rightarrow> n_height n = offset | None \<Rightarrow> False) (enumerate 0 q)"
      using anc_height_below [OF assms(1,2)] q(2,3)
      by (auto simp: list_all_length nth_enumerate_eq node_opt_eq less_Suc_eq_le)
    then have "refresh_active_height_index i t = t\<lparr>t_active_by_height := commit_validated_rebuild q ix\<rparr>"
      using e False i q(1) by (simp add: refresh_active_height_index_def)
    moreover have "ix_ok (t\<lparr>t_active_by_height := commit_validated_rebuild q ix\<rparr>) i"
      using q(2,3) unfolding ok_ix by (simp add: commit_validated_rebuild_def)
    ultimately show ?thesis by blast
  qed
qed

text \<open>Publishing the best node makes the tip right; a node that is not better leaves it alone.\<close>

lemma tip_snapshot_eq:
  "i < length (t_nodes t) \<Longrightarrow> tip_snapshot t i = Inr \<lparr> tip_id = i, tip_height = n_height (t_nodes t ! i),
     tip_chainwork = n_chainwork (t_nodes t ! i), tip_hash = n_hash (t_nodes t ! i),
     tip_chain_tx_count = n_chain_tx_count (t_nodes t ! i) \<rparr>"
  by (simp add: tip_snapshot_def tree_node_eq)

lemma tip_snapshot_fields:
  "tip_snapshot t i = Inr tip \<Longrightarrow> i < length (t_nodes t) \<and> tip_id tip = i \<and> tip_height tip = n_height (t_nodes t ! i)
     \<and> tip_chainwork tip = n_chainwork (t_nodes t ! i) \<and> tip_hash tip = n_hash (t_nodes t ! i)
     \<and> tip_chain_tx_count tip = n_chain_tx_count (t_nodes t ! i)"
  by (auto simp: tip_snapshot_def tree_node_eq split: if_splits)

lemma tip_snapshot_cong:
  "t_nodes t' = t_nodes t \<Longrightarrow> tip_snapshot t' i = tip_snapshot t i"
  by (simp add: tip_snapshot_def tree_node_eq)

lemma publish_final:
  assumes "base_inv t" "is_best t i"
    and "ix_trusted (t_active_by_height t) \<Longrightarrow> \<exists>j < length (t_nodes t). ix_ok t j"
    and "t' = t\<lparr>t_nodes := (t_nodes t)[i := (t_nodes t ! i)\<lparr>n_status := StActive\<rparr>]\<rparr>"
    and "tip_snapshot t' i = Inr snapshot"
  shows "tree_inv (refresh_active_height_index i (t'\<lparr>t_tip := Some snapshot\<rparr>))"
    "calm t (refresh_active_height_index i (t'\<lparr>t_tip := Some snapshot\<rparr>))"
    "t_bip9_cache (refresh_active_height_index i (t'\<lparr>t_tip := Some snapshot\<rparr>)) = t_bip9_cache t"
proof -
  have i: "i < length (t_nodes t)" "n_status (t_nodes t ! i) \<noteq> StInvalid" using assms(2) by (auto simp: is_best_def valid_node_def)
  define u where "u = t'\<lparr>t_tip := Some snapshot\<rparr>"
  have "calm t t'" unfolding assms(4) using i by (intro set_node_calm [where f = "\<lambda>n. n\<lparr>n_status := StActive\<rparr>"]) (auto simp: shape_def)
  moreover have "calm t' u" by (simp add: u_def calm_def shapes_def valid_node_def)
  ultimately have c: "calm t u" using calm_trans by blast
  have iu: "i < length (t_nodes u)" using i(1) by (simp add: u_def assms(4))
  have ok: "nodes_ok t" "nodes_ok u" using calm_base_inv [OF assms(1) c] assms(1) by (auto simp: base_inv_def)
  have su: "shapes u = shapes t" using c by (simp add: calm_def)
  have "ix_trusted (t_active_by_height u) \<Longrightarrow> \<exists>j < length (t_nodes u). ix_ok u j"
    using assms(3) calm_ix_ok [OF ok(1) su] by (auto simp: u_def assms(4))
  from refresh_index_ok [OF ok(2) iu this] obtain ix where
    ix: "refresh_active_height_index i u = u\<lparr>t_active_by_height := ix\<rparr>" "ix_ok (u\<lparr>t_active_by_height := ix\<rparr>) i" by blast
  define v where "v = u\<lparr>t_active_by_height := ix\<rparr>"
  have cv: "calm t v" using c by (simp add: v_def calm_def shapes_def valid_node_def)
  have "tip_id snapshot = i" using assms(5) i(1) by (auto simp: tip_snapshot_def tree_node_eq split: if_splits)
  moreover have "tip_snapshot v i = Inr snapshot"
    using assms(5) tip_snapshot_cong [of v t' i] by (simp add: v_def u_def)
  moreover have "is_best v i" using calm_is_best [OF cv] assms(2) by blast
  ultimately have "tip_ok v" using ix(2) by (simp add: tip_ok_def v_def u_def)
  then have inv: "tree_inv v" using calm_base_inv [OF assms(1) cv] by (simp add: tree_inv_def)
  have r: "refresh_active_height_index i (t'\<lparr>t_tip := Some snapshot\<rparr>) = v" using ix(1) by (simp add: v_def u_def)
  show "tree_inv (refresh_active_height_index i (t'\<lparr>t_tip := Some snapshot\<rparr>))" using inv r by simp
  show "calm t (refresh_active_height_index i (t'\<lparr>t_tip := Some snapshot\<rparr>))" using cv r by simp
  show "t_bip9_cache (refresh_active_height_index i (t'\<lparr>t_tip := Some snapshot\<rparr>)) = t_bip9_cache t"
    unfolding r by (simp add: v_def u_def assms(4))
qed

lemma publish_best:
  assumes "base_inv t" "is_best t i"
    and "ix_trusted (t_active_by_height t) \<Longrightarrow> \<exists>j < length (t_nodes t). ix_ok t j"
    and "\<And>tip. t_tip t = Some tip \<Longrightarrow> valid_node t (tip_id tip) \<and> tip_id tip \<noteq> i
      \<and> tip_chainwork tip < n_chainwork (t_nodes t ! i)"
  shows "\<exists>r t'. publish_tip_if_best i t = (Inr r, t') \<and> tree_inv t' \<and> calm t t' \<and> t_bip9_cache t' = t_bip9_cache t"
proof -
  have i: "i < length (t_nodes t)" "n_status (t_nodes t ! i) \<noteq> StInvalid" using assms(2) by (auto simp: is_best_def valid_node_def)
  define first where "first = (case t_tip t of
       Some old_tip \<Rightarrow>
         if tip_id old_tip = i then liftS (Inr None)
         else let extends_old_tip = (n_parent (t_nodes t ! i) = Some (tip_id old_tip)
                    \<or> find_common_ancestor t (tip_id old_tip) i = Some (tip_id old_tip)) in
              bindS (set_node (tip_id old_tip) (\<lambda>n. n\<lparr>n_status := StStale\<rparr>)) (\<lambda>_.
              liftS (Inr (if extends_old_tip then None else Some (tip_hash old_tip))))
     | None \<Rightarrow> liftS (Inr None))"
  have "\<exists>r u. first t = (Inr r, u) \<and> calm t u \<and> t_active_by_height u = t_active_by_height t \<and> t_bip9_cache u = t_bip9_cache t"
  proof (cases "t_tip t")
    case None
    then show ?thesis by (simp add: first_def)
  next
    case (Some tip)
    have tip: "tip_id tip < length (t_nodes t)" "n_status (t_nodes t ! tip_id tip) \<noteq> StInvalid" "tip_id tip \<noteq> i"
      using assms(4) [OF Some] by (auto simp: valid_node_def)
    then have "calm t (t\<lparr>t_nodes := (t_nodes t)[tip_id tip := (t_nodes t ! tip_id tip)\<lparr>n_status := StStale\<rparr>]\<rparr>)"
      by (intro set_node_calm [where f = "\<lambda>n. n\<lparr>n_status := StStale\<rparr>"]) (auto simp: shape_def)
    then show ?thesis using Some tip by (auto simp: first_def Let_def set_node_eq bindS_def liftS_def)
  qed
  then obtain r u where u: "first t = (Inr r, u)" "calm t u" "t_active_by_height u = t_active_by_height t" "t_bip9_cache u = t_bip9_cache t"
    by blast
  have su: "shapes u = shapes t" and lu: "length (t_nodes u) = length (t_nodes t)"
    using u(2) by (auto simp: calm_def) (metis length_shapes)
  have ok: "nodes_ok t" using assms(1) by (simp add: base_inv_def)
  have ixu: "ix_trusted (t_active_by_height u) \<Longrightarrow> \<exists>j < length (t_nodes u). ix_ok u j"
    using assms(3) u(3) calm_ix_ok [OF ok su u(3)] lu by auto
  define t' where "t' = u\<lparr>t_nodes := (t_nodes u)[i := (t_nodes u ! i)\<lparr>n_status := StActive\<rparr>]\<rparr>"
  obtain snapshot where sn: "tip_snapshot t' i = Inr snapshot" using tip_snapshot_eq [of i t'] i(1) lu by (simp add: t'_def)
  note fin = publish_final [OF calm_base_inv [OF assms(1) u(2)] calm_is_best [OF u(2), THEN iffD2, OF assms(2)] ixu t'_def sn]
  have "\<not> (case t_tip t of Some tip \<Rightarrow> n_chainwork (t_nodes t ! i) \<le> tip_chainwork tip | None \<Rightarrow> False)"
    using assms(4) by (auto split: option.splits)
  then have "publish_tip_if_best i t = (Inr r, refresh_active_height_index i (t'\<lparr>t_tip := Some snapshot\<rparr>))"
    using i u(1) sn lu
    by (simp add: publish_tip_if_best_def tree_node_eq first_def [symmetric] bindS_def set_node_eq t'_def liftS_def)
  then show ?thesis using fin calm_trans [OF u(2)] u(4) by auto
qed

lemma publish_other:
  assumes "i < length (t_nodes t)"
    and "n_status (t_nodes t ! i) = StInvalid \<or> (\<exists>tip. t_tip t = Some tip \<and> n_chainwork (t_nodes t ! i) \<le> tip_chainwork tip)"
  shows "publish_tip_if_best i t = (Inr None, t)"
  using assms by (auto simp: publish_tip_if_best_def tree_node_eq)

section \<open>Inserting\<close>

lemma lookup_Some_iff:
  assumes "base_inv t"
  shows "lookup t hash = Some i \<longleftrightarrow> i < length (t_nodes t) \<and> n_hash (t_nodes t ! i) = hash"
proof -
  have d: "distinct (map n_hash (t_nodes t))" and b: "t_by_hash t = [0..<length (t_nodes t)]"
    using assms by (auto simp: base_inv_def)
  have f: "List.find P [0..<n] = Some i \<longleftrightarrow> i < n \<and> P i \<and> (\<forall>j < i. \<not> P j)" for P n
    by (auto simp: find_Some_iff)
  show ?thesis
  proof
    assume "lookup t hash = Some i"
    then show "i < length (t_nodes t) \<and> n_hash (t_nodes t ! i) = hash"
      by (auto simp: lookup_def b f node_opt_eq split: if_splits)
  next
    assume i: "i < length (t_nodes t) \<and> n_hash (t_nodes t ! i) = hash"
    then have "n_hash (t_nodes t ! j) \<noteq> hash" if "j < i" for j
      using d that by (metis (no_types, lifting) dual_order.strict_trans length_map nat_neq_iff nth_eq_iff_index_eq nth_map)
    then show "lookup t hash = Some i" using i by (auto simp: lookup_def b f node_opt_eq)
  qed
qed

lemma in_set_conv_nth_ex: "(\<exists>x \<in> set xs. P x) \<longleftrightarrow> (\<exists>i < length xs. P (xs ! i))"
  by (metis in_set_conv_nth)

lemma lookup_None_iff:
  assumes "base_inv t"
  shows "lookup t hash = None \<longleftrightarrow> hash \<notin> n_hash ` set (t_nodes t)"
proof -
  have "lookup t hash \<noteq> None \<longleftrightarrow> (\<exists>i. i < length (t_nodes t) \<and> n_hash (t_nodes t ! i) = hash)"
    using lookup_Some_iff [OF assms, of hash] by auto
  also have "\<dots> \<longleftrightarrow> hash \<in> n_hash ` set (t_nodes t)" by (subst image_iff, subst in_set_conv_nth_ex) blast
  finally show ?thesis by auto
qed

lemma node_place_Inr:
  assumes "nodes_ok t" "node_place t parent header hash status = Inr (height, chainwork, status')"
  shows "place_ok (t_nodes t @ [\<lparr> n_parent = parent, n_height = height, n_hash = hash, n_header = header,
      n_chainwork = chainwork, n_chain_tx_count = c, n_status = status' \<rparr>]) (length (t_nodes t))"
    "\<And>p. parent = Some p \<Longrightarrow> p < length (t_nodes t) \<and> (n_status (t_nodes t ! p) = StInvalid \<longrightarrow> status' = StInvalid)"
  using assms by (auto simp: node_place_def place_ok_def tree_node_eq nth_append Let_def split: option.splits if_splits)

lemma insert_base_inv:
  assumes "base_inv t" "node_place t parent header hash status = Inr (height, chainwork, status')" "lookup t hash = None"
    and "t' = t\<lparr>t_nodes := t_nodes t @ [\<lparr> n_parent = parent, n_height = height, n_hash = hash, n_header = header,
      n_chainwork = chainwork, n_chain_tx_count = UNKNOWN, n_status = status' \<rparr>],
      t_by_hash := t_by_hash t @ [length (t_nodes t)]\<rparr>"
  shows "base_inv t'" "grows t t'"
proof -
  have ok: "nodes_ok t" using assms(1) by (simp add: base_inv_def)
  note np = node_place_Inr [OF ok assms(2)]
  show "grows t t'" by (simp add: grows_def shapes_def assms(4))
  have old: "place_ok (t_nodes t @ [n]) i \<longleftrightarrow> place_ok (t_nodes t) i" if "i < length (t_nodes t)" for n i
    using that nodes_okD(1) [OF ok that] by (auto simp: place_ok_def nth_append split: option.splits)
  have "nodes_ok t'" using np(1) ok old by (auto simp: nodes_ok_def assms(4) less_Suc_eq)
  moreover have "status_ok t'"
    unfolding status_ok_def
  proof (intro allI impI)
    fix i p
    assume i: "i < length (t_nodes t')" "n_parent (t_nodes t' ! i) = Some p" "n_status (t_nodes t' ! p) = StInvalid"
    show "n_status (t_nodes t' ! i) = StInvalid"
    proof (cases "i = length (t_nodes t)")
      case True
      then show ?thesis using i np(2) by (auto simp: assms(4) nth_append)
    next
      case False
      then have "i < length (t_nodes t)" "n_parent (t_nodes t ! i) = Some p" using i by (auto simp: assms(4) nth_append)
      then show ?thesis using i(3) assms(1) nodes_okD(1) [OF ok]
        by (fastforce simp: assms(4) nth_append base_inv_def status_ok_def)
    qed
  qed
  moreover have "hash \<notin> n_hash ` set (t_nodes t)" using lookup_None_iff [OF assms(1)] assms(3) by blast
  ultimately show "base_inv t'" using assms(1) by (simp add: base_inv_def assms(4))
qed

lemma insert_node_inv:
  assumes "tree_inv t" "insert_node_with_hash parent header hash status t = (r, t')" "length (t_nodes t') \<le> 2 ^ 32"
  shows "tree_inv t' \<and> grows t t' \<and> t_bip9_cache t' = t_bip9_cache t"
proof (cases "lookup t hash = None \<and> (\<exists>place. node_place t parent header hash status = Inr place)")
  case False
  then show ?thesis using assms(1,2) by (auto simp: insert_node_with_hash_def split: if_splits sum.splits)
next
  case True
  then obtain height chainwork status' where place: "lookup t hash = None"
    "node_place t parent header hash status = Inr (height, chainwork, status')" by auto
  define i where "i = length (t_nodes t)"
  define u where "u = t\<lparr>t_nodes := t_nodes t @ [\<lparr> n_parent = parent, n_height = height, n_hash = hash, n_header = header,
      n_chainwork = chainwork, n_chain_tx_count = UNKNOWN, n_status = status' \<rparr>], t_by_hash := t_by_hash t @ [i]\<rparr>"
  have base: "base_inv t" "nodes_ok t" using assms(1) by (auto simp: tree_inv_def base_inv_def)
  have bu: "base_inv u" and g: "grows t u" using insert_base_inv [OF base(1) place(2,1)] by (simp_all add: u_def i_def)
  have iu: "i < length (t_nodes u)" "length (t_nodes u) = Suc i" by (simp_all add: u_def i_def)
  have old: "t_nodes u ! j = t_nodes t ! j" if "j < i" for j using that by (simp add: u_def i_def nth_append)
  have vu: "valid_node u j \<longleftrightarrow> (if j = i then status' \<noteq> StInvalid else valid_node t j)" for j
    using old by (auto simp: valid_node_def iu i_def u_def nth_append)
  have tipu: "t_tip u = t_tip t" "t_active_by_height u = t_active_by_height t" "t_bip9_cache u = t_bip9_cache t" by (simp_all add: u_def)
  have ixu: "ix_ok u j \<longleftrightarrow> ix_ok t j" if "j < i" for j
    using grows_anc [OF base(2) g] grows_height_of [OF g] that tipu(2) by (simp add: ix_ok_def i_def)
  have tip: "is_best t (tip_id tip)" "tip_snapshot t (tip_id tip) = Inr tip" "ix_ok t (tip_id tip)" "tip_id tip < i"
    if "t_tip t = Some tip" for tip
    using assms(1) that by (auto simp: tree_inv_def tip_ok_def is_best_def valid_node_def i_def)
  have tipw: "tip_chainwork tip = n_chainwork (t_nodes t ! tip_id tip)" if "t_tip t = Some tip" for tip
    using tip_snapshot_fields [OF tip(2) [OF that]] by simp
  have no_tip: "\<not> valid_node t j" if "t_tip t = None" for j
    using assms(1) that by (simp add: tree_inv_def tip_ok_def)
  have untrusted: "\<not> ix_trusted (t_active_by_height t)" if "t_tip t = None"
    using assms(1) that by (simp add: tree_inv_def tip_ok_def)
  have trusted: "\<exists>j < length (t_nodes u). ix_ok u j" if "ix_trusted (t_active_by_height u)"
    using that tipu(2) untrusted tip(3,4) ixu iu(2) by (metis less_Suc_eq option.exhaust)
  have "\<exists>r' v. publish_tip_if_best i u = (Inr r', v) \<and> tree_inv v \<and> calm u v \<and> t_bip9_cache v = t_bip9_cache u"
  proof (cases "status' \<noteq> StInvalid \<and> (\<forall>tip. t_tip t = Some tip \<longrightarrow> tip_chainwork tip < n_chainwork (t_nodes u ! i))")
    case best: True
    have "is_best u i"
      unfolding is_best_def
    proof (intro conjI allI impI)
      show "valid_node u i" using vu best by simp
      fix j assume j: "valid_node u j"
      show "n_chainwork (t_nodes u ! j) < n_chainwork (t_nodes u ! i)
          \<or> n_chainwork (t_nodes u ! j) = n_chainwork (t_nodes u ! i) \<and> i \<le> j"
      proof (cases "j = i")
        case False
        then have vj: "valid_node t j" using vu j by simp
        then obtain tip' where t: "t_tip t = Some tip'" using no_tip by (cases "t_tip t") auto
        have "n_chainwork (t_nodes t ! j) \<le> tip_chainwork tip'"
          using tip(1) [OF t] vj tipw [OF t] by (auto simp: is_best_def)
        then show ?thesis using best t old [of j] vj by (auto simp: valid_node_def i_def)
      qed simp
    qed
    moreover have "valid_node u (tip_id tip) \<and> tip_id tip \<noteq> i \<and> tip_chainwork tip < n_chainwork (t_nodes u ! i)"
      if "t_tip u = Some tip" for tip
      using that tip(1,4) [of tip] best vu by (auto simp: is_best_def u_def)
    ultimately show ?thesis using publish_best [OF bu _ trusted] by blast
  next
    case notbest: False
    then have st: "n_status (t_nodes u ! i) = StInvalid \<or> (\<exists>tip. t_tip u = Some tip \<and> n_chainwork (t_nodes u ! i) \<le> tip_chainwork tip)"
      by (auto simp: u_def i_def not_less)
    have "publish_tip_if_best i u = (Inr None, u)" using publish_other [OF iu(1) st] .
    moreover have "tip_ok u"
    proof (cases "t_tip t")
      case None
      then have "status' = StInvalid" using notbest by auto
      then show ?thesis using None no_tip untrusted vu tipu by (auto simp: tip_ok_def)
    next
      case (Some tp)
      have "tip_snapshot u (tip_id tp) = Inr tp"
        using tip(2,4) [OF Some] old [of "tip_id tp"] iu(2) by (simp add: tip_snapshot_eq i_def)
      moreover have "is_best u (tip_id tp)"
      proof -
        have "n_chainwork (t_nodes u ! i) \<le> n_chainwork (t_nodes t ! tip_id tp) \<or> status' = StInvalid"
          using notbest Some tipw [OF Some] by (auto simp: not_less)
        moreover have "valid_node u (tip_id tp)" "t_nodes u ! tip_id tp = t_nodes t ! tip_id tp"
          using tip(1,4) [OF Some] vu [of "tip_id tp"] old by (auto simp: is_best_def)
        moreover have "n_chainwork (t_nodes t ! j) < n_chainwork (t_nodes t ! tip_id tp)
            \<or> n_chainwork (t_nodes t ! j) = n_chainwork (t_nodes t ! tip_id tp) \<and> tip_id tp \<le> j" if "valid_node t j" for j
          using tip(1) [OF Some] that by (simp add: is_best_def)
        moreover have "j < i \<and> t_nodes u ! j = t_nodes t ! j" if "valid_node t j" for j
          using that old by (simp add: valid_node_def i_def)
        moreover note vu less_imp_le [OF tip(4) [OF Some]]
        ultimately show ?thesis unfolding is_best_def
        proof (intro conjI allI impI, goal_cases)
          case (2 j)
          then show ?case by (cases "j = i") auto
        qed simp
      qed
      ultimately show ?thesis using Some tipu(1) ixu tip(3,4) [OF Some] by (simp add: tip_ok_def)
    qed
    ultimately show ?thesis using bu by (auto simp: tree_inv_def)
  qed
  then obtain r' v where v: "publish_tip_if_best i u = (Inr r', v)" "tree_inv v" "calm u v" "t_bip9_cache v = t_bip9_cache u" by blast
  have "i \<le> u32_max"
  proof (rule ccontr)
    assume "\<not> i \<le> u32_max"
    then have "t_nodes t' = t_nodes u" using assms(2) place by (auto simp: insert_node_with_hash_def Let_def i_def u_def)
    then show False using assms(3) iu(2) \<open>\<not> i \<le> u32_max\<close> by (simp add: u32_max_def)
  qed
  then have "insert_node_with_hash parent header hash status t =
      bindS (publish_tip_if_best i) (\<lambda>d. liftS (Inr \<lparr> ins_id = i, ins_demoted_tip = d \<rparr>)) u"
    using place by (simp add: insert_node_with_hash_def Let_def i_def u_def)
  then have "t' = v" using assms(2) v(1) by (simp add: bindS_def liftS_def)
  then show ?thesis using v g grows_trans [OF g grows_shapes, of v] tipu(3) by (auto simp: calm_def)
qed

section \<open>Invalidating\<close>

lemma mark_child_props:
  assumes "length (fst s) = n" "c < n"
  shows "length (fst (mark_child s c)) = n" "fst (mark_child s c) ! c"
    "\<And>j. fst s ! j \<Longrightarrow> j < n \<Longrightarrow> fst (mark_child s c) ! j"
    "\<And>j. j < n \<Longrightarrow> fst (mark_child s c) ! j \<Longrightarrow> fst s ! j \<or> j = c"
    "\<And>j. j < n \<Longrightarrow> fst (mark_child s c) ! j \<Longrightarrow> \<not> fst s ! j \<Longrightarrow> j \<in> set (snd (mark_child s c))"
    "set (snd s) \<subseteq> set (snd (mark_child s c))"
    "set (snd (mark_child s c)) \<subseteq> insert c (set (snd s))"
  using assms by (auto simp: mark_child_def get_at_def nth_list_update split: if_splits prod.splits)

lemma mark_children_props:
  assumes "length (fst s) = n" "\<forall>c \<in> set cs. c < n"
  shows "length (fst (foldl mark_child s cs)) = n \<and> (\<forall>c \<in> set cs. fst (foldl mark_child s cs) ! c)
    \<and> (\<forall>j < n. fst s ! j \<longrightarrow> fst (foldl mark_child s cs) ! j)
    \<and> (\<forall>j < n. fst (foldl mark_child s cs) ! j \<longrightarrow> fst s ! j \<or> j \<in> set cs)
    \<and> (\<forall>j < n. fst (foldl mark_child s cs) ! j \<longrightarrow> \<not> fst s ! j \<longrightarrow> j \<in> set (snd (foldl mark_child s cs)))
    \<and> set (snd s) \<subseteq> set (snd (foldl mark_child s cs)) \<and> set (snd (foldl mark_child s cs)) \<subseteq> set cs \<union> set (snd s)"
  using assms
proof (induction cs arbitrary: s)
  case (Cons c cs)
  note m = mark_child_props [OF Cons.prems(1), of c]
  have cn: "c < n" "\<forall>c \<in> set cs. c < n" using Cons.prems(2) by simp_all
  define s' where "s' = mark_child s c"
  have "length (fst s') = n" using m(1) [OF cn(1)] by (simp add: s'_def)
  note IH = Cons.IH [OF this cn(2)]
  define f where "f = foldl mark_child s' cs"
  have f: "foldl mark_child s (c # cs) = f" by (simp add: f_def s'_def)
  have IH': "length (fst f) = n" "\<And>c. c \<in> set cs \<Longrightarrow> fst f ! c" "\<And>j. j < n \<Longrightarrow> fst s' ! j \<Longrightarrow> fst f ! j"
    "\<And>j. j < n \<Longrightarrow> fst f ! j \<Longrightarrow> fst s' ! j \<or> j \<in> set cs"
    "\<And>j. j < n \<Longrightarrow> fst f ! j \<Longrightarrow> \<not> fst s' ! j \<Longrightarrow> j \<in> set (snd f)"
    "set (snd s') \<subseteq> set (snd f)" "set (snd f) \<subseteq> set cs \<union> set (snd s')"
    using IH by (simp_all add: f_def)
  have m': "fst s' ! c" "\<And>j. fst s ! j \<Longrightarrow> j < n \<Longrightarrow> fst s' ! j" "\<And>j. j < n \<Longrightarrow> fst s' ! j \<Longrightarrow> fst s ! j \<or> j = c"
    "\<And>j. j < n \<Longrightarrow> fst s' ! j \<Longrightarrow> \<not> fst s ! j \<Longrightarrow> j \<in> set (snd s')" "set (snd s) \<subseteq> set (snd s')"
    "set (snd s') \<subseteq> insert c (set (snd s))"
    using m(2-7) [OF cn(1)] by (simp_all add: s'_def)
  show ?case unfolding f
  proof (intro conjI ballI allI impI)
    show "fst f ! d" if "d \<in> set (c # cs)" for d using that IH'(2) IH'(3) [OF cn(1) m'(1)] by auto
    show "fst s ! j \<or> j \<in> set (c # cs)" if "j < n" "fst f ! j" for j using IH'(4) [OF that] m'(3) [OF that(1)] by auto
    show "j \<in> set (snd f)" if "j < n" "fst f ! j" "\<not> fst s ! j" for j
      using IH'(5) [OF that(1,2)] m'(4) [OF that(1) _ that(3)] IH'(6) by blast
    show "set (snd f) \<subseteq> set (c # cs) \<union> set (snd s)" using IH'(7) m'(6) by auto
  qed (use IH' m' in auto)
qed simp

lemma children_of_iff: "c \<in> set (children_of t i) \<longleftrightarrow> parent_of t c = Some i"
  by (auto simp: children_of_def parent_of_eq)

text \<open>The closure marks exactly the nodes whose chain to the root of the tree passes through the start.\<close>

lemma invalid_closure_correct:
  assumes "length invalid = length (t_nodes t)" "\<forall>i \<in> set worklist. i < length (t_nodes t) \<and> invalid ! i"
    and "root < length (t_nodes t)" "invalid ! root"
    and "\<forall>i < length (t_nodes t). invalid ! i \<longrightarrow> is_anc (parent_of t) root i"
    and "\<forall>i < length (t_nodes t). invalid ! i \<longrightarrow> i \<notin> set worklist \<longrightarrow> (\<forall>c. parent_of t c = Some i \<longrightarrow> invalid ! c)"
  shows "length (invalid_closure t invalid worklist) = length (t_nodes t)
    \<and> (\<forall>i < length (t_nodes t). invalid_closure t invalid worklist ! i \<longleftrightarrow> is_anc (parent_of t) root i)"
  using assms
proof (induction t invalid worklist rule: invalid_closure.induct)
  case (1 t invalid)
  have "invalid ! i" if "anc (parent_of t) k i = Some root" "i < length (t_nodes t)" for k i
    using that
  proof (induction k arbitrary: i)
    case (Suc k)
    then obtain p where p: "parent_of t i = Some p" "anc (parent_of t) k p = Some root" by (auto simp: bind_eq_Some_conv)
    show ?case
    proof (cases "p < length (t_nodes t)")
      case True
      then show ?thesis using Suc.IH [OF p(2)] p(1) 1(6) by auto
    next
      case False
      then have "parent_of t p = None" by (simp add: parent_of_eq)
      then have "p = root" using p(2) by (cases k) auto
      then show ?thesis using False 1(3) by simp
    qed
  qed (use 1 in simp)
  then show ?case using 1 by (auto simp: is_anc_def)
next
  case (2 t invalid i worklist)
  let ?f = "foldl mark_child (invalid, worklist) (children_of t i)"
  let ?n = "length (t_nodes t)"
  have ch0: "\<forall>c \<in> set (children_of t i). c < ?n" by (simp add: children_of_def)
  have m: "length (fst ?f) = ?n" "\<forall>c \<in> set (children_of t i). fst ?f ! c" "\<forall>j < ?n. invalid ! j \<longrightarrow> fst ?f ! j"
     "\<forall>j < ?n. fst ?f ! j \<longrightarrow> invalid ! j \<or> j \<in> set (children_of t i)"
     "\<forall>j < ?n. fst ?f ! j \<longrightarrow> \<not> invalid ! j \<longrightarrow> j \<in> set (snd ?f)"
     "set worklist \<subseteq> set (snd ?f)" "set (snd ?f) \<subseteq> set (children_of t i) \<union> set worklist"
    using mark_children_props [of "(invalid, worklist)" ?n "children_of t i", unfolded fst_conv snd_conv, OF 2(2)]
      ch0 by blast+
  have ch: "c < ?n" if "parent_of t c = Some j" for c j using that by (auto simp: parent_of_eq split: if_splits)
  have i: "i < ?n" "invalid ! i" using 2(3) by auto
  have "is_anc (parent_of t) root j" if "j < ?n" "fst ?f ! j" for j
  proof (cases "invalid ! j")
    case False
    then have "parent_of t j = Some i" using m(4) [rule_format, OF that] by (simp add: children_of_iff)
    then show ?thesis using 2(6) i by (subst is_anc_step) simp
  qed (use 2(6) that in simp)
  then have a: "\<forall>j < ?n. fst ?f ! j \<longrightarrow> is_anc (parent_of t) root j" by blast
  have "fst ?f ! c" if "j < ?n" "fst ?f ! j" "j \<notin> set (snd ?f)" "parent_of t c = Some j" for j c
  proof -
    have "invalid ! j" using m(5) that by blast
    show ?thesis
    proof (cases "j = i")
      case True
      then show ?thesis using m(2) that(4) children_of_iff by blast
    next
      case False
      then have "j \<notin> set (i # worklist)" using m(6) that(3) by auto
      then have "invalid ! c" using 2(7) \<open>invalid ! j\<close> that(1,4) by blast
      then show ?thesis using m(3) ch [OF that(4)] by blast
    qed
  qed
  then have c: "\<forall>j < ?n. fst ?f ! j \<longrightarrow> j \<notin> set (snd ?f) \<longrightarrow> (\<forall>c. parent_of t c = Some j \<longrightarrow> fst ?f ! c)" by blast
  have w: "\<forall>j \<in> set (snd ?f). j < ?n \<and> fst ?f ! j"
  proof
    fix j assume "j \<in> set (snd ?f)"
    then consider "j \<in> set (children_of t i)" | "j \<in> set worklist" using m(7) by blast
    then show "j < ?n \<and> fst ?f ! j" using ch0 m(2,3) 2(3) by cases auto
  qed
  have r: "fst ?f ! root" using m(3) 2(4,5) by blast
  show ?case unfolding invalid_closure.simps by (rule 2(1) [OF m(1) w 2(4) r a c])
qed

text \<open>The fold over the candidates finds the oldest of most work.\<close>

definition outworks :: "BlockTree \<Rightarrow> node_id \<Rightarrow> node_id \<Rightarrow> bool" where
  "outworks t i j \<longleftrightarrow> n_chainwork (t_nodes t ! j) < n_chainwork (t_nodes t ! i)
     \<or> n_chainwork (t_nodes t ! j) = n_chainwork (t_nodes t ! i) \<and> i \<le> j"

lemma outworks_trans: "outworks t i j \<Longrightarrow> outworks t j k \<Longrightarrow> outworks t i k"
  by (auto simp: outworks_def)

lemma better_tip_fold:
  assumes "sorted_wrt (<) (i # is)"
  shows "foldl (better_tip t) i is \<in> set (i # is) \<and> (\<forall>j \<in> set (i # is). outworks t (foldl (better_tip t) i is) j)"
  using assms
proof (induction "is" arbitrary: i)
  case (Cons k ks)
  let ?b = "better_tip t i k" and ?r = "foldl (better_tip t) (better_tip t i k) ks"
  have "i < k" using Cons.prems by simp
  have "sorted_wrt (<) (?b # ks)" using Cons.prems by (auto simp: better_tip_def)
  note IH = Cons.IH [OF this]
  have b: "?b = i \<or> ?b = k" "outworks t ?b i" "outworks t ?b k" using \<open>i < k\<close> by (auto simp: better_tip_def outworks_def)
  have "outworks t ?r ?b" using IH by simp
  then have "outworks t ?r i" "outworks t ?r k" using b(2,3) outworks_trans by blast+
  then show ?case using IH b(1) by auto
qed (simp add: outworks_def)

lemma is_best_outworks: "is_best t i \<longleftrightarrow> valid_node t i \<and> (\<forall>j. valid_node t j \<longrightarrow> outworks t i j)"
  by (simp add: is_best_def outworks_def)

lemma best_tip_correct:
  "case best_tip t invalid of
     None \<Rightarrow> \<forall>i. \<not> (valid_node t i \<and> \<not> invalid ! i)
   | Some b \<Rightarrow> valid_node t b \<and> \<not> invalid ! b \<and> (\<forall>j. valid_node t j \<and> \<not> invalid ! j \<longrightarrow> outworks t b j)"
proof -
  let ?c = "filter (\<lambda>i. \<not> invalid ! i \<and> n_status (t_nodes t ! i) \<noteq> StInvalid) [0..<length (t_nodes t)]"
  have mem: "i \<in> set ?c \<longleftrightarrow> valid_node t i \<and> \<not> invalid ! i" for i by (auto simp: valid_node_def)
  have "sorted_wrt (<) ?c" by (rule sorted_wrt_filter) simp
  then show ?thesis
  proof (cases ?c)
    case Nil
    then have "\<not> (valid_node t i \<and> \<not> invalid ! i)" for i using mem [of i] by simp
    then show ?thesis using Nil by (simp add: best_tip_def)
  next
    case (Cons i "is")
    have "best_tip t invalid = Some (foldl (better_tip t) i is)" unfolding best_tip_def Cons by simp
    moreover have "foldl (better_tip t) i is \<in> set ?c" "\<forall>j \<in> set ?c. outworks t (foldl (better_tip t) i is) j"
      using better_tip_fold [of i "is" t] \<open>sorted_wrt (<) ?c\<close> unfolding Cons by blast+
    ultimately show ?thesis using mem by auto
  qed
qed

lemma invalidation_plan_Inr:
  assumes "nodes_ok t" "invalidation_plan t root = Inr (invalid, best)"
  shows "root < length (t_nodes t)" "length invalid = length (t_nodes t)" "best = best_tip t invalid"
    "\<And>i. i < length (t_nodes t) \<Longrightarrow> invalid ! i \<longleftrightarrow> is_anc (parent_of t) root i"
proof -
  let ?start = "(replicate (length (t_nodes t)) False)[root := True]"
  show r: "root < length (t_nodes t)" using assms(2) by (auto simp: invalidation_plan_def tree_node_eq split: if_splits)
  then have i: "invalid = invalid_closure t ?start [root]" and "best = best_tip t invalid"
    using assms(2) by (auto simp: invalidation_plan_def tree_node_eq Let_def split: option.splits if_splits)
  then show "best = best_tip t invalid" by simp
  have "length invalid = length (t_nodes t) \<and> (\<forall>i < length (t_nodes t). invalid ! i \<longleftrightarrow> is_anc (parent_of t) root i)"
    unfolding i by (rule invalid_closure_correct) (use r in \<open>auto simp: nth_list_update split: if_splits\<close>)
  then show "length invalid = length (t_nodes t)" "\<And>i. i < length (t_nodes t) \<Longrightarrow> invalid ! i \<longleftrightarrow> is_anc (parent_of t) root i"
    by auto
qed

text \<open>The tree between clearing the old tip and publishing the new one.\<close>

lemma mark_invalid_cache [simp]: "t_bip9_cache (mark_invalid invalid t) = t_bip9_cache t"
  by (simp add: mark_invalid_def)

lemma mark_invalid_props:
  assumes "base_inv t" "length invalid = length (t_nodes t)" "root < length (t_nodes t)"
    and "\<And>i. i < length (t_nodes t) \<Longrightarrow> invalid ! i \<longleftrightarrow> is_anc (parent_of t) root i"
    and "v = (mark_invalid invalid (t\<lparr>t_tip := None, t_active_by_height := ix\<rparr>))\<lparr>t_bip9_cache := c\<rparr>"
  shows "base_inv v" "shapes v = shapes t" "\<And>i. valid_node v i \<longleftrightarrow> valid_node t i \<and> \<not> invalid ! i"
    "t_tip v = None" "t_active_by_height v = ix"
proof -
  have l: "length (t_nodes v) = length (t_nodes t)" using assms(2) by (simp add: assms(5) mark_invalid_def)
  have n: "t_nodes v ! i = (if invalid ! i then (t_nodes t ! i)\<lparr>n_status := StInvalid\<rparr> else t_nodes t ! i)"
    if "i < length (t_nodes t)" for i using that assms(2) by (simp add: assms(5) mark_invalid_def)
  show "t_tip v = None" "t_active_by_height v = ix" by (simp_all add: assms(5) mark_invalid_def)
  show sh: "shapes v = shapes t"
    by (rule nth_equalityI) (use l n in \<open>auto simp: shapes_def shape_def\<close>)
  show vv: "valid_node v i \<longleftrightarrow> valid_node t i \<and> \<not> invalid ! i" for i
    using l n [of i] by (auto simp: valid_node_def split: if_splits)
  have ok: "nodes_ok t" "nodes_ok v" using assms(1) nodes_ok_shapes [OF _ sh] by (auto simp: base_inv_def)
  have "status_ok v"
    unfolding status_ok_def
  proof (intro allI impI)
    fix i p
    assume i: "i < length (t_nodes v)" "n_parent (t_nodes v ! i) = Some p" "n_status (t_nodes v ! p) = StInvalid"
    have par: "n_parent (t_nodes t ! i) = Some p" using n [of i] i(1,2) l by (auto split: if_splits)
    have p: "p < i" using nodes_okD(1) [OF ok(2) i(1,2)] .
    show "n_status (t_nodes v ! i) = StInvalid"
    proof (cases "invalid ! p")
      case True
      then have "is_anc (parent_of t) root i"
        using assms(4) [of p] par p i(1) l by (subst is_anc_step) (auto simp: parent_of_eq)
      then show ?thesis using assms(4) [of i] n [of i] i(1) l by simp
    next
      case False
      then have "n_status (t_nodes t ! p) = StInvalid" using n [of p] i(1,3) p l by simp
      then show ?thesis using assms(1) n [of i] i(1) l par by (auto simp: base_inv_def status_ok_def)
    qed
  qed
  then show "base_inv v" using assms(1) ok distinct_shapes [OF sh] l by (simp add: base_inv_def assms(5) mark_invalid_def)
qed

lemma invalidate_inv:
  assumes "tree_inv t" "invalidate_subtree root t = (r, t')"
  shows "tree_inv t' \<and> shapes t' = shapes t \<and> t_bip9_cache t' \<subseteq>\<^sub>m t_bip9_cache t
    \<and> (\<forall>outcome. r = Inr outcome \<longrightarrow> (\<forall>i. valid_node t' i \<longleftrightarrow> valid_node t i \<and> \<not> is_anc (parent_of t) root i)
        \<and> root < length (t_nodes t))
    \<and> (\<forall>plan. invalidation_plan t root = Inr plan \<longrightarrow> (\<exists>outcome. r = Inr outcome))"
proof (cases "invalidation_plan t root")
  case (Inl e)
  then show ?thesis using assms by (auto simp: invalidate_subtree_def)
next
  case (Inr plan)
  obtain invalid best where ib: "plan = (invalid, best)" by (cases plan)
  have base: "base_inv t" "nodes_ok t" using assms(1) by (auto simp: tree_inv_def base_inv_def)
  note plan = invalidation_plan_Inr [OF base(2) Inr [unfolded ib]]
  define first where "first = (case (t_tip t, best) of
       (Some old_tip, Some best') \<Rightarrow>
         if best' \<noteq> tip_id old_tip \<and> \<not> invalid ! tip_id old_tip then
           let demoted_tip = (if find_common_ancestor t (tip_id old_tip) best' \<noteq> Some (tip_id old_tip)
                 then Some (tip_hash old_tip) else None) in
           bindS (set_node (tip_id old_tip) (\<lambda>n. n\<lparr>n_status := StStale\<rparr>)) (\<lambda>_. liftS (Inr demoted_tip))
         else liftS (Inr None)
     | _ \<Rightarrow> liftS (Inr None))"
  have "\<exists>d u. first t = (Inr d, u) \<and> calm t u \<and> t_bip9_cache u = t_bip9_cache t"
  proof (cases "t_tip t")
    case None
    then show ?thesis by (simp add: first_def)
  next
    case (Some tip)
    then have "tip_id tip < length (t_nodes t)" "n_status (t_nodes t ! tip_id tip) \<noteq> StInvalid"
      using assms(1) by (auto simp: tree_inv_def tip_ok_def is_best_def valid_node_def)
    moreover from this have "calm t (t\<lparr>t_nodes := (t_nodes t)[tip_id tip := (t_nodes t ! tip_id tip)\<lparr>n_status := StStale\<rparr>]\<rparr>)"
      by (intro set_node_calm [where f = "\<lambda>n. n\<lparr>n_status := StStale\<rparr>"]) (auto simp: shape_def)
    ultimately show ?thesis using Some
      by (auto simp: first_def Let_def set_node_eq bindS_def liftS_def split: option.splits)
  qed
  then obtain d u where u: "first t = (Inr d, u)" "calm t u" "t_bip9_cache u = t_bip9_cache t" by blast
  have su: "shapes u = shapes t" and lu: "length (t_nodes u) = length (t_nodes t)"
    using u(2) by (auto simp: calm_def) (metis length_shapes)
  have bu: "base_inv u" using calm_base_inv [OF base(1) u(2)] .
  define v where "v = (mark_invalid invalid (u\<lparr>t_tip := None, t_active_by_height := clear_tainted (t_active_by_height u)\<rparr>))
      \<lparr>t_bip9_cache := invalidate_nodes invalid (t_bip9_cache u)\<rparr>"
  have "invalid ! i \<longleftrightarrow> is_anc (parent_of u) root i" if "i < length (t_nodes u)" for i
    using plan(4) [of i] that lu grows_anc [OF base(2) grows_shapes [OF su]] by (simp add: is_anc_def)
  note v = mark_invalid_props [OF bu plan(2) [folded lu] plan(1) [folded lu] this v_def]
  have vv: "valid_node v i \<longleftrightarrow> valid_node t i \<and> \<not> invalid ! i" for i using v(3) u(2) by (simp add: calm_def)
  have "\<exists>x w. (case best of None \<Rightarrow> liftS (Inr None) | Some best' \<Rightarrow> publish_tip_if_best best') v = (Inr x, w)
      \<and> tree_inv w \<and> calm v w \<and> t_bip9_cache w = t_bip9_cache v"
  proof (cases best)
    case None
    then have "\<not> valid_node v i" for i using best_tip_correct [of t invalid] plan(3) vv by auto
    then have "tip_ok v" using v(4,5) by (simp add: tip_ok_def clear_tainted_def)
    then show ?thesis using None v(1) by (simp add: tree_inv_def)
  next
    case (Some b)
    then have b: "valid_node t b" "\<not> invalid ! b" "\<And>j. valid_node t j \<and> \<not> invalid ! j \<Longrightarrow> outworks t b j"
      using best_tip_correct [of t invalid] plan(3) by auto
    have w: "n_chainwork (t_nodes v ! j) = n_chainwork (t_nodes t ! j)" if "j < length (t_nodes t)" for j
      using grows_nth(1) [OF grows_shapes, of v t j] v(2) su that by (simp add: shape_eq)
    have "is_best v b" unfolding is_best_outworks using b vv w by (auto simp: outworks_def valid_node_def)
    then show ?thesis using Some publish_best [OF v(1), of b] v(4,5) by (auto simp: clear_tainted_def)
  qed
  then obtain x w where w: "(case best of None \<Rightarrow> liftS (Inr None) | Some best' \<Rightarrow> publish_tip_if_best best') v = (Inr x, w)"
      "tree_inv w" "calm v w" "t_bip9_cache w = t_bip9_cache v" by blast
  have "invalidate_subtree root t = (Inr \<lparr> io_invalid = map (n_hash \<circ> snd) (filter fst (zip invalid (t_nodes u))), io_demoted_tip = d \<rparr>, w)"
    using Inr ib u(1) [unfolded first_def] w(1) by (simp add: invalidate_subtree_def bindS_def v_def liftS_def Let_def)
  moreover have "t_bip9_cache w \<subseteq>\<^sub>m t_bip9_cache t"
    using w(4) u(3) by (auto simp: v_def invalidate_nodes_def map_le_def split: if_splits)
  moreover have "shapes w = shapes t" using w(3) v(2) su by (simp add: calm_def)
  moreover have "valid_node w i \<longleftrightarrow> valid_node t i \<and> \<not> is_anc (parent_of t) root i" for i
    using w(3) vv plan(4) by (auto simp: calm_def valid_node_def)
  ultimately show ?thesis using assms(2) w(2) plan(1) by auto
qed

lemma invalidation_plan_ok:
  assumes "root < length (t_nodes t)" "length (t_nodes t) \<le> 2 ^ 32"
  shows "\<exists>plan. invalidation_plan t root = Inr plan"
proof -
  have small: "i \<le> u32_max" if "i < length (t_nodes t)" for i using that assms(2) by (simp add: u32_max_def)
  then have f: "List.find (\<lambda>i. n_parent (t_nodes t ! i) \<noteq> None \<and> i > u32_max) [0..<length (t_nodes t)] = None"
    by (fastforce simp: find_None_iff)
  have "b \<le> u32_max" if "best_tip t invalid = Some b" for b invalid
    using best_tip_correct [of t invalid] that small by (auto simp: valid_node_def)
  then show ?thesis using f assms(1)
    by (auto simp: invalidation_plan_def tree_node_eq Let_def not_less [symmetric] split: option.splits)
qed

section \<open>Transaction counts\<close>

lemma restore_count_inv:
  assumes "tree_inv t" "restore_chain_tx_count i count t = (r, t')"
  shows "tree_inv t' \<and> shapes t' = shapes t \<and> t_bip9_cache t' = t_bip9_cache t"
proof (cases "i < length (t_nodes t)")
  case False
  then show ?thesis using assms by (auto simp: restore_chain_tx_count_def set_node_eq bindS_def)
next
  case True
  define u where "u = t\<lparr>t_nodes := (t_nodes t)[i := (t_nodes t ! i)\<lparr>n_chain_tx_count := count\<rparr>]\<rparr>"
  have c: "calm t u" unfolding u_def
    using True by (intro set_node_calm [where f = "\<lambda>n. n\<lparr>n_chain_tx_count := count\<rparr>"]) (auto simp: shape_def)
  have ok: "nodes_ok t" using assms(1) by (simp add: tree_inv_def base_inv_def)
  have t': "t' = refresh_published_tip i u"
    using assms(2) True by (auto simp: restore_chain_tx_count_def set_node_eq bindS_def u_def)
  have su: "shapes u = shapes t" and lu: "length (t_nodes u) = length (t_nodes t)" "t_tip u = t_tip t"
    "t_active_by_height u = t_active_by_height t"
    using c by (auto simp: calm_def u_def)
  have "\<exists>tip. t' = u\<lparr>t_tip := tip\<rparr>" "tip_ok t'"
  proof -
    show "\<exists>tip. t' = u\<lparr>t_tip := tip\<rparr>"
      unfolding t' refresh_published_tip_def by (auto split: option.splits sum.splits intro: exI [of _ "t_tip u"])
    have bestv: "is_best (u\<lparr>t_tip := tip\<rparr>) j \<longleftrightarrow> is_best t j" "ix_ok (u\<lparr>t_tip := tip\<rparr>) k \<longleftrightarrow> ix_ok t k"
      if "k < length (t_nodes t)" for tip j k
    proof -
      have cu: "calm t (u\<lparr>t_tip := tip\<rparr>)" using c by (simp add: calm_def shapes_def valid_node_def)
      show "is_best (u\<lparr>t_tip := tip\<rparr>) j \<longleftrightarrow> is_best t j" using calm_is_best [OF cu] .
      show "ix_ok (u\<lparr>t_tip := tip\<rparr>) k \<longleftrightarrow> ix_ok t k"
        using calm_ix_ok [OF ok, of "u\<lparr>t_tip := tip\<rparr>"] cu lu that by (simp add: calm_def)
    qed
    show "tip_ok t'"
    proof (cases "t_tip t")
      case None
      then have "t' = u" using lu by (simp add: t' refresh_published_tip_def)
      then show ?thesis using assms(1) None c lu by (simp add: tree_inv_def tip_ok_def calm_def)
    next
      case (Some tip)
      then have tp: "is_best t (tip_id tip)" "tip_snapshot t (tip_id tip) = Inr tip" "ix_ok t (tip_id tip)"
        using assms(1) by (auto simp: tree_inv_def tip_ok_def)
      have tl: "tip_id tip < length (t_nodes t)" using tip_snapshot_fields [OF tp(2)] by simp
      show ?thesis
      proof (cases "tip_id tip = i")
        case False
        then have "t' = u" using lu Some by (simp add: t' refresh_published_tip_def)
        moreover have "tip_snapshot u (tip_id tip) = Inr tip"
          using tp(2) tl False lu by (simp add: tip_snapshot_eq u_def)
        moreover have e: "u\<lparr>t_tip := Some tip\<rparr> = u" using lu(2) Some by (cases u) simp
        ultimately show ?thesis using Some lu(2) tp(1,3) bestv [OF tl, of "Some tip", unfolded e] by (simp add: tip_ok_def)
      next
        case True
        have "\<exists>snap. tip_snapshot u i = Inr snap" using lu tl True by (simp add: tip_snapshot_eq)
        then obtain snap where snap: "tip_snapshot u i = Inr snap" by blast
        then have "t' = u\<lparr>t_tip := Some snap\<rparr>" using lu(2) Some True by (simp add: t' refresh_published_tip_def)
        moreover have "tip_id snap = i" using tip_snapshot_fields [OF snap] by simp
        moreover have "tip_snapshot (u\<lparr>t_tip := Some snap\<rparr>) i = Inr snap" using snap tip_snapshot_cong [of "u\<lparr>t_tip := Some snap\<rparr>" u] by simp
        ultimately show ?thesis using tp(1,3) bestv [OF tl, of "Some snap"] True by (simp add: tip_ok_def)
      qed
    qed
  qed
  then obtain tip where "t' = u\<lparr>t_tip := tip\<rparr>" by blast
  then have "calm t t'" using c by (simp add: calm_def shapes_def valid_node_def)
  then show ?thesis using calm_base_inv [of t t'] assms(1) \<open>tip_ok t'\<close> \<open>t' = u\<lparr>t_tip := tip\<rparr>\<close>
    by (simp add: tree_inv_def calm_def u_def)
qed

lemma record_count_inv:
  assumes "tree_inv t" "record_applied_tx_count i n t = (r, t')"
  shows "tree_inv t' \<and> shapes t' = shapes t \<and> t_bip9_cache t' = t_bip9_cache t"
proof -
  have "t' = t \<or> (\<exists>c r'. restore_chain_tx_count i c t = (r', t'))"
    using assms(2) unfolding record_applied_tx_count_def bindS_def liftS_def
    by (auto split: sum.splits prod.splits)
  then show ?thesis using restore_count_inv [OF assms(1)] assms(1) by auto
qed

section \<open>Reachable trees\<close>

text \<open>
  One call of an operation that changes the tree; the tree of a call that fails is the one it leaves
  behind.  Stores of the chain state through the pointer of \<open>tip_handle\<close> are not steps.
\<close>

inductive tree_step :: "(bytes \<Rightarrow> bytes) \<Rightarrow> BlockTree \<Rightarrow> BlockTree \<Rightarrow> bool" for sh where
  header: "insert_header sh header status t = (r, t') \<Longrightarrow> tree_step sh t t'"
| node: "insert_node sh parent header status t = (r, t') \<Longrightarrow> tree_step sh t t'"
| invalidate: "invalidate_subtree root t = (r, t') \<Longrightarrow> tree_step sh t t'"
| recorded: "record_applied_tx_count i n t = (r, t') \<Longrightarrow> tree_step sh t t'"
| restored: "restore_chain_tx_count i count t = (r, t') \<Longrightarrow> tree_step sh t t'"

text \<open>The trees built from the empty one as long as node ids, which are 32 bits wide, last.\<close>

inductive tree_reach :: "(bytes \<Rightarrow> bytes) \<Rightarrow> BlockTree \<Rightarrow> bool" for sh where
  start: "tree_reach sh tree_new"
| step: "tree_reach sh t \<Longrightarrow> tree_step sh t t' \<Longrightarrow> length (t_nodes t') \<le> 2 ^ 32 \<Longrightarrow> tree_reach sh t'"

lemma insert_header_cases:
  assumes "insert_header_with_hash header hash status t = (r, t')"
  shows "t' = t \<or> (\<exists>parent r'. insert_node_with_hash parent header hash status t = (r', t'))"
  using assms by (auto simp: insert_header_with_hash_def split: if_splits option.splits)

lemma insert_header_reduce:
  assumes "insert_header sh header status t = (r, t')"
  shows "\<exists>r'. insert_header_with_hash header (compute_hash sh header) status t = (r', t')"
  using assms by (auto simp: insert_header_def bindS_def liftS_def split: prod.splits sum.splits)

lemma insert_node_reduce:
  assumes "insert_node sh parent header status t = (r, t')"
  shows "\<exists>r'. insert_node_with_hash parent header (compute_hash sh header) status t = (r', t')"
  using assms by (auto simp: insert_node_def bindS_def liftS_def split: prod.splits sum.splits)

lemma tree_step_inv:
  assumes "tree_step sh t t'" "tree_inv t" "length (t_nodes t') \<le> 2 ^ 32"
  shows "tree_inv t' \<and> grows t t' \<and> t_bip9_cache t' \<subseteq>\<^sub>m t_bip9_cache t"
  using assms(1)
proof cases
  case (header header status r)
  then show ?thesis using insert_header_reduce insert_header_cases insert_node_inv [OF assms(2) _ assms(3)] assms(2)
    by (metis grows_refl map_le_refl)
next
  case (node parent header status r)
  then show ?thesis using insert_node_reduce insert_node_inv [OF assms(2) _ assms(3)] by (metis map_le_refl)
next
  case (invalidate root r)
  then show ?thesis using invalidate_inv [OF assms(2)] grows_shapes by blast
next
  case (recorded i n r)
  then show ?thesis using record_count_inv [OF assms(2)] grows_shapes by (metis map_le_refl)
next
  case (restored i count r)
  then show ?thesis using restore_count_inv [OF assms(2)] grows_shapes by (metis map_le_refl)
qed

lemma tree_new_inv: "tree_inv tree_new"
  by (simp add: tree_inv_def base_inv_def nodes_ok_def status_ok_def tip_ok_def valid_node_def tree_new_def index_new_def)

lemma tree_reach_inv: "tree_reach sh t \<Longrightarrow> tree_inv t"
  by (induction rule: tree_reach.induct) (use tree_new_inv tree_step_inv in auto)

lemma tree_inv_nodes: "tree_inv t \<Longrightarrow> nodes_ok t"
  by (simp add: tree_inv_def base_inv_def)

lemma tree_reach_length: "tree_reach sh t \<Longrightarrow> length (t_nodes t) \<le> 2 ^ 32"
  by (induction rule: tree_reach.induct) (auto simp: tree_new_def)

end
