(* ===== verification/Tree_Query.thy ===== *)
theory Tree_Query
  imports Tree_Inv
begin

text \<open>
  The questions the node asks its header tree (\<open>src/crates/chain/src/tree.rs\<close>): the ancestor of a node
  at a height and the common ancestor of two nodes.  The code answers from the index of
  the active chain where it can and walks the parent pointers where it cannot.
  The lemmas show that both ways give the same answer, the ancestor that the
  parent pointers define.
\<close>

section \<open>Nodes by height and common ancestors\<close>

text \<open>The index holds the ancestors of the tip.\<close>

lemma index_get_iff:
  assumes "tree_inv t" "t_tip t = Some tip"
  shows "index_get (t_active_by_height t) h = (if h \<le> height_of t (tip_id tip)
    then anc (parent_of t) (height_of t (tip_id tip) - h) (tip_id tip) else None)"
  using assms by (auto simp: tree_inv_def tip_ok_def ix_ok_def index_get_def get_at_def)

lemma index_trusted_iff: "tree_inv t \<Longrightarrow> ix_trusted (t_active_by_height t) \<longleftrightarrow> t_tip t \<noteq> None"
  by (auto simp: tree_inv_def tip_ok_def ix_ok_def split: option.splits)

lemma index_hit:
  assumes "tree_inv t" "t_tip t = Some tip"
  shows "index_get (t_active_by_height t) (height_of t i) = Some i \<longleftrightarrow> is_anc (parent_of t) i (tip_id tip)"
  using index_get_iff [OF assms] tree.is_anc_iff [OF tree_inv_nodes [OF assms(1)]] by auto

text \<open>On the chain of the tip the index gives the ancestor at every height up to the node.\<close>

lemma index_below:
  assumes "tree_inv t" "t_tip t = Some tip" "is_anc (parent_of t) i (tip_id tip)" "h \<le> height_of t i"
  shows "index_get (t_active_by_height t) h = anc (parent_of t) (height_of t i - h) i"
proof -
  have ok: "nodes_ok t" using tree_inv_nodes [OF assms(1)] .
  note i = assms(3) [unfolded tree.is_anc_iff [OF ok]]
  then have e: "height_of t (tip_id tip) - h = (height_of t (tip_id tip) - height_of t i) + (height_of t i - h)"
    using assms(4) by simp
  have "index_get (t_active_by_height t) h = anc (parent_of t) (height_of t (tip_id tip) - h) (tip_id tip)"
    using index_get_iff [OF assms(1,2), of h] i assms(4) by simp
  then show ?thesis using i unfolding e anc_add by simp
qed

text \<open>The walk by height, with or without the index, is the ancestor at that height.\<close>

lemma height_walk_step:
  assumes "node_opt t i = Some node" "i = start \<or> n_height node < prev" "h \<le> n_height node"
  shows "height_walk t start h r i prev =
    (if ix_trusted (t_active_by_height t) \<and> index_get (t_active_by_height t) (n_height node) = Some i
     then (Inr (index_get (t_active_by_height t) h), r)
     else if n_height node = h then (Inr (Some i), r)
     else case n_parent node of None \<Rightarrow> (Inr None, r) | Some p \<Rightarrow>
       (case r of 0 \<Rightarrow> (Inl (), r) | Suc r' \<Rightarrow> height_walk t start h r' p (n_height node)))"
proof -
  have "\<not> (i \<noteq> start \<and> prev \<le> n_height node)" "\<not> n_height node < h" using assms(2,3) by auto
  then show ?thesis by (subst height_walk.simps) (simp only: assms(1) option.case if_False)
qed

lemma height_walk_correct:
  assumes "tree_inv t" "i < length (t_nodes t)" "h \<le> height_of t i" "height_of t i - h \<le> remaining"
    "i = start \<or> height_of t i < prev"
  shows "fst (height_walk t start h remaining i prev) = Inr (anc (parent_of t) (height_of t i - h) i)"
  using assms(2-5)
proof (induction remaining arbitrary: i prev)
  case (0 i prev)
  have "height_of t i = h" using 0 by simp
  then show ?case using 0 height_walk_step [of t i "t_nodes t ! i" start prev h 0]
    by (simp add: node_opt_eq height_of_eq)
next
  case (Suc remaining i prev)
  have ok: "nodes_ok t" using tree_inv_nodes [OF assms(1)] .
  have n: "node_opt t i = Some (t_nodes t ! i)" "n_height (t_nodes t ! i) = height_of t i" "n_parent (t_nodes t ! i) = parent_of t i"
    using Suc.prems(1) by (auto simp: node_opt_eq height_of_eq parent_of_eq)
  note step = height_walk_step [OF n(1), unfolded n(2,3), OF Suc.prems(4,2), of "Suc remaining"]
  show ?case
  proof (cases "ix_trusted (t_active_by_height t) \<and> index_get (t_active_by_height t) (height_of t i) = Some i")
    case True
    then obtain tip where tip: "t_tip t = Some tip" using index_trusted_iff [OF assms(1)] by blast
    have "is_anc (parent_of t) i (tip_id tip)" using index_hit [OF assms(1) tip] True by blast
    then show ?thesis using True step index_below [OF assms(1) tip _ Suc.prems(2)] by simp
  next
    case miss: False
    show ?thesis
    proof (cases "height_of t i = h")
      case True
      then show ?thesis unfolding step if_not_P [OF miss] by simp
    next
      case False
      then obtain p where p: "parent_of t i = Some p"
        using tree.ht_root [OF ok, of i] Suc.prems(2) by (cases "parent_of t i") auto
      have hp: "height_of t i = Suc (height_of t p)" "p < i" using tree.ht_par [OF ok p] tree.par_less [OF ok p] by auto
      have "fst (height_walk t start h remaining p (height_of t i)) = Inr (anc (parent_of t) (height_of t p - h) p)"
        using Suc.prems hp False by (intro Suc.IH) auto
      moreover have "height_of t i - h = Suc (height_of t p - h)" using hp(1) False Suc.prems(2) by simp
      ultimately show ?thesis unfolding step if_not_P [OF miss] if_not_P [OF False] p by (simp add: p)
    qed
  qed
qed

lemma node_at_height_correct:
  assumes "tree_inv t" "length (t_nodes t) \<le> 2 ^ 32"
  shows "node_at_height_from t i h =
    (if i < length (t_nodes t) \<and> h \<le> height_of t i then anc (parent_of t) (height_of t i - h) i else None)"
proof (cases "i < length (t_nodes t) \<and> h \<le> height_of t i")
  case True
  have "height_of t i \<le> i" using tree.ht_le [OF tree_inv_nodes [OF assms(1)]] .
  then have "height_of t i - h \<le> u64_max" using True assms(2) by (simp add: u64_max_def) linarith
  then have "fst (height_walk t i h u64_max i (height_of t i)) = Inr (anc (parent_of t) (height_of t i - h) i)"
    using height_walk_correct [OF assms(1), of i h u64_max i "height_of t i"] True by blast
  then show ?thesis using True
    by (simp add: node_at_height_from_def node_at_height_from_bounded_def node_opt_eq height_of_eq)
next
  case False
  then show ?thesis
    by (auto simp: node_at_height_from_def node_at_height_from_bounded_def node_opt_eq height_of_eq)
qed

text \<open>What an ancestor search promises.\<close>

definition common_result :: "(nat \<Rightarrow> nat option) \<Rightarrow> nat \<Rightarrow> nat \<Rightarrow> nat option \<Rightarrow> bool" where
  "common_result par a b r \<longleftrightarrow> (case r of
     Some c \<Rightarrow> lowest_common par a b c
   | None \<Rightarrow> \<forall>d. \<not> (is_anc par d a \<and> is_anc par d b))"

lemma common_result_step:
  assumes "common_result par a' b' r" "\<And>d. is_anc par d a \<and> is_anc par d b \<longleftrightarrow> is_anc par d a' \<and> is_anc par d b'"
  shows "common_result par a b r"
  using assms by (auto simp: common_result_def lowest_common_def split: option.splits)

lemma common_result_sym: "common_result par a b r \<Longrightarrow> common_result par b a r"
  by (auto simp: common_result_def lowest_common_def split: option.splits)

lemma common_result_Some:
  "is_anc par c a \<Longrightarrow> is_anc par c b \<Longrightarrow> c = a \<or> c = b \<Longrightarrow> common_result par a b (Some c)"
  by (auto simp: common_result_def lowest_common_def)

lemma index_climb_correct:
  assumes "tree_inv t" "t_tip t = Some tip" "is_anc (parent_of t) a (tip_id tip)" "b < n" "b < length (t_nodes t)"
  shows "common_result (parent_of t) a b (index_climb t n (height_of t a) b)"
  using assms(4,5)
proof (induction n arbitrary: b)
  case (Suc n b)
  have ok: "nodes_ok t" using tree_inv_nodes [OF assms(1)] .
  have nb: "node_opt t b = Some (t_nodes t ! b)" "n_height (t_nodes t ! b) = height_of t b" "n_parent (t_nodes t ! b) = parent_of t b"
    using Suc.prems by (auto simp: node_opt_eq height_of_eq parent_of_eq)
  have unfold: "index_climb t (Suc n) (height_of t a) b =
      (if index_get (t_active_by_height t) (height_of t b) = Some b
       then index_get (t_active_by_height t) (min (height_of t a) (height_of t b))
       else Option.bind (parent_of t b) (index_climb t n (height_of t a)))"
    by (simp add: nb)
  show ?case
  proof (cases "is_anc (parent_of t) b (tip_id tip)")
    case True
    then have u: "index_climb t (Suc n) (height_of t a) b = index_get (t_active_by_height t) (min (height_of t a) (height_of t b))"
      unfolding unfold using index_hit [OF assms(1,2), of b] by simp
    show ?thesis
    proof (cases "height_of t a \<le> height_of t b")
      case le: True
      then have "index_climb t (Suc n) (height_of t a) b = Some a"
        unfolding u using index_hit [OF assms(1,2), of a] assms(3) by (simp add: min_def)
      then show ?thesis using tree.is_anc_between [OF ok assms(3) True le] common_result_Some [of "parent_of t" a a b] by simp
    next
      case False
      then have le: "height_of t b \<le> height_of t a" by simp
      then have "index_climb t (Suc n) (height_of t a) b = Some b"
        unfolding u using index_hit [OF assms(1,2), of b] True by (simp add: min_def)
      then show ?thesis using tree.is_anc_between [OF ok True assms(3) le] common_result_Some [of "parent_of t" b a b] by simp
    qed
  next
    case False
    then have u: "index_climb t (Suc n) (height_of t a) b = Option.bind (parent_of t b) (index_climb t n (height_of t a))"
      unfolding unfold using index_hit [OF assms(1,2), of b] by simp
    have off: "\<not> is_anc (parent_of t) b a" using False assms(3) is_anc_trans by blast
    show ?thesis
    proof (cases "parent_of t b")
      case None
      then have "is_anc (parent_of t) d b \<longleftrightarrow> d = b" for d by (subst is_anc_step) auto
      then show ?thesis using u None off by (auto simp: common_result_def)
    next
      case (Some p)
      have "p < b" using tree.par_less [OF ok Some] .
      then have "common_result (parent_of t) a p (index_climb t n (height_of t a) p)" using Suc by auto
      moreover have "is_anc (parent_of t) d a \<and> is_anc (parent_of t) d b \<longleftrightarrow> is_anc (parent_of t) d a \<and> is_anc (parent_of t) d p" for d
        using off Some is_anc_step [of "parent_of t" d b] by auto
      ultimately show ?thesis using u Some common_result_step by (metis bind.bind_lunit)
    qed
  qed
qed simp

lemma climb_eq: "climb t k i = anc (parent_of t) k i"
  by (induction k arbitrary: i) (auto simp: parent_of_def split: Option.bind_splits)

lemma ancestry_eq:
  assumes "nodes_ok t" "i < length (t_nodes t)" "height_of t i < n" "anc (parent_of t) (height_of t i) i = Some r"
  shows "ancestry t n d i = Some (r, d + height_of t i)"
  using assms(2-4)
proof (induction n arbitrary: i d)
  case (Suc n i d)
  have nb: "node_opt t i = Some (t_nodes t ! i)" "n_parent (t_nodes t ! i) = parent_of t i"
    using Suc.prems by (auto simp: node_opt_eq parent_of_eq)
  show ?case
  proof (cases "parent_of t i")
    case None
    then show ?thesis using nb Suc.prems tree.ht_root [OF assms(1) None] by simp
  next
    case (Some p)
    have h: "height_of t i = Suc (height_of t p)" "p < i" using tree.ht_par [OF assms(1) Some] tree.par_less [OF assms(1) Some] by auto
    have "ancestry t n (d + 1) p = Some (r, d + 1 + height_of t p)"
      using Suc.prems h Some by (intro Suc.IH) auto
    then show ?thesis using nb Some h by simp
  qed
qed simp

lemma meet_correct:
  assumes "nodes_ok t" "height_of t a = height_of t b" "height_of t a \<le> n"
  shows "common_result (parent_of t) a b (meet t n a b)"
  using assms(2,3)
proof (induction n arbitrary: a b)
  case (0 a b)
  then have "a \<noteq> b \<Longrightarrow> \<not> (is_anc (parent_of t) d a \<and> is_anc (parent_of t) d b)" for d
    using tree.is_anc_iff [OF assms(1), of d a] tree.is_anc_iff [OF assms(1), of d b] by auto
  then show ?case using common_result_Some [of "parent_of t" a a a] by (subst meet.simps) (auto simp: common_result_def [of _ _ _ None])
next
  case (Suc n a b)
  show ?case
  proof (cases "a = b")
    case True
    then show ?thesis using common_result_Some [of "parent_of t" a a a] by (subst meet.simps) simp
  next
    case ne: False
    have off: "\<not> is_anc (parent_of t) a b" "\<not> is_anc (parent_of t) b a"
      using ne tree.is_anc_iff [OF assms(1)] Suc.prems(1) by auto
    show ?thesis
    proof (cases "parent_of t a")
      case None
      then have "is_anc (parent_of t) d a \<longleftrightarrow> d = a" for d by (subst is_anc_step) auto
      then show ?thesis using ne None off by (subst meet.simps) (auto simp: climb_eq common_result_def)
    next
      case (Some p)
      obtain q where q: "parent_of t b = Some q"
        using Suc.prems(1) tree.ht_par [OF assms(1) Some] tree.ht_root [OF assms(1), of b] by (cases "parent_of t b") auto
      have "common_result (parent_of t) p q (meet t n p q)"
        using Suc tree.ht_par [OF assms(1) Some] tree.ht_par [OF assms(1) q] by auto
      moreover have "is_anc (parent_of t) d a \<and> is_anc (parent_of t) d b \<longleftrightarrow> is_anc (parent_of t) d p \<and> is_anc (parent_of t) d q" for d
        using off Some q is_anc_step [of "parent_of t" d a] is_anc_step [of "parent_of t" d b] by auto
      moreover have "meet t (Suc n) a b = meet t n p q" using ne Some q by (subst meet.simps) (simp add: climb_eq)
      ultimately show ?thesis using common_result_step by metis
    qed
  qed
qed

lemma walked_common_correct:
  assumes "nodes_ok t" "a < length (t_nodes t)" "b < length (t_nodes t)"
  shows "common_result (parent_of t) a b (walked_common_ancestor t a b)"
proof -
  obtain ra where ra: "anc (parent_of t) (height_of t a) a = Some ra" using tree.anc_root [OF assms(1)] by blast
  obtain rb where rb: "anc (parent_of t) (height_of t b) b = Some rb" using tree.anc_root [OF assms(1)] by blast
  have h: "height_of t a < tree_len t" "height_of t b < tree_len t"
    using tree.ht_le [OF assms(1), of a] tree.ht_le [OF assms(1), of b] assms(2,3) by (auto simp: tree_len_def)
  note an = ancestry_eq [OF assms(1,2) h(1) ra, of 0] ancestry_eq [OF assms(1,3) h(2) rb, of 0]
  define ka where "ka = height_of t a - height_of t b"
  define kb where "kb = height_of t b - height_of t a"
  obtain a' where a': "anc (parent_of t) ka a = Some a'" using tree.anc_total [OF assms(1), of ka a] by (auto simp: ka_def)
  obtain b' where b': "anc (parent_of t) kb b = Some b'" using tree.anc_total [OF assms(1), of kb b] by (auto simp: kb_def)
  have ht: "height_of t a' = min (height_of t a) (height_of t b)" "height_of t b' = min (height_of t a) (height_of t b)"
    using tree.anc_height [OF assms(1) a', unfolded ka_def] tree.anc_height [OF assms(1) b', unfolded kb_def] by linarith+
  have up: "is_anc (parent_of t) a' a" "is_anc (parent_of t) b' b" using a' b' by (auto simp: is_anc_def)
  have same: "is_anc (parent_of t) d a \<and> is_anc (parent_of t) d b \<longleftrightarrow> is_anc (parent_of t) d a' \<and> is_anc (parent_of t) d b'" for d
  proof
    assume d: "is_anc (parent_of t) d a \<and> is_anc (parent_of t) d b"
    then have "height_of t d \<le> height_of t a'" "height_of t d \<le> height_of t b'"
      using tree.is_anc_iff [OF assms(1)] ht by auto
    then show "is_anc (parent_of t) d a' \<and> is_anc (parent_of t) d b'" using tree.is_anc_between [OF assms(1)] d up by blast
  qed (use up is_anc_trans in blast)
  have "common_result (parent_of t) a b (meet t (tree_len t) a' b')"
    using common_result_step [OF meet_correct [OF assms(1)] same] ht h by simp
  moreover have "\<not> (is_anc (parent_of t) d a \<and> is_anc (parent_of t) d b)" if "ra \<noteq> rb" for d
    using tree.lowest_common_root [OF assms(1) _ _ ra rb] that by blast
  moreover have "walked_common_ancestor t a b = (if ra \<noteq> rb then None else meet t (tree_len t) a' b')"
    using a' b' unfolding walked_common_ancestor_def an ka_def kb_def climb_eq by simp
  ultimately show ?thesis by (simp add: common_result_def)
qed

lemma find_common_ancestor_correct:
  assumes "tree_inv t" "a < length (t_nodes t)" "b < length (t_nodes t)"
  shows "common_result (parent_of t) a b (find_common_ancestor t a b)"
proof -
  have ok: "nodes_ok t" using tree_inv_nodes [OF assms(1)] .
  have n: "node_opt t a = Some (t_nodes t ! a)" "node_opt t b = Some (t_nodes t ! b)"
    "n_height (t_nodes t ! a) = height_of t a" "n_height (t_nodes t ! b) = height_of t b"
    using assms(2,3) by (auto simp: node_opt_eq height_of_eq)
  have l: "a < tree_len t" "b < tree_len t" using assms(2,3) by (simp_all add: tree_len_def)
  note w = walked_common_correct [OF ok assms(2,3)]
  show ?thesis
  proof (cases "ix_trusted (t_active_by_height t)")
    case True
    then obtain tip where tip: "t_tip t = Some tip" using index_trusted_iff [OF assms(1)] by blast
    have ca: "common_result (parent_of t) a b (index_climb t (tree_len t) (height_of t a) b)" if "is_anc (parent_of t) a (tip_id tip)"
      using index_climb_correct [OF assms(1) tip that l(2) assms(3)] .
    have cb: "common_result (parent_of t) a b (index_climb t (tree_len t) (height_of t b) a)" if "is_anc (parent_of t) b (tip_id tip)"
      using common_result_sym [OF index_climb_correct [OF assms(1) tip that l(1) assms(2)]] .
    show ?thesis
      using w ca cb True index_hit [OF assms(1) tip, of a] index_hit [OF assms(1) tip, of b]
      by (simp add: find_common_ancestor_def n)
  next
    case False
    then show ?thesis using w by (simp add: find_common_ancestor_def)
  qed
qed

end
