(* ===== verification/Tree_Samples.thy ===== *)
theory Tree_Samples
  imports Tree_Query Bip9 "HOL-Library.Code_Target_Nat"
begin

text \<open>
  A small header tree: a root, two children of it and a child of the second, inserted in
  that order, so that the active chain switches to the longer branch.  The hash is a
  stand-in that copies the nonce; the headers carry the easiest target of the test network.
\<close>

definition nonce_hash :: "bytes \<Rightarrow> bytes" where
  "nonce_hash bs = (if length bs = 80 then drop 76 bs @ replicate 28 0 else bs)"

definition sample_hash :: "u32 \<Rightarrow> hash256" where
  "sample_hash nonce = u32_le nonce @ replicate 28 0"

definition sample_header :: "u32 \<Rightarrow> u32 \<Rightarrow> Header" where
  "sample_header prev nonce = \<lparr> h_version = 4, h_prev_blockhash = sample_hash prev, h_merkle_root = replicate 32 7,
     h_time = 1000 + nonce, h_bits = 0x207fffff, h_nonce = nonce \<rparr>"

definition add_sample :: "u32 \<Rightarrow> u32 \<Rightarrow> BlockTree \<Rightarrow> BlockTree" where
  "add_sample prev nonce t = snd (insert_header nonce_hash (sample_header prev nonce) StHeaderValid t)"

definition sample_tree :: BlockTree where
  "sample_tree = add_sample 3 4 (add_sample 1 3 (add_sample 1 2 (add_sample 0 1 tree_new)))"

lemma length_sample_hash [simp]: "length (sample_hash n) = 32"
  by (simp add: sample_hash_def)

lemma sample_hash_eq [simp]: "sample_hash a = sample_hash b \<longleftrightarrow> a = b"
  by (metis append_eq_append_conv length_u32_le sample_hash_def u32_of_le_u32_le)

lemma compute_sample_hash [simp]: "compute_hash nonce_hash (sample_header prev nonce) = sample_hash nonce"
  by (simp add: compute_hash_def double_sha256_def header_to_bytes_def nonce_hash_def sample_header_def sample_hash_def)

lemma sample_work [simp]: "block_work (sample_header prev nonce) = 2"
  unfolding block_work_def sample_header_def by code_simp

lemma sample_prev [simp]: "h_prev_blockhash (sample_header prev nonce) = sample_hash prev"
  by (simp add: sample_header_def)

definition sample_node :: "node_id option \<Rightarrow> nat \<Rightarrow> u32 \<Rightarrow> u32 \<Rightarrow> NodeStatus \<Rightarrow> BlockTreeNode" where
  "sample_node parent height prev nonce status = \<lparr> n_parent = parent, n_height = height, n_hash = sample_hash nonce,
     n_header = sample_header prev nonce, n_chainwork = 2 * Suc height, n_chain_tx_count = None, n_status = status \<rparr>"

definition sample_tip :: "node_id \<Rightarrow> nat \<Rightarrow> u32 \<Rightarrow> TipSnapshot" where
  "sample_tip i height nonce = \<lparr> tip_id = i, tip_height = height, tip_chainwork = 2 * Suc height,
     tip_hash = sample_hash nonce, tip_chain_tx_count = None \<rparr>"

definition sample_of :: "BlockTreeNode list \<Rightarrow> node_id list \<Rightarrow> TipSnapshot \<Rightarrow> BlockTree" where
  "sample_of ns active tip = \<lparr> t_nodes = ns, t_by_hash = [0..<length ns],
     t_active_by_height = \<lparr> ix_entries = active, ix_trusted = True \<rparr>, t_tip = Some tip, t_bip9_cache = Map.empty \<rparr>"

lemmas tree_eval = add_sample_def insert_header_def insert_header_with_hash_def insert_node_with_hash_def node_place_def
  lookup_def tree_new_def index_new_def bindS_def liftS_def Let_def publish_tip_if_best_def tree_node_eq node_opt_eq
  set_node_eq tip_snapshot_def refresh_active_height_index_def rebuild_chain.simps commit_validated_rebuild_def
  extend_validated_def index_last_def last_opt_def sample_node_def sample_tip_def sample_of_def u32_max_def UNKNOWN_def
  find_common_ancestor_def index_get_def get_at_def tree_len_def

lemma sample_tree_1: "add_sample 0 1 tree_new = sample_of [sample_node None 0 0 1 StActive] [0] (sample_tip 0 0 1)"
  by (simp add: tree_eval)

lemma sample_tree_2: "add_sample 1 2 (sample_of [sample_node None 0 0 1 StActive] [0] (sample_tip 0 0 1))
   = sample_of [sample_node None 0 0 1 StStale, sample_node (Some 0) 1 1 2 StActive] [0, 1] (sample_tip 1 1 2)"
  by (simp add: tree_eval)

lemma sample_tree_3:
  "add_sample 1 3 (sample_of [sample_node None 0 0 1 StStale, sample_node (Some 0) 1 1 2 StActive] [0, 1] (sample_tip 1 1 2))
   = sample_of [sample_node None 0 0 1 StStale, sample_node (Some 0) 1 1 2 StActive, sample_node (Some 0) 1 1 3 StHeaderValid]
       [0, 1] (sample_tip 1 1 2)"
  by (simp add: tree_eval)

lemma sample_tree_4:
  "add_sample 3 4 (sample_of [sample_node None 0 0 1 StStale, sample_node (Some 0) 1 1 2 StActive,
       sample_node (Some 0) 1 1 3 StHeaderValid] [0, 1] (sample_tip 1 1 2))
   = sample_of [sample_node None 0 0 1 StStale, sample_node (Some 0) 1 1 2 StStale,
       sample_node (Some 0) 1 1 3 StHeaderValid, sample_node (Some 2) 2 3 4 StActive] [0, 2, 3] (sample_tip 3 2 4)"
  by (simp add: tree_eval)

lemma sample_tree_eq:
  "sample_tree = sample_of [sample_node None 0 0 1 StStale, sample_node (Some 0) 1 1 2 StStale,
     sample_node (Some 0) 1 1 3 StHeaderValid, sample_node (Some 2) 2 3 4 StActive] [0, 2, 3] (sample_tip 3 2 4)"
  by (simp only: sample_tree_def sample_tree_1 sample_tree_2 sample_tree_3 sample_tree_4)

lemma add_sample_reach:
  "tree_reach nonce_hash t \<Longrightarrow> add_sample prev nonce t = t' \<Longrightarrow> length (t_nodes t') \<le> 2 ^ 32 \<Longrightarrow> tree_reach nonce_hash t'"
  unfolding add_sample_def by (metis surjective_pairing tree_reach.step tree_step.header)

lemma sample_tree_reach: "tree_reach nonce_hash sample_tree"
  unfolding sample_tree_eq
  by (rule add_sample_reach [OF _ sample_tree_4], rule add_sample_reach [OF _ sample_tree_3],
      rule add_sample_reach [OF _ sample_tree_2], rule add_sample_reach [OF _ sample_tree_1], rule tree_reach.start)
    (simp_all add: sample_of_def)

end
