(* ===== verification/Spec2Isabelle.thy ===== *)
theory Spec2Isabelle
  imports Samples Sigops Block_Facts Block_Samples Tree_Samples
begin

text \<open>
  Verification of the consensus code of a Bitcoin node written in Rust.  The program decodes
  transactions and blocks (\<open>src/crates/primitives\<close>), evaluates scripts (\<open>src/crates/script\<close>),
  checks transactions and blocks (\<open>src/crates/consensus\<close>) and keeps a tree of headers whose
  best branch is the active chain (\<open>src/crates/chain\<close>).  A block is decoded, its facts (identifiers,
  sizes, Merkle root) are computed from the wire image, its flags follow from
  network, height and deployments, its rules are checked, and the scripts of its inputs are run, past
  a cache of scripts and a cache of signatures.

  \<^bold>\<open>Conventions.\<close>  \<open>Result\<close> is a sum with the error on the left and \<open>bindE\<close> the question mark;
  code that writes through a shared reference is an \<open>sresult\<close>, which keeps what was written before an
  error.  Bytes and header fields are words; lengths, heights, amounts in sums and 256-bit
  work are natural numbers with saturation, checked overflow or wrap-around written
  out.  Panics and slices out of range are \<open>None\<close>.  Third-party code is a parameter: the hash
  functions (\<open>hashes\<close>, or \<open>sh\<close> where only SHA-256 is used), the curve library (\<open>crypto\<close>),
  the foreign script kernel (\<open>script_source\<close>).  \<open>Prelude\<close> holds these and the little-endian encodings.

  \<^bold>\<open>Encodings.\<close>  \<open>Varint\<close> (\<open>varint.rs\<close>), \<open>Tx\<close> (\<open>tx.rs\<close>, \<open>header.rs\<close>, \<open>block.rs\<close>, \<open>encode.rs\<close>) and
  \<open>Layout\<close> (\<open>layout.rs\<close>, the readers of \<open>encode.rs\<close>).  The locale \<open>span_codec\<close> is the
  contract of a parser that records spans of the image: it accepts exactly the encodings and its spans
  cover the fields.  Items, inputs, outputs, transactions and blocks are instances; the
  properties on decoding follow from them.

  \<^bold>\<open>Scripts.\<close>  \<open>Script\<close> (\<open>script.rs\<close>), \<open>Script_Stack\<close> (\<open>stack.rs\<close>), \<open>Script_Flags\<close> and \<open>Script_Num\<close>
  (\<open>interpreter.rs\<close>, \<open>eval.rs\<close>), \<open>Eval\<close> (\<open>eval.rs\<close>), \<open>Sighash\<close> (\<open>sighash.rs\<close>), \<open>Checker\<close> (\<open>checker.rs\<close>,
  \<open>signature_cache.rs\<close>), \<open>Interpreter\<close> (\<open>interpreter.rs\<close>, \<open>taproot.rs\<close>), \<open>Sigops\<close> (\<open>sigops.rs\<close>).
  The locales \<open>script_stack\<close> and \<open>condition_stack\<close> are the contracts of the two stacks.
  \<open>Eval_Inv\<close> and \<open>Eval_Bounds\<close> bound stacks, items, operations and signature checks.  The locales
  \<open>checker_sim\<close> (\<open>Eval_Sim\<close>) and \<open>checker_log\<close> (\<open>Eval_Log\<close>) say when two checkers give the
  same evaluation; \<open>Spend_Sim\<close> lifts them to whole spends.  Their instances give that
  flags only forbid and that the signature cache changes no verdict.

  \<^bold>\<open>Blocks.\<close>  \<open>Sha256\<close> (\<open>sha256d64.rs\<close>), \<open>Merkle\<close> and \<open>Block_Rules\<close> (\<open>verify_block.rs\<close>), \<open>Block_View\<close> and
  \<open>Block_Facts\<close> (\<open>block_view.rs\<close>), \<open>Network\<close> (\<open>network.rs\<close>), \<open>Consensus\<close> (\<open>lib.rs\<close>, \<open>engine.rs\<close>, \<open>bip30.rs\<close>,
  \<open>bip34.rs\<close>, \<open>bip68.rs\<close>), \<open>Bip9\<close> (\<open>bip9.rs\<close>), \<open>Tx_Rules\<close> (\<open>verify_tx.rs\<close>, \<open>kernel.rs\<close>), \<open>Script_Cache\<close>
  (\<open>script_cache.rs\<close>).  \<open>Block_Unique\<close> shows that a header determines the transactions of a block
  that passes the rules, \<open>Block_Scripts\<close> that the batched script checks report the first
  error of checking transactions one by one and that the script cache changes no verdict.

  \<^bold>\<open>Headers.\<close>  \<open>Pow\<close> (module \<open>pow\<close> of \<open>header_sync.rs\<close>) and \<open>Block_Tree\<close> (\<open>tree.rs\<close>, \<open>active_index.rs\<close>,
  \<open>node.rs\<close>, \<open>count.rs\<close>).  \<open>tree_step\<close> is one call of an operation that changes the tree and \<open>tree_reach\<close> the trees they
  build.  The chain state holds the same tip pointer through \<open>tip_handle\<close> and also stores into it
  (\<open>publish_genesis_tip\<close>, \<open>publish_chain_tip\<close>); those writes are not steps of the model, and what is shown of
  the published tip is about trees whose pointer only the tree has written.  \<open>Tree_Inv\<close> proves the invariant; its locale \<open>forest\<close> is what walks along parent
  pointers need, and the tree is its instance.  \<open>Tree_Query\<close> shows that the index of the active
  chain and the walks give the same answers.

  \<^bold>\<open>Bounds and loops.\<close>  Loops are structural where the code counts; the worklist of an invalidation
  and the rebuilding of the index have termination proofs.  The recursion over deployment periods
  and the walks to the root are partial functions, where \<open>None\<close> is not returning, or a division by zero; the recursion is
  proved to return.  The last loop of the common-ancestor search runs for at most as many steps as
  there are nodes, which is enough because both nodes have a depth below that number.  Node ids are
  32 bits wide and trees are followed as long as they last; the generation counter of the script cache
  as long as it does not wrap.

  \<open>Samples\<close>, \<open>Block_Samples\<close> and \<open>Tree_Samples\<close> hold the concrete inputs at which the
  properties with hypotheses are applied.

  \<^bold>\<open>Not modelled.\<close>  Admission of headers from peers and retargeting over the tree, reorganisation
  plans and deployment queries; signet solutions; the chain state, the set of unspent outputs, storage,
  transaction pool, indexes, mining, network, remote calls and the node that composes them.  They are
  concurrent services over third-party stores, sockets and clocks, and reach the code modelled
  here through the functions named above.
\<close>

section \<open>Spending an output\<close>

text \<open>
  C1: Script flags only ever forbid: an input that verifies under a flag set verifies under
  every subset of it, so a rule that is not yet active never makes a spend invalid
  that the stricter rules accept.  It holds for every transaction, every previous
  output and every implementation of the hash and curve functions.
\<close>

theorem soft_fork_monotone:
  assumes "flags_le f' f" "accepts (verify_input cr p i f) None"
  shows "accepts (verify_input cr p i f') None"
  using assms by (rule verify_input_flags)

theorem soft_fork_monotone_witness: "accepts (verify_input sample_crypto sample_prepared 0 P2SH) None"
  by (rule soft_fork_monotone [OF _ sample_accepted]) (simp add: flags_le_bit flags_union_def bit_or_iff)

text \<open>
  C3: The signature cache never changes a verdict.  Let \<open>U\<close> hold the queries the input asks
  and the past queries whose keys fill the cache, and let no two of them share a
  key.  Then verification with the cache returns exactly what verification without
  it returns, errors included, and afterwards the cache again holds only keys of
  verified queries of \<open>U\<close>, also when verification fails.
\<close>

theorem signature_cache_transparent:
  assumes "inj_on (query_key cr) U" "set (spend_queries cr p i flags) \<subseteq> U" "cache_from cr U (Some cache)"
  shows "fst (verify_input cr p i flags (Some cache)) = fst (verify_input cr p i flags None)
    \<and> cache_from cr U (snd (verify_input cr p i flags (Some cache)))"
  using verify_input_cache [OF assms] by simp

theorem signature_cache_transparent_witness:
  "fst (verify_input sample_crypto sample_prepared 0 P2SH (Some [query_key sample_crypto sample_query]))
     = fst (verify_input sample_crypto sample_prepared 0 P2SH None)"
  using signature_cache_transparent [of sample_crypto "{sample_query}" sample_prepared 0 P2SH
      "[query_key sample_crypto sample_query]"]
  by (simp add: sample_queries sample_cache)

section \<open>The evaluator\<close>

text \<open>
  C14: The work of one evaluation is bounded, whatever its result.  In legacy and segwit v0
  scripts at most 201 signature checks are made; in tapscript each check is paid
  for with 50 units of the validation weight the input brought.
\<close>

theorem signature_checks_bounded:
  assumes "env_checker env = counting ck" "hashes_small (env_hashes env)" "small_items s" "length s \<le> MAX_DEPTH"
    and "env_sigversion env = Tapscript \<Longrightarrow> weight = Some left \<and> 0 \<le> left"
  shows "let n = fst (snd (eval_script env s weight (0, c)))
    in if env_sigversion env = Tapscript then 50 * int n \<le> left else n \<le> MAX_OPS_PER_SCRIPT"
  using eval_script_checks [OF assms, of c] by (simp add: prod_eq_iff Let_def)

theorem signature_checks_bounded_witness:
  "fst (snd (eval_script sample_env [Bytes [5, 1], Bytes [5, 9]] None (0, ()))) \<le> MAX_OPS_PER_SCRIPT"
  using signature_checks_bounded [of sample_env sample_checks "[Bytes [5, 1], Bytes [5, 9]]" None 0 "()"]
  by (simp add: sample_env_def sample_hashes_small small_items_def small_def item_bytes_def)

text \<open>
  C15: A successful evaluation leaves at most 1000 items on the stack, each at most 520 bytes
  long, when it started so and digests are at most that long.
\<close>

theorem eval_script_within_limits:
  assumes "eval_script env s weight c = (Inr (s', w'), c')" "hashes_small (env_hashes env)"
    and "small_items s" "length s \<le> MAX_DEPTH"
  shows "length s' \<le> MAX_STACK_SIZE \<and> small_items s'"
  by (rule eval_script_bounds [OF assms])

theorem eval_script_within_limits_witness: "length [Bytes [5, 1], Bytes [5, 9], Bytes [7]] \<le> MAX_STACK_SIZE"
  using eval_script_within_limits [OF sample_push_eval] by (simp add: sample_env_def sample_hashes_small small_items_def small_def item_bytes_def)

text \<open>
  C24: The condition stack, two counters, behaves as the list of open conditions it stands for: any
  sequence of \<open>IF\<close>, \<open>ELSE\<close> and \<open>ENDIF\<close> steps succeeds on one exactly when it succeeds on the
  other, and the results correspond; an opcode executes exactly when every open
  condition holds.
\<close>

theorem condition_stack_refines:
  "rel_option (\<lambda>c bs. cond_rep c bs \<and> (cond_all_true c \<longleftrightarrow> list_all id bs) \<and> (cond_is_empty c \<longleftrightarrow> bs = []))
     (cs.run ops cond_new) (cs.list_run ops [])"
  using cs.run_refines [OF cs.rep_new, of ops]
  by (rule option.rel_mono_strong) (simp add: cs.rep_all_true cs.rep_is_empty list_all_iff)

text \<open>
  C25: Script numbers decode exactly the minimal encodings: with the minimality rule on, a byte
  string decodes to a value precisely when it is that value's serialization and
  within the size limit, so every number has one accepted encoding.
\<close>

theorem script_num_canonical:
  assumes "max_size \<le> 7"
  shows "script_num bs True max_size = Inr v \<longleftrightarrow> bs = script_num_serialize v \<and> length bs \<le> max_size"
  using serialize_num_value [of bs] by (auto simp: script_num_eq [OF assms] split: if_splits)

theorem script_num_canonical_witness: "script_num [0x80, 0x00] True 4 = Inr 128"
proof -
  have "[0x80, 0x00] = script_num_serialize 128 \<and> length ([0x80, 0x00] :: bytes) \<le> 4" by code_simp
  then show ?thesis by (rule script_num_canonical [THEN iffD2, rotated]) simp
qed

section \<open>Scripts\<close>

text \<open>
  C37: Parsing what \<open>push_data\<close> wrote gives the data back and leaves exactly the rest of the
  script, whatever follows.
\<close>

theorem push_data_roundtrip:
  assumes "length d < 2 ^ 32"
  shows "instr_next \<lparr> remaining = push_data d @ rest, failed = False \<rparr> =
    (Some (Inr (PushBytes d)), \<lparr> remaining = rest, failed = False \<rparr>)"
  by (rule instr_next_push_data [OF assms])

theorem push_data_roundtrip_witness:
  "instr_next \<lparr> remaining = push_data [1, 2, 3] @ [0xac], failed = False \<rparr> =
    (Some (Inr (PushBytes [1, 2, 3])), \<lparr> remaining = [0xac], failed = False \<rparr>)"
  using push_data_roundtrip [of "[1, 2, 3]" "[0xac]"] by simp

section \<open>Encodings\<close>

text \<open>
  C38: The compact-size decoder accepts exactly the canonical encodings: it returns a value and a
  length precisely when the buffer starts with the shortest encoding of that
  value.
\<close>

theorem varint_canonical:
  "varint_decode buf = Inr (v, n) \<longleftrightarrow> v < 2 ^ 64 \<and> n = encoded_len v \<and> n \<le> length buf \<and> take n buf = varint_encode v"
  by (metis varint_decode_sound varint_decode_encode append_take_drop_id)

text \<open>
  C36: The size the code computes for a transaction without encoding it is the length of its
  encoding, up to saturation at the largest 64-bit value.
\<close>

theorem tx_size_exact:
  assumes "tx_hashes_wf tx"
  shows "tx_consensus_size tx = min u64_max (length (encode_tx tx))"
  by (rule tx_consensus_size_eq [OF assms])

theorem tx_size_exact_witness: "tx_consensus_size sample_spend = min u64_max (length (encode_tx sample_spend))"
  by (rule tx_size_exact) (simp add: tx_hashes_wf_def sample_spend_def)

text \<open>
  C26: A legacy signature of type \<open>ALL\<close> commits to the whole transaction: two signing requests with the
  same preimage agree on version, inputs, sequence numbers, outputs, lock time and
  hash type, and on the signed input and its script when that script is not empty.
\<close>

theorem legacy_sighash_all_commits:
  assumes "legacy_preimage tx i code n = legacy_preimage tx' j code' m"
    and "ecdsa_from_consensus n = EAll" "ecdsa_from_consensus m = EAll"
    and "tx_wf tx" "tx_wf tx'" "length code < 2 ^ 64" "length code' < 2 ^ 64"
    and "i < length (tx_inputs tx)"
  shows "tx_version tx = tx_version tx' \<and> map in_prevout (tx_inputs tx) = map in_prevout (tx_inputs tx')
    \<and> map in_sequence (tx_inputs tx) = map in_sequence (tx_inputs tx') \<and> tx_outputs tx = tx_outputs tx'
    \<and> tx_lock_time tx = tx_lock_time tx' \<and> n = m \<and> (code \<noteq> [] \<longrightarrow> i = j \<and> code = code')"
  by (rule legacy_all_commits [OF assms])

theorem legacy_sighash_all_commits_witness:
  "tx_outputs (sample_spend\<lparr>tx_inputs := map (in_script_sig_update (\<lambda>_. [])) (tx_inputs sample_spend)\<rparr>) = tx_outputs sample_spend"
  using legacy_sighash_all_commits [of sample_spend 0 "[0xac]" 1
      "sample_spend\<lparr>tx_inputs := map (in_script_sig_update (\<lambda>_. [])) (tx_inputs sample_spend)\<rparr>" 0 "[0xac]" 1]
  by (simp add: sample_spend_def sample_wf)

text \<open>
  C39: A block header is exactly its 80 bytes: reading them and writing them again gives them back.
\<close>

theorem header_bytes_roundtrip:
  assumes "length bs = 80"
  shows "header_to_bytes (header_from_bytes bs) = bs"
  by (rule header_to_from_bytes [OF assms])

theorem header_bytes_roundtrip_witness: "header_to_bytes (header_from_bytes (replicate 80 3)) = replicate 80 3"
  by (rule header_bytes_roundtrip) simp

section \<open>Blocks\<close>

text \<open>
  C10: The eight-lane vector code computes SHA-256 of SHA-256 of each of its eight 64-byte
  messages, with SHA-256 as FIPS 180-4 defines it for messages of any length.
\<close>

theorem vector_hash_correct:
  assumes "length input = 8" "list_all (\<lambda>m. length m = 64) input"
  shows "transform_8way input = map (\<lambda>m. Sha256.sha256 (Sha256.sha256 m)) input"
  by (rule transform_8way_eq [OF assms])

theorem vector_hash_correct_witness:
  "transform_8way (replicate 8 (replicate 64 7)) = replicate 8 (Sha256.sha256 (Sha256.sha256 (replicate 64 7)))"
  using vector_hash_correct [of "replicate 8 (replicate 64 7)"] by (simp add: list_all_iff)

text \<open>
  C8: Every way the code computes a Merkle root gives the same root and the same mutation flag: the
  streaming spine, the in-place levels, and the in-place levels with the vector
  code, and also the root that the witness commitment uses.
\<close>

theorem merkle_paths_agree:
  assumes "list_all hash_node txids" "length txids < 2 ^ 64" "h = hash_merkle_pair Sha256.sha256" "avx2 = None \<or> avx2 = Some avx2_pairs"
  shows "merkle_root_and_mutation_borrowed avx2 h txids = tree_root h txids
    \<and> merkle_root_and_mutation avx2 h txids = tree_root h txids
    \<and> compute_merkle_root avx2 h txids = map_option fst (tree_root h txids)"
proof -
  have "kernel_ok hash_node avx2 h" using assms(3,4) avx2_kernel_ok kernel_ok_None by blast
  then show ?thesis
    using merkle_root_borrowed_eq merkle_root_and_mutation_eq compute_merkle_root_eq assms(1,2) by metis
qed

theorem merkle_paths_agree_witness:
  "merkle_root_and_mutation_borrowed (Some avx2_pairs) (hash_merkle_pair Sha256.sha256) (replicate 17 (replicate 32 1))
     = tree_root (hash_merkle_pair Sha256.sha256) (replicate 17 (replicate 32 1))"
  using merkle_paths_agree [of "replicate 17 (replicate 32 1)" "hash_merkle_pair Sha256.sha256" "Some avx2_pairs"]
  by (simp add: list_all_iff)

text \<open>
  C9: A Merkle root without the mutation flag commits to the transaction list: two lists with trees of
  the same depth, the same root and no mutation are equal, unless two different
  pairs hashed for them collide.  Without the flag this fails, as an odd level
  repeats its last node.
\<close>

theorem merkle_root_commits:
  assumes "merkle_root_and_mutation_borrowed None h xs = Some (root, False)"
    and "merkle_root_and_mutation_borrowed None h ys = Some (root, False)"
    and "length xs < 2 ^ 64" "length ys < 2 ^ 64" "tree_depth (length xs) = tree_depth (length ys)"
    and "inj_on (case_prod h) (set (hashed_pairs h xs) \<union> set (hashed_pairs h ys))"
  shows "xs = ys"
proof -
  have "kernel_ok (\<lambda>_. True) None h" by (simp add: kernel_ok_def)
  then have "tree_root h xs = Some (root, False)" "tree_root h ys = Some (root, False)"
    using assms(1-4) by (simp_all add: merkle_root_borrowed_eq list_all_iff)
  then show ?thesis
    using merkle_root_unique [of h xs ys] assms(5,6) by (auto simp: tree_root_def split: if_splits)
qed

lemma sample_tree:
  "merkle_root_and_mutation_borrowed None (\<lambda>a b. 10 * a + b) [1, 2, 3 :: int] = Some (153, False)"
  "hashed_pairs (\<lambda>a b. 10 * a + b) [1, 2, 3 :: int] = [(1, 2), (3, 3), (12, 33)]"
  by code_simp+

theorem merkle_root_commits_witness:
  "merkle_root_and_mutation_borrowed None (\<lambda>a b. 10 * a + b) [1, 2, 3 :: int] = Some (153, False) \<and> [1, 2, 3 :: int] = [1, 2, 3]"
  using merkle_root_commits [OF sample_tree(1) sample_tree(1)] by (simp add: sample_tree inj_on_def)

text \<open>
  C29: The signature-operation cost of a transaction does not depend on the order of the previous outputs
  the caller gives: with distinct outpoints the cursor loop charges each input for
  the output with its outpoint, and nothing for an input without one.
\<close>

theorem sigop_cost_by_outpoint:
  assumes "distinct (map fst prevouts)" "\<not> is_coinbase tx"
  shows "transaction_sigop_cost tx prevouts flags =
    sigop_reference (filled flags) prevouts (tx_inputs tx) (sat_mul32 (count_tx_legacy tx) 4)"
  using assms by (simp add: transaction_sigop_cost_def Let_def sigop_inputs_reference)

theorem sigop_cost_by_outpoint_witness:
  "transaction_sigop_cost sample_spend [(\<lparr> op_txid = replicate 32 7, op_vout = 0 \<rparr>, hd sample_prevouts)] WITNESS =
    sigop_reference (filled WITNESS) [(\<lparr> op_txid = replicate 32 7, op_vout = 0 \<rparr>, hd sample_prevouts)] (tx_inputs sample_spend)
      (sat_mul32 (count_tx_legacy sample_spend) 4)"
  by (rule sigop_cost_by_outpoint) (simp_all add: sample_spend_def is_coinbase_def outpoint_is_null_def)

section \<open>Blocks\<close>

text \<open>
  C2: A header determines its block.  Two blocks that pass the block rules and carry the same
  Merkle root, in trees of the same depth, have the same transactions, witnesses
  included, unless two different strings that are hashed for them (transaction encodings, pairs of
  tree nodes, the witness commitment) collide.  It holds with and without the vector hashing
  and for every hash function with 32-byte digests.
\<close>

theorem block_determined_by_header:
  assumes "verify_block_rules avx2 sh a = Inr ()" "verify_block_rules avx2 sh b = Inr ()"
    and "h_merkle_root (b_header a) = h_merkle_root (b_header b)"
    and "tree_depth (length (b_txs a)) = tree_depth (length (b_txs b))"
    and "list_all tx_hashes_wf (b_txs a)" "list_all tx_hashes_wf (b_txs b)"
    and "kernel_ok hash_node avx2 (hash_merkle_pair sh)" "digest_hash sh" "collision_free sh a b"
  shows "b_txs a = b_txs b"
  by (rule sealed_unique [OF sealedI [OF assms(1,7,8,5)] sealedI [OF assms(2,7,8,6)] assms(3,4,9,8)])

theorem block_determined_by_header_witness:
  "verify_block_rules None (pad 32) sample_block = Inr () \<and> b_txs sample_block = b_txs sample_block"
  using sample_block_rules block_determined_by_header [OF sample_block_rules sample_block_rules refl refl
      sample_block_wf(1) sample_block_wf(1) _ pad_digest sample_strings] pad_digest
  by (simp add: kernel_ok_def digest_nodes)

text \<open>
  C5: On byte strings shorter than 4 GiB the block decoder accepts exactly the encodings of
  decodable blocks, those with 32-byte hashes and no transaction that has outputs but no inputs: decoding
  gives \<open>b\<close> if and only if \<open>b\<close> is decodable and the string is its encoding, and no assertion of the
  copying code fails (the result is never \<open>None\<close>).  A transaction with outputs and no inputs is left out because
  its encoding starts like that of a transaction with witnesses.
\<close>

theorem block_codec:
  assumes "length bs \<le> u32_max"
  shows "deserialize decode_block bs = Inr x \<longleftrightarrow> (\<exists>b. x = Some b \<and> bs = encode_block b \<and> decodable_block b)"
  by (rule decode_block_iff [OF assms])

lemma sample_block_length: "length (encode_block sample_block) \<le> u32_max"
  by code_simp

theorem block_codec_witness: "deserialize decode_block (encode_block sample_block) = Inr (Some sample_block)"
  using block_codec [OF sample_block_length, of "Some sample_block"] sample_block_wf(2) by simp

text \<open>
  C28: A truncated block is refused: decoding any proper prefix of the encoding of a decodable block (32-byte
  hashes, no transaction with outputs but no inputs, encoding shorter than 4 GiB) is an error.
\<close>

theorem truncated_block_refused:
  assumes "decodable_block b" "length (encode_block b) \<le> u32_max" "n < length (encode_block b)"
  shows "\<exists>e. deserialize decode_block (take n (encode_block b)) = Inl e"
  by (rule truncated_block [OF assms])

theorem truncated_block_refused_witness: "\<exists>e. deserialize decode_block (take 100 (encode_block sample_block)) = Inl e"
proof (rule truncated_block_refused [OF sample_block_wf(2) sample_block_length])
  show "100 < length (encode_block sample_block)" by code_simp
qed

text \<open>
  C17: What is read off the wire image without copying agrees with the decoded transaction:
  the identifier and the stripped size of a parsed transaction are those of the
  transaction it decodes to, and its stripped parts are that transaction's encoding without witnesses.
\<close>

theorem parsed_view_agrees:
  assumes "parse_exact parse_tx_at bs = Inr p" "length bs \<le> u32_max"
  shows "\<exists>tx. materialize p = Some tx \<and> bs = encode_tx tx \<and> parsed_txid sh p = Some (txid sh tx)
    \<and> base_size p = Some (tx_base_size tx) \<and> map_option concat (stripped_parts p) = Some (encode_tx_base tx)"
proof -
  obtain tx where tx: "decodable tx" "bs = encode_tx tx" "tx_rep bs 0 p tx" using assms(1) by (rule parse_exact_tx)
  then have wf: "tx_hashes_wf tx" by (simp add: decodable_def)
  have "length (encode_tx_base tx) \<le> u64_max"
    using length_encode_tx_witness [of tx] assms(2) tx(2)
    by (cases "has_witness tx") (simp_all add: encode_tx_def u32_max_def u64_max_def)
  then have "base_size p = Some (tx_base_size tx)" using base_size_rep [OF tx(3)] tx_base_size_eq [OF wf] by simp
  then show ?thesis
    using materialize_rep [OF tx(3) wf assms(2)] parsed_txid_rep [OF tx(3)] stripped_parts_rep [OF tx(3)] tx(2) by blast
qed

lemma sample_coinbase_parses:
  "(case parse_exact parse_tx_at (encode_tx sample_coinbase) of Inr _ \<Rightarrow> True | Inl _ \<Rightarrow> False)"
  "length (encode_tx sample_coinbase) \<le> u32_max"
  by code_simp+

theorem parsed_view_agrees_witness:
  "\<exists>p tx. parse_exact parse_tx_at (encode_tx sample_coinbase) = Inr p \<and> materialize p = Some tx
    \<and> parsed_txid (pad 32) p = Some (txid (pad 32) tx)"
proof -
  obtain p where "parse_exact parse_tx_at (encode_tx sample_coinbase) = Inr p"
    using sample_coinbase_parses(1) by (auto split: sum.splits)
  then show ?thesis using parsed_view_agrees [OF _ sample_coinbase_parses(2), of p "pad 32"] by blast
qed

text \<open>
  C16: The facts of a block computed on its wire image (identifiers, witness identifiers, weight,
  Merkle root, mutation flag) are those computed from the decoded block, and the image decodes.
\<close>

theorem raw_facts_agree:
  assumes "parse_exact parse_block_at bs = Inr p" "length bs \<le> u32_max"
  shows "\<exists>b. materialize_block p = Some b \<and> bs = encode_block b \<and> from_parsed avx2 sh p = Some (decoded_facts avx2 sh (b_txs b))"
proof -
  have "parse_block_at bs 0 = Inr (p, length bs)" using assms(1) by (auto simp: parse_exact_def split: if_splits)
  then obtain b where b: "decodable_block b" "at_pos bs 0 (encode_block b)" "length bs = length (encode_block b)" "block_rep bs 0 p b"
    using block_sound [of bs 0 p "length bs"] by auto
  then have "encode_block b = bs" by (intro at_whole) simp_all
  then show ?thesis using materialize_block_rep [OF b(4,1) assms(2)] from_parsed_decoded [OF b(4,1)] assms(2) by blast
qed

lemma sample_block_parses:
  "(case parse_exact parse_block_at (encode_block sample_block) of Inr _ \<Rightarrow> True | Inl _ \<Rightarrow> False)"
  by code_simp

theorem raw_facts_agree_witness:
  "\<exists>p b. parse_exact parse_block_at (encode_block sample_block) = Inr p \<and> materialize_block p = Some b
    \<and> from_parsed None (pad 32) p = Some (decoded_facts None (pad 32) (b_txs b))"
proof -
  obtain p where "parse_exact parse_block_at (encode_block sample_block) = Inr p"
    using sample_block_parses by (auto split: sum.splits)
  then show ?thesis using raw_facts_agree [OF _ sample_block_length, of p None "pad 32"] by blast
qed

text \<open>
  C27: The rules of a chain only ever tighten: an input valid under the script flags of a block is
  valid under those of any block at the same or a lower height, as long as the activations are
  ordered and the later block is not the historical pay-to-script-hash exception.
\<close>

theorem later_flags_stricter:
  assumes "height \<le> height'" "csv_active sf \<longrightarrow> csv_active sf'" "segwit_active sf \<longrightarrow> segwit_active sf'"
    and "\<not> is_bip16_p2sh_exception network block_hash'"
    and "accepts (verify_input cr p i (verify_flags network height' block_hash' sf')) None"
  shows "accepts (verify_input cr p i (verify_flags network height block_hash sf)) None"
  by (rule verify_input_flags [OF verify_flags_mono [OF assms(1-4)] assms(5)])

lemma sample_flags:
  "verify_flags Mainnet 100 (replicate 32 1) \<lparr> csv_active = False, segwit_active = True \<rparr> = flags_union (flags_union P2SH WITNESS) NULLDUMMY"
  "\<not> is_bip16_p2sh_exception Mainnet (replicate 32 1)"
  "accepts (verify_input sample_crypto sample_prepared 0 (flags_union (flags_union P2SH WITNESS) NULLDUMMY)) None"
  by code_simp+

theorem later_flags_stricter_witness:
  "accepts (verify_input sample_crypto sample_prepared 0
     (verify_flags Mainnet 50 (replicate 32 2) \<lparr> csv_active = False, segwit_active = False \<rparr>)) None"
  by (rule later_flags_stricter [of 50 100 _ "\<lparr> csv_active = False, segwit_active = True \<rparr>" Mainnet "replicate 32 1"])
    (use sample_flags in simp_all)

section \<open>Transactions in a block\<close>

text \<open>
  C18: The rules on a transaction without its scripts accept exactly the admissible transactions: final
  at this height, with inputs and outputs, outputs in range, a coinbase with a
  script of 2 to 100 bytes, otherwise distinct non-null inputs whose previous outputs exist, add up to at most
  64 bits and cover the outputs, and within the limit on signature operations.
\<close>

theorem tx_rules_exact:
  "verify_transaction_non_script cr tx utxos height cutoff flags = Inr () \<longleftrightarrow> tx_admissible tx utxos height cutoff flags"
  by (rule verify_non_script_iff)

text \<open>
  C6: Verifying the scripts of a block in one batch, all checks prepared before any runs, reports exactly the error of the
  first failing transaction, as verifying the transactions completely one after the
  other would, and succeeds when they all do.
\<close>

theorem block_scripts_first_error:
  assumes "length (view_txs view) = length (view_resolved view)"
  shows "fst (verify_block_input_scripts sh (native_source cr) view height cutoff flags None) =
    or_ok (first_error (block_tx_results cr backend height cutoff flags (view_txs view) (view_resolved view)))"
  unfolding verify_block_scripts_sequential [OF assms]
  using sequential_native [of 0 "view_txs view" "view_resolved view"] assms by simp

theorem block_scripts_first_error_witness:
  "fst (verify_block_input_scripts (pad 32) (native_source sample_crypto)
      \<lparr> view_txs = [sample_spend], view_facts = from_txids None (pad 32) [sample_spend] [txid (pad 32) sample_spend],
        view_resolved = [map Some sample_prevouts] \<rparr> 100 0 P2SH None) =
    or_ok (first_error (block_tx_results sample_crypto None 100 0 P2SH [sample_spend] [map Some sample_prevouts]))"
  using block_scripts_first_error [of "\<lparr> view_txs = [sample_spend], view_facts = from_txids None (pad 32) [sample_spend] [txid (pad 32) sample_spend],
        view_resolved = [map Some sample_prevouts] \<rparr>"] by simp

text \<open>
  C7: The cache of verified transactions never changes the verdict on a block: when every
  entry for these flags stands for scripts that verify, checking the block's scripts with the
  cache gives the same result, errors included, as without it.
\<close>

theorem script_cache_transparent:
  assumes "length (view_txs view) = length (view_resolved view)" "length (view_txs view) = length (block_wtxids sh view)"
    and "cache_sound src height cutoff flags (view_resolved view) (block_wtxids sh view) (live_keys cache) 0 (view_txs view)"
  shows "fst (verify_block_input_scripts sh src view height cutoff flags (Some cache)) =
    fst (verify_block_input_scripts sh src view height cutoff flags None)"
  by (rule block_scripts_cached [OF assms])

theorem script_cache_transparent_witness:
  "fst (verify_block_input_scripts (pad 32) (native_source sample_crypto) sample_view 100 0 P2SH (Some sample_script_cache)) = Inr ()
   \<and> map_option live (snd (verify_block_input_scripts (pad 32) (native_source sample_crypto) sample_view 100 0 P2SH
       (Some sample_script_cache))) = Some [] \<and> live sample_script_cache \<noteq> []"
proof -
  have "scripts_verify (native_source sample_crypto) 100 0 P2SH (view_resolved sample_view) 1 sample_spend"
    using sample_scripts_verify by (auto simp: scripts_verify_def sample_view_def split: sum.splits option.splits)
  moreover have "scripts_verify (native_source sample_crypto) 100 0 P2SH (view_resolved sample_view) 0 sample_coinbase"
    by code_simp
  ultimately have "cache_sound (native_source sample_crypto) 100 0 P2SH (view_resolved sample_view)
      (block_wtxids (pad 32) sample_view) (live_keys sample_script_cache) 0 (view_txs sample_view)"
    by (simp add: sample_view_def)
  from script_cache_transparent [OF sample_view_lengths this] show ?thesis
    using sample_view_verifies sample_view_hit by simp
qed

text \<open>
  C30: The cache of verified transactions stays bounded and consistent in every state that inserts
  and takes can reach: at most its capacity of live entries, one per key, each with its place in the
  eviction queue, the queue ordered by age and itself bounded, until the 64-bit generation counter wraps.
\<close>

theorem script_cache_invariant:
  assumes "cache_reach n c" "n < 2 ^ 64"
  shows "cache_ok c"
  using cache_reach_ok [OF assms] by simp

theorem script_cache_invariant_witness:
  "cache_ok (snd (cache_take [1] P2SH (cache_insert_script [1] P2SH cache_new)))"
  by (rule script_cache_invariant [OF reach_take [OF reach_insert [OF reach_new] prod.collapse [symmetric]]]) simp

text \<open>
  C31: Rolling back a window restores the cache: after any sequence of takes the entries are
  those from before the window.
\<close>

theorem script_cache_rollback:
  assumes "cache_reach n c" "n < 2 ^ 64"
  shows "live_keys (takes_rollback (takes_run c keys)) = live_keys c"
  using rollback_restores [OF window_run] cache_reach_ok [OF assms] by blast

theorem script_cache_rollback_witness:
  "live_keys (takes_rollback (takes_run (cache_insert_script [1] P2SH cache_new) [([1], P2SH), ([2], P2SH)])) =
    live_keys (cache_insert_script [1] P2SH cache_new)"
  by (rule script_cache_rollback [OF reach_insert [OF reach_new]]) simp

section \<open>Consensus parameters\<close>

text \<open>
  C32: The subsidies of any number of blocks never exceed 21 million coins, on every network.
\<close>

theorem supply_bounded: "(\<Sum>h<n. block_subsidy h (subsidy_halving_interval network)) \<le> MAX_MONEY"
  using total_subsidy_le [of "subsidy_halving_interval network" n] by (cases network) simp_all

text \<open>
  C33: A coinbase script names one height: if one script passes the BIP 34 check at two
  32-bit heights, the heights are equal.
\<close>

theorem bip34_height_unique:
  assumes "check_bip34 h s = Inr ()" "check_bip34 h' s = Inr ()" "h < 2 ^ 32" "h' < 2 ^ 32"
  shows "h = h'"
  using assms push_int_prefix_free by (metis check_bip34_iff)

theorem bip34_height_unique_witness: "check_bip34 300 (push_int 300 @ [7]) = Inr () \<and> (300 :: nat) = 300"
  using bip34_height_unique [of 300 "push_int 300 @ [7]" 300] by (simp add: check_bip34_iff)

text \<open>
  C34: The relative lock check is the rule of BIP 68: it passes exactly when the transaction has a version
  below 2, or bit 31 of the sequence number is set, or, with bit 22 set, the block's median time has reached
  the output's plus 512 seconds for each unit of the low 16 bits, or, with bit 22 clear, the block's
  height has reached the output's plus the low 16 bits; both sums are capped at the largest 32-bit number.
\<close>

theorem relative_lock_exact:
  "check_sequence_lock version seq prevout_height prevout_mtp block_height block_mtp = Inr () \<longleftrightarrow>
     unat version < 2 \<or> bit seq 31
     \<or> (if bit seq 22 then min u32_max (prevout_mtp + 512 * (unat seq mod 2 ^ 16)) \<le> block_mtp
        else min u32_max (prevout_height + unat seq mod 2 ^ 16) \<le> block_height)"
  by (rule check_sequence_lock_iff)

section \<open>The header tree\<close>

text \<open>
  C4: In every tree that the operations of the tree build (no one else storing through the shared tip
  pointer), the published tip is the oldest node of
  most work among the nodes not marked invalid, its snapshot is the node's current data, and
  there is no tip exactly when every node is invalid.
\<close>

theorem best_tip_published:
  assumes "tree_reach sh t"
  shows "case t_tip t of
      None \<Rightarrow> \<forall>i. \<not> valid_node t i
    | Some tip \<Rightarrow> is_best t (tip_id tip) \<and> tip_snapshot t (tip_id tip) = Inr tip"
  using tree_reach_inv [OF assms] by (auto simp: tree_inv_def tip_ok_def split: option.splits)

theorem best_tip_published_witness: "t_tip sample_tree = Some (sample_tip 3 2 4) \<and> is_best sample_tree 3"
proof -
  have "t_tip sample_tree = Some (sample_tip 3 2 4)" by (simp add: sample_tree_eq sample_of_def)
  then show ?thesis using best_tip_published [OF sample_tree_reach] by (simp add: sample_tip_def)
qed

text \<open>
  C23: Every tree that the operations of the tree build (no one else storing through the
  shared tip pointer) is well formed: parents come before their
  children, a child is one higher than its parent and names its hash, work adds up along
  the chain within 256 bits, children of invalid nodes are invalid, and looking up a
  hash finds the one node that has it.
\<close>

theorem tree_well_formed:
  assumes "tree_reach sh t"
  shows "nodes_ok t \<and> status_ok t \<and> (lookup t hash = Some i \<longleftrightarrow> i < length (t_nodes t) \<and> n_hash (t_nodes t ! i) = hash)"
  using tree_reach_inv [OF assms] lookup_Some_iff by (auto simp: tree_inv_def base_inv_def)

theorem tree_well_formed_witness: "nodes_ok sample_tree \<and> lookup sample_tree (sample_hash 3) = Some 2"
  using tree_well_formed [OF sample_tree_reach, of "sample_hash 3" 2]
  by (simp add: sample_tree_eq sample_of_def sample_node_def)

text \<open>
  C12: Looking up the ancestor of a node at a height gives the same node whether the index of
  the active chain answers or the walk along the parent pointers: the ancestor that
  many steps up, or nothing when the node is unknown or lower than that.
\<close>

theorem ancestor_index_exact:
  assumes "tree_reach sh t"
  shows "node_at_height_from t i h =
    (if i < length (t_nodes t) \<and> h \<le> height_of t i then anc (parent_of t) (height_of t i - h) i else None)"
  by (rule node_at_height_correct [OF tree_reach_inv [OF assms] tree_reach_length [OF assms]])

theorem ancestor_index_exact_witness: "node_at_height_from sample_tree 3 1 = Some 2 \<and> node_at_height_from sample_tree 1 0 = Some 0"
  using ancestor_index_exact [OF sample_tree_reach, of 3 1] ancestor_index_exact [OF sample_tree_reach, of 1 0]
  by (simp add: sample_tree_eq sample_of_def sample_node_def height_of_eq parent_of_eq)

text \<open>
  C11: The common ancestor that the node computes is the lowest one, through the index and
  without it, and none is reported only when the two nodes share no ancestor.
\<close>

theorem common_ancestor_exact:
  assumes "tree_reach sh t" "a < length (t_nodes t)" "b < length (t_nodes t)"
  shows "case find_common_ancestor t a b of
      Some c \<Rightarrow> is_anc (parent_of t) c a \<and> is_anc (parent_of t) c b
        \<and> (\<forall>d. is_anc (parent_of t) d a \<and> is_anc (parent_of t) d b \<longrightarrow> is_anc (parent_of t) d c)
    | None \<Rightarrow> \<forall>d. \<not> (is_anc (parent_of t) d a \<and> is_anc (parent_of t) d b)"
  using find_common_ancestor_correct [OF tree_reach_inv [OF assms(1)] assms(2,3)]
  by (simp add: common_result_def lowest_common_def split: option.splits)

theorem common_ancestor_exact_witness: "find_common_ancestor sample_tree 1 3 \<noteq> None"
proof -
  have "anc (parent_of sample_tree) 1 1 = Some 0" "anc (parent_of sample_tree) 2 3 = Some 0"
    by (simp_all add: sample_tree_eq sample_of_def sample_node_def parent_of_eq numeral_2_eq_2)
  then have "is_anc (parent_of sample_tree) 0 1" "is_anc (parent_of sample_tree) 0 3" unfolding is_anc_def by blast+
  then show ?thesis using common_ancestor_exact [OF sample_tree_reach, of 1 3]
    by (auto simp: sample_tree_eq sample_of_def split: option.splits)
qed

text \<open>
  C13: Invalidating a known node succeeds; afterwards exactly the nodes that were valid and do
  not descend from it are valid, and no node moves or changes its header.
\<close>

theorem invalidation_exact:
  assumes "tree_reach sh t" "root < length (t_nodes t)"
  shows "\<exists>outcome t'. invalidate_subtree root t = (Inr outcome, t') \<and> shapes t' = shapes t
    \<and> (\<forall>i. valid_node t' i \<longleftrightarrow> valid_node t i \<and> \<not> is_anc (parent_of t) root i)"
proof -
  obtain r t' where r: "invalidate_subtree root t = (r, t')" by fastforce
  obtain plan where "invalidation_plan t root = Inr plan"
    using invalidation_plan_ok [OF assms(2) tree_reach_length [OF assms(1)]] by blast
  then show ?thesis using invalidate_inv [OF tree_reach_inv [OF assms(1)] r] r by auto
qed

theorem invalidation_exact_witness:
  "\<exists>outcome t'. invalidate_subtree 2 sample_tree = (Inr outcome, t') \<and> \<not> valid_node t' 3 \<and> valid_node t' 1"
proof -
  have "anc (parent_of sample_tree) 1 3 = Some 2" "\<And>k. anc (parent_of sample_tree) k 1 \<noteq> Some 2"
    using tree.anc_le [OF tree_inv_nodes [OF tree_reach_inv [OF sample_tree_reach]], of _ 1 2]
    by (auto simp: sample_tree_eq sample_of_def sample_node_def parent_of_eq)
  then have "is_anc (parent_of sample_tree) 2 3" "\<not> is_anc (parent_of sample_tree) 2 1" unfolding is_anc_def by blast+
  moreover have "valid_node sample_tree 1" "2 < length (t_nodes sample_tree)"
    by (simp_all add: sample_tree_eq sample_of_def sample_node_def valid_node_def)
  ultimately show ?thesis using invalidation_exact [OF sample_tree_reach, of 2] by blast
qed

section \<open>Proof of work\<close>

text \<open>
  C19: Encoding a target and decoding it again gives the greatest target with an encoding that
  does not exceed it; so the round trip never eases a target, and it keeps
  every target that was decoded from a header.
\<close>

theorem compact_target_rounding:
  assumes "x < 2 ^ 256"
  shows "compact_to_target (target_to_compact x) \<le> x
    \<and> (\<forall>bits. compact_to_target bits \<le> x \<longrightarrow> compact_to_target bits \<le> compact_to_target (target_to_compact x))"
  using compact_rounds_down [OF assms] compact_rounds_greatest [OF assms] by blast

theorem compact_target_rounding_witness: "compact_to_target (target_to_compact 0x12345678) \<le> 0x12345678"
  using compact_target_rounding [of "0x12345678"] by simp

text \<open>
  C35: The work of a header is the whole part of \<open>2 ^ 256 / (target + 1)\<close>, which the code
  computes within 256 bits, and zero when its target is zero or overflows.
\<close>

theorem block_work_exact:
  "block_work header =
     (if compact_to_target (h_bits header) = 0 \<or> compact_overflows (h_bits header) then 0
      else 2 ^ 256 div (compact_to_target (h_bits header) + 1))"
  by (simp only: block_work_eq Let_def)

section \<open>Version bits\<close>

text \<open>
  C22: The state of a deployment is computed at every height: the recursion over the periods returns and no
  division fails, for every context and all parameters; with a period of zero, where the
  division would fail and the recursion would not end, the state is \<open>Defined\<close>.
\<close>

theorem bip9_state_total:
  assumes "height \<le> u32_max"
  shows "\<exists>state. compute_state ctx height params = Some state \<and> (dp_period params = 0 \<longrightarrow> state = Defined)"
  using compute_state_eq [OF assms, of ctx params] by auto

theorem bip9_state_total_witness:
  "(\<exists>state. compute_state \<lparr> block_version = \<lambda>_. None, median_time_past = Some \<rparr> 100
     \<lparr> dp_bit = 0, dp_start_time = 5, dp_timeout = 20, dp_period = 4, dp_threshold = 3 \<rparr> = Some state)
   \<and> compute_state \<lparr> block_version = \<lambda>_. None, median_time_past = Some \<rparr> 100
     \<lparr> dp_bit = 0, dp_start_time = 5, dp_timeout = 20, dp_period = 0, dp_threshold = 3 \<rparr> = Some Defined"
  using bip9_state_total [of 100 "\<lparr> block_version = \<lambda>_. None, median_time_past = Some \<rparr>"
      "\<lparr> dp_bit = 0, dp_start_time = 5, dp_timeout = 20, dp_period = 4, dp_threshold = 3 \<rparr>"]
    bip9_state_total [of 100 "\<lparr> block_version = \<lambda>_. None, median_time_past = Some \<rparr>"
      "\<lparr> dp_bit = 0, dp_start_time = 5, dp_timeout = 20, dp_period = 0, dp_threshold = 3 \<rparr>"] by (simp add: u32_max_def)

text \<open>
  C20: Once the median time before a period boundary has reached the timeout, the deployment is
  active or failed at that boundary and has the same state at every later height.
\<close>

theorem bip9_settles:
  assumes "0 < dp_period params" "median_time_past ctx (Suc n * dp_period params - 1) = Some mtp" "dp_timeout params \<le> mtp"
    and "Suc n * dp_period params \<le> height" "height \<le> u32_max"
  shows "\<exists>state \<in> {Active, Failed}. compute_state ctx height params = Some state
    \<and> compute_state ctx (Suc n * dp_period params) params = Some state"
proof -
  have "Suc n \<le> height div dp_period params" using assms(1,4) by (simp add: less_eq_div_iff_mult_less_eq)
  note settled = period_state_settles [OF assms(2,3) this]
  moreover have "compute_state ctx height params = Some (period_state ctx params (height div dp_period params))"
    using compute_state_eq [OF assms(5)] assms(1) by simp
  moreover have "compute_state ctx (Suc n * dp_period params) params = Some (period_state ctx params (Suc n))"
    using compute_state_eq [of "Suc n * dp_period params" ctx params] assms(1,4,5) by (simp del: mult_Suc period_state.simps)
  ultimately show ?thesis by metis
qed

theorem bip9_settles_witness:
  "\<exists>state \<in> {Active, Failed}. compute_state \<lparr> block_version = \<lambda>_. None, median_time_past = Some \<rparr> 100
     \<lparr> dp_bit = 0, dp_start_time = 5, dp_timeout = 20, dp_period = 10, dp_threshold = 3 \<rparr> = Some state"
proof -
  let ?ctx = "\<lparr> block_version = \<lambda>_. None, median_time_past = Some \<rparr> :: DeploymentContext"
  let ?p = "\<lparr> dp_bit = 0, dp_start_time = 5, dp_timeout = 20, dp_period = 10, dp_threshold = 3 \<rparr> :: DeploymentParams"
  have "median_time_past ?ctx (Suc 2 * dp_period ?p - 1) = Some 29" by simp
  then show ?thesis using bip9_settles [of ?p ?ctx 2 29 100] by (auto simp: u32_max_def)
qed

text \<open>
  C21: A deployment is active only after a period in which it was started, at least the threshold of
  blocks signalled, and the median time had not reached the timeout; two
  boundaries lie between that period and activation.
\<close>

theorem bip9_activation_signalled:
  assumes "compute_state ctx height params = Some Active" "height \<le> u32_max"
  shows "\<exists>n. Suc (Suc n) * dp_period params \<le> height \<and> locked_in_by ctx params n"
proof -
  have "0 < dp_period params" "period_state ctx params (height div dp_period params) = Active"
    using assms compute_state_eq [OF assms(2)] by (auto split: if_splits)
  then show ?thesis using active_reason by (metis less_eq_div_iff_mult_less_eq)
qed

theorem bip9_activation_signalled_witness:
  "\<exists>n. Suc (Suc n) * 2 \<le> 8 \<and> locked_in_by \<lparr> block_version = \<lambda>_. Some 0x20000001, median_time_past = Some \<rparr>
     \<lparr> dp_bit = 0, dp_start_time = 1, dp_timeout = 50, dp_period = 2, dp_threshold = 2 \<rparr> n"
proof -
  let ?ctx = "\<lparr> block_version = \<lambda>_. Some 0x20000001, median_time_past = Some \<rparr> :: DeploymentContext"
  let ?p = "\<lparr> dp_bit = 0, dp_start_time = 1, dp_timeout = 50, dp_period = 2, dp_threshold = 2 \<rparr> :: DeploymentParams"
  have "compute_state ?ctx 8 ?p = Some Active" by code_simp
  then show ?thesis using bip9_activation_signalled [of ?ctx 8 ?p] by (simp add: u32_max_def)
qed

end
